(* ===== verification/Prelude.thy ===== *)
theory Prelude
  imports
    Main
    "HOL-Library.Char_ord"
    "HOL-Library.List_Lexorder"
    "HOL-Library.Sublist"
    "HOL-Library.AList"
begin

text \<open>
  Shared vocabulary of the development.

  \<^item> The theorem collections the component theories extend: \<open>go_simps\<close> (equations
    that evaluate the models of Go library calls), \<open>map_simps\<close> (laws of Go maps).
  \<^item> Results of Go code.  A Go function that returns \<open>(T, error)\<close> has the type
    \<open>'e + 'a\<close>, with \<open>Inl\<close> for the error.  Code that can panic or call
    \<open>log.Fatal\<close> returns \<open>'a go\<close>.
  \<^item> Go maps are association lists with distinct keys; the order of the list is the
    (unspecified) order in which a \<open>range\<close> loop visits the entries, so a statement
    that holds for every such list holds for every iteration order.
\<close>

named_theorems go_simps "equations that evaluate models of the Go library"
named_theorems map_simps "laws of Go maps"

section \<open>Outcomes of code that can panic\<close>

datatype 'a go = Done 'a | Panic string | Fatal string

fun go_bind :: "'a go \<Rightarrow> ('a \<Rightarrow> 'b go) \<Rightarrow> 'b go" where
  "go_bind (Done a) f = f a"
| "go_bind (Panic m) f = Panic m"
| "go_bind (Fatal m) f = Fatal m"

lemma go_bind_Done_iff: "go_bind m f = Done b \<longleftrightarrow> (\<exists>a. m = Done a \<and> f a = Done b)"
  by (cases m) auto

lemma go_bind_assoc: "go_bind (go_bind m f) g = go_bind m (\<lambda>a. go_bind (f a) g)"
  by (cases m) auto

fun res_bind :: "'e + 'a \<Rightarrow> ('a \<Rightarrow> 'e + 'b) \<Rightarrow> 'e + 'b" where
  "res_bind (Inl e) f = Inl e"
| "res_bind (Inr a) f = f a"

lemma res_bind_Inr_iff: "res_bind m f = Inr b \<longleftrightarrow> (\<exists>a. m = Inr a \<and> f a = Inr b)"
  by (cases m) auto

lemma res_bind_Inl_iff:
  "res_bind m f = Inl e \<longleftrightarrow> m = Inl e \<or> (\<exists>a. m = Inr a \<and> f a = Inl e)"
  by (cases m) auto

text \<open>Sequencing in functions that can panic and return errors.\<close>

lemma go_bind_Inr_iff:
  "go_bind m (\<lambda>r. case r of Inl e \<Rightarrow> Done (Inl (h e)) | Inr x \<Rightarrow> f x) = Done (Inr y)
    \<longleftrightarrow> (\<exists>x. m = Done (Inr x) \<and> f x = Done (Inr y))"
  by (cases m) (auto split: sum.splits)

section \<open>Go maps\<close>

type_synonym ('k, 'v) gomap = "('k \<times> 'v) list"

abbreviation gm_get :: "('k, 'v) gomap \<Rightarrow> 'k \<Rightarrow> 'v option" where
  "gm_get m k \<equiv> map_of m k"

abbreviation gm_put :: "'k \<Rightarrow> 'v \<Rightarrow> ('k, 'v) gomap \<Rightarrow> ('k, 'v) gomap" where
  "gm_put k v m \<equiv> AList.update k v m"

abbreviation gm_del :: "'k \<Rightarrow> ('k, 'v) gomap \<Rightarrow> ('k, 'v) gomap" where
  "gm_del k m \<equiv> AList.delete k m"

abbreviation gm_keys :: "('k, 'v) gomap \<Rightarrow> 'k list" where
  "gm_keys m \<equiv> List.map fst m"

definition gm_ok :: "('k, 'v) gomap \<Rightarrow> bool" where
  "gm_ok m \<longleftrightarrow> distinct (gm_keys m)"

text \<open>Reading a missing key yields the zero value of the element type.\<close>

definition gm_get0 :: "'v \<Rightarrow> ('k, 'v) gomap \<Rightarrow> 'k \<Rightarrow> 'v" where
  "gm_get0 z m k = (case gm_get m k of None \<Rightarrow> z | Some v \<Rightarrow> v)"

text \<open>\<open>m[k]++\<close> on a map of counters.\<close>

definition gm_bump :: "'k \<Rightarrow> ('k, nat) gomap \<Rightarrow> ('k, nat) gomap" where
  "gm_bump k m = gm_put k (Suc (gm_get0 0 m k)) m"

text \<open>
  The contract the clients of a map rely on, whatever its representation: what a lookup
  returns after each update, and that the key list has no duplicates.
\<close>

locale map_store =
  fixes empty :: "'m"
    and get :: "'m \<Rightarrow> 'k \<Rightarrow> 'v option"
    and put :: "'k \<Rightarrow> 'v \<Rightarrow> 'm \<Rightarrow> 'm"
    and del :: "'k \<Rightarrow> 'm \<Rightarrow> 'm"
    and keys :: "'m \<Rightarrow> 'k list"
    and ok :: "'m \<Rightarrow> bool"
  assumes get_empty: "get empty k = None"
    and get_put: "ok m \<Longrightarrow> get (put k v m) k' = (if k' = k then Some v else get m k')"
    and get_del: "ok m \<Longrightarrow> get (del k m) k' = (if k' = k then None else get m k')"
    and set_keys: "ok m \<Longrightarrow> set (keys m) = {k. get m k \<noteq> None}"
    and distinct_keys: "ok m \<Longrightarrow> distinct (keys m)"
    and ok_empty: "ok empty"
    and ok_put: "ok m \<Longrightarrow> ok (put k v m)"
    and ok_del: "ok m \<Longrightarrow> ok (del k m)"
begin

lemma ok_fold_put: "ok m \<Longrightarrow> ok (fold (\<lambda>x. put (f x) (g x)) xs m)"
  by (induction xs arbitrary: m) (auto simp: ok_put)

text \<open>A loop that stores a value computed from the key alone.\<close>

lemma get_fold_put:
  "ok m \<Longrightarrow> get (fold (\<lambda>x. put x (g x)) xs m) k = (if k \<in> set xs then Some (g k) else get m k)"
  by (induction xs arbitrary: m) (auto simp: ok_put get_put)

text \<open>A loop that counts occurrences.\<close>

lemma get_fold_bump:
  assumes zero: "\<And>n. num (inc n) = Suc (num n)" and "num z = 0" and "ok m"
  shows "(case get (fold (\<lambda>x m. put x (inc (case get m x of None \<Rightarrow> z | Some n \<Rightarrow> n)) m) xs m) k of
            None \<Rightarrow> 0 | Some n \<Rightarrow> num n)
       = (case get m k of None \<Rightarrow> 0 | Some n \<Rightarrow> num n) + count_list xs k"
  using assms(3)
proof (induction xs arbitrary: m)
  case Nil
  then show ?case by simp
next
  case (Cons x xs)
  then show ?case
    by (cases "get m x") (auto simp: ok_put get_put zero assms(2))
qed

lemma keys_nonempty_iff: "ok m \<Longrightarrow> keys m = [] \<longleftrightarrow> (\<forall>k. get m k = None)"
  using set_keys [of m] by auto

end

interpretation gm: map_store "[]" map_of AList.update AList.delete "List.map fst" gm_ok
  by unfold_locales
    (auto simp: gm_ok_def update_conv delete_conv distinct_update distinct_delete
      map_of_eq_None_iff image_iff split: if_splits)

lemmas gm_laws [map_simps] =
  gm.get_put gm.get_del gm.ok_empty gm.ok_put gm.ok_del gm.ok_fold_put gm.get_fold_put

text \<open>Two maps with the same lookups differ only in iteration order.\<close>

lemma gm_same_entries:
  assumes "gm_ok m" "gm_ok m'" "map_of m = map_of m'"
  shows "set m = set m'"
  using assms by (metis gm_ok_def map_of_inject_set)

lemma gm_get0_bump: "gm_get0 0 (gm_bump k m) k' = gm_get0 0 m k' + (if k' = k then 1 else 0)"
  by (simp add: gm_bump_def gm_get0_def update_conv)

lemma gm_ok_bump [map_simps]: "gm_ok m \<Longrightarrow> gm_ok (gm_bump k m)"
  by (simp add: gm_bump_def gm_ok_def distinct_update)

lemma gm_ok_filter [map_simps]: "gm_ok m \<Longrightarrow> gm_ok (List.filter P m)"
  by (simp add: gm_ok_def distinct_map_filter)

lemma gm_get_filter:
  "gm_ok m \<Longrightarrow> gm_get (List.filter P m) k
    = (case gm_get m k of None \<Rightarrow> None | Some v \<Rightarrow> if P (k, v) then Some v else None)"
proof (induction m)
  case Nil
  then show ?case by simp
next
  case (Cons a m)
  obtain k' v' where a: "a = (k', v')" by force
  have "k' \<notin> set (gm_keys m)" and "gm_ok m"
    using Cons.prems by (auto simp: gm_ok_def a)
  then have "gm_get m k' = None" "gm_get (List.filter P m) k' = None"
    by (auto simp: map_of_eq_None_iff)
  with Cons.IH [OF \<open>gm_ok m\<close>] show ?case by (auto simp: a)
qed

section \<open>Lists\<close>

lemma sorted_distinct_members:
  "sorted (xs :: 'a :: linorder list) \<Longrightarrow> distinct xs \<Longrightarrow> xs = sorted_list_of_set (set xs)"
  by (metis sorted_list_of_set.idem_if_sorted_distinct)

lemma filter_partition_length: "length (List.filter P xs) + length (List.filter (\<lambda>x. \<not> P x) xs) = length xs"
  by (rule sum_length_filter_compl)

section \<open>Programs that run in steps\<close>

text \<open>
  The interface of a concurrent component: the states it can be in are those reached from its first state
  by its steps, and no others.  What holds at first and is kept by every step holds throughout.
\<close>

locale transition_system =
  fixes start :: 's and step :: "'s \<Rightarrow> 's \<Rightarrow> bool" and reach :: "'s \<Rightarrow> bool"
  assumes reach_start: "reach start"
    and reach_step: "reach s \<Longrightarrow> step s t \<Longrightarrow> reach t"
    and reach_least: "reach s \<Longrightarrow> I start \<Longrightarrow> (\<And>x y. I x \<Longrightarrow> step x y \<Longrightarrow> I y) \<Longrightarrow> I s"
begin

lemmas invariant = reach_least [consumes 1, case_names init inv]

lemma reach_iff: "reach s \<longleftrightarrow> step\<^sup>*\<^sup>* start s"
proof
  show "reach s \<Longrightarrow> step\<^sup>*\<^sup>* start s" by (erule reach_least) (simp_all add: rtranclp.rtrancl_into_rtrancl)
  show "step\<^sup>*\<^sup>* start s \<Longrightarrow> reach s" by (induction rule: rtranclp_induct) (simp_all add: reach_start reach_step)
qed

text \<open>An invariant may lean on another that is already known.\<close>

lemma invariant_under [consumes 2, case_names init inv]:
  assumes "reach s" "\<And>x. reach x \<Longrightarrow> J x" "I start" "\<And>x y. J x \<Longrightarrow> I x \<Longrightarrow> step x y \<Longrightarrow> I y"
  shows "I s"
proof -
  have "reach s \<and> I s"
    using assms(1) by (rule reach_least) (use assms(2,3,4) reach_start reach_step in blast)+
  then show ?thesis ..
qed

end

text \<open>
  Part of the steps is the component's own work, which uses something up and is possible as long as the
  component is not idle.  Left alone, it becomes idle.
\<close>

locale draining = transition_system start step reach
  for start :: 's and step :: "'s \<Rightarrow> 's \<Rightarrow> bool" and reach :: "'s \<Rightarrow> bool" +
  fixes work :: "'s \<Rightarrow> 's \<Rightarrow> bool" and left :: "'s \<Rightarrow> nat" and idle :: "'s \<Rightarrow> bool"
  assumes work_step: "work s t \<Longrightarrow> step s t"
    and work_left: "work s t \<Longrightarrow> left t < left s"
    and can_work: "reach s \<Longrightarrow> \<not> idle s \<Longrightarrow> \<exists>t. work s t"
begin

lemma drains: "reach s \<Longrightarrow> \<exists>t. work\<^sup>*\<^sup>* s t \<and> idle t"
proof (induction "left s" arbitrary: s rule: less_induct)
  case less
  show ?case
  proof (cases "idle s")
    case False
    then obtain t where t: "work s t" using can_work less.prems by blast
    with less.hyps [OF work_left [OF t]] reach_step [OF less.prems work_step [OF t]]
    obtain u where "work\<^sup>*\<^sup>* t u" "idle u" by blast
    with t show ?thesis by (meson converse_rtranclp_into_rtranclp)
  qed blast
qed

lemma work_ends: "wfP (\<lambda>t s. work s t)"
  by (rule wfp_if_convertible_to_nat [of _ left]) (rule work_left)

end

end
