(* ===== verification/USet.thy ===== *)
theory USet
  imports Prelude
begin

text \<open>
  \<open>util/set.go\<close>: sets of ordered values kept as \<open>map[T]struct{}\<close>, whose members are
  listed in sorted order.  \<open>SetAdd\<close>, \<open>NewSetFromSlices\<close>, \<open>Members\<close> and \<open>Has\<close> are
  the operations; the locale \<open>ordered_set\<close> is the contract the policy engine relies on
  when it takes the union of lists from several configuration levels.
\<close>

type_synonym 'a uset = "('a, unit) gomap"

text \<open>\<open>func (s Set[T]) Add(vals ...T)\<close>\<close>

definition set_add :: "'a list \<Rightarrow> 'a uset \<Rightarrow> 'a uset" where
  "set_add vals s = fold (\<lambda>v. gm_put v ()) vals s"

text \<open>\<open>func NewSetFromSlices(vals ...[]T) Set[T]\<close>\<close>

definition NewSetFromSlices :: "'a list list \<Rightarrow> 'a uset" where
  "NewSetFromSlices vals = fold (\<lambda>innerVals s. fold (\<lambda>v. gm_put v ()) innerVals s) vals []"

text \<open>\<open>func (s Set[T]) Members() []T\<close>: the keys in iteration order, then \<open>slices.Sort\<close>.\<close>

definition Members :: "'a :: linorder uset \<Rightarrow> 'a list" where
  "Members s = sort (gm_keys s)"

text \<open>\<open>func (s Set[T]) Has(val T) bool\<close>\<close>

definition Has :: "'a uset \<Rightarrow> 'a \<Rightarrow> bool" where
  "Has s val = (gm_get s val \<noteq> None)"

section \<open>The contract\<close>

locale ordered_set =
  fixes new :: "'a :: linorder list list \<Rightarrow> 's"
    and add :: "'a list \<Rightarrow> 's \<Rightarrow> 's"
    and members :: "'s \<Rightarrow> 'a list"
    and has :: "'s \<Rightarrow> 'a \<Rightarrow> bool"
    and ok :: "'s \<Rightarrow> bool"
  assumes ok_new: "ok (new vss)"
    and ok_add: "ok s \<Longrightarrow> ok (add vs s)"
    and has_new: "has (new vss) v \<longleftrightarrow> (\<exists>vs\<in>set vss. v \<in> set vs)"
    and has_add: "ok s \<Longrightarrow> has (add vs s) v \<longleftrightarrow> v \<in> set vs \<or> has s v"
    and set_members: "ok s \<Longrightarrow> set (members s) = {v. has s v}"
    and sorted_members: "sorted (members s)"
    and distinct_members: "ok s \<Longrightarrow> distinct (members s)"
begin

lemma members_new: "set (members (new vss)) = (\<Union>vs\<in>set vss. set vs)"
  by (auto simp: set_members ok_new has_new)

text \<open>The listing depends on the elements only, not on the order or multiplicity of adding.\<close>

lemma members_eqI:
  assumes "ok s" "ok t" "\<And>v. has s v = has t v"
  shows "members s = members t"
proof -
  have "set (members s) = set (members t)" using assms by (simp add: set_members)
  with assms show ?thesis
    by (metis sorted_distinct_members sorted_members distinct_members)
qed

lemma members_canonical: "members (new vss) = sorted_list_of_set (\<Union>vs\<in>set vss. set vs)"
  using sorted_distinct_members [OF sorted_members distinct_members [OF ok_new]]
  by (simp add: members_new)

lemma members_mono: "set vss \<subseteq> set wss \<Longrightarrow> set (members (new vss)) \<subseteq> set (members (new wss))"
  by (auto simp: members_new)

text \<open>Taking the union again changes nothing.\<close>

lemma members_idem: "members (new [members (new vss)]) = members (new vss)"
  by (rule members_eqI) (auto simp: ok_new has_new set_members)

lemma members_absorb:
  assumes "\<And>v. v \<in> set xs \<Longrightarrow> \<exists>vs\<in>set vss. v \<in> set vs"
  shows "members (new (xs # vss)) = members (new vss)"
  using assms by (intro members_eqI) (auto simp: ok_new has_new)

end

section \<open>The map provides it\<close>

lemma gm_ok_fold_nested:
  "gm_ok s \<Longrightarrow> gm_ok (fold (\<lambda>vs s. fold (\<lambda>v. gm_put v ()) vs s) vss s)"
  by (induction vss arbitrary: s) (auto simp: gm.ok_fold_put)

lemma gm_get_fold_nested:
  "gm_ok s \<Longrightarrow> gm_get (fold (\<lambda>vs s. fold (\<lambda>v. gm_put v ()) vs s) vss s) k
     = (if \<exists>vs\<in>set vss. k \<in> set vs then Some () else gm_get s k)"
  by (induction vss arbitrary: s) (auto simp: gm.get_fold_put gm.ok_fold_put)

interpretation us: ordered_set "NewSetFromSlices :: 'a :: linorder list list \<Rightarrow> 'a uset"
  set_add Members Has gm_ok
proof unfold_locales
  fix vs :: "'a list" and vss :: "'a list list" and s :: "'a uset" and v :: 'a
  show "gm_ok (NewSetFromSlices vss)"
    by (simp add: NewSetFromSlices_def gm_ok_fold_nested gm.ok_empty)
  show "gm_ok s \<Longrightarrow> gm_ok (set_add vs s)" by (simp add: set_add_def gm.ok_fold_put)
  show "Has (NewSetFromSlices vss) v = (\<exists>vs\<in>set vss. v \<in> set vs)"
    by (simp add: Has_def NewSetFromSlices_def gm_get_fold_nested gm.ok_empty)
  show "gm_ok s \<Longrightarrow> Has (set_add vs s) v = (v \<in> set vs \<or> Has s v)"
    by (simp add: Has_def set_add_def gm.get_fold_put)
  show "gm_ok s \<Longrightarrow> set (Members s) = {v. Has s v}"
    by (auto simp: Members_def Has_def map_of_eq_None_iff)
  show "sorted (Members s)" by (simp add: Members_def)
  show "gm_ok s \<Longrightarrow> distinct (Members s)" by (simp add: Members_def gm_ok_def)
qed

lemmas uset_laws = us.ok_new us.ok_add us.has_new us.has_add us.set_members us.sorted_members
  us.distinct_members us.members_new

lemma set_Members: "set (Members s) = set (gm_keys s)"
  by (simp add: Members_def)

section \<open>Properties\<close>

text \<open>
  The members of a set built from several lists are their union, sorted and without
  duplicates, whatever the order of the lists and of their elements; building the set again
  from its own members, alone or with lists it already covers, gives the same members.
\<close>

theorem Members_union:
  "Members (NewSetFromSlices vss) = sorted_list_of_set (\<Union>vs\<in>set vss. set (vs :: string list)) \<and>
   Members (NewSetFromSlices (Members (NewSetFromSlices vss) # vss)) = Members (NewSetFromSlices vss)"
proof
  show "Members (NewSetFromSlices vss) = sorted_list_of_set (\<Union>vs\<in>set vss. set vs)"
    by (rule us.members_canonical)
  show "Members (NewSetFromSlices (Members (NewSetFromSlices vss) # vss)) = Members (NewSetFromSlices vss)"
    by (rule us.members_absorb) (auto simp: us.members_new)
qed

theorem Members_union_witness:
  "Members (NewSetFromSlices [[''b'', ''a''], [''a'', ''c'']]) = [''a'', ''b'', ''c'']"
proof -
  have "Members (NewSetFromSlices [[''b'', ''a''], [''a'', ''c'']])
      = sorted_list_of_set {''a'', ''b'', ''c''}"
    using Members_union [of "[[''b'', ''a''], [''a'', ''c'']]"] by (simp add: insert_commute)
  then show ?thesis by (simp add: insort_key.simps)
qed

end
