(* ===== verification/GoStrings.thy ===== *)
theory GoStrings
  imports Prelude
begin

text \<open>
  The functions of Go's packages \<open>strings\<close> and \<open>strconv\<close> that the repository calls,
  on strings of bytes (\<open>char list\<close>).  \<open>strings.HasPrefix\<close>, \<open>HasSuffix\<close> and
  \<open>Contains\<close> are \<^const>\<open>prefix\<close>, \<^const>\<open>suffix\<close> and \<^const>\<open>sublist\<close> of the
  library.  Separators are single bytes, as in every call of the repository.  Case
  conversion is the ASCII part of Go's.
\<close>

section \<open>Definitions\<close>

text \<open>\<open>strings.Split(s, string(c))\<close>\<close>

fun split_on :: "char \<Rightarrow> string \<Rightarrow> string list" where
  "split_on c [] = [[]]"
| "split_on c (x # xs) =
     (if x = c then [] # split_on c xs
      else case split_on c xs of [] \<Rightarrow> [[x]] | p # ps \<Rightarrow> (x # p) # ps)"

text \<open>\<open>strings.Join(ps, sep)\<close>\<close>

fun join_with :: "string \<Rightarrow> string list \<Rightarrow> string" where
  "join_with sep [] = []"
| "join_with sep [p] = p"
| "join_with sep (p # q # ps) = p @ sep @ join_with sep (q # ps)"

text \<open>\<open>strings.Cut(s, string(c))\<close>: the part before and after the first \<open>c\<close>, if any.\<close>

fun cut_at :: "char \<Rightarrow> string \<Rightarrow> (string \<times> string) option" where
  "cut_at c [] = None"
| "cut_at c (x # xs) =
     (if x = c then Some ([], xs)
      else case cut_at c xs of None \<Rightarrow> None | Some (a, b) \<Rightarrow> Some (x # a, b))"

text \<open>\<open>i := strings.LastIndex(s, string(c))\<close> with \<open>s[:i]\<close> and \<open>s[i+1:]\<close>, if found.\<close>

fun cut_last :: "char \<Rightarrow> string \<Rightarrow> (string \<times> string) option" where
  "cut_last c [] = None"
| "cut_last c (x # xs) =
     (case cut_last c xs of
        Some (a, b) \<Rightarrow> Some (x # a, b)
      | None \<Rightarrow> if x = c then Some ([], xs) else None)"

text \<open>\<open>s[strings.LastIndex(s, string(c))+1:]\<close>: all of \<open>s\<close> when \<open>c\<close> does not occur.\<close>

definition after_last :: "char \<Rightarrow> string \<Rightarrow> string" where
  "after_last c s = (case cut_last c s of None \<Rightarrow> s | Some (_, b) \<Rightarrow> b)"

definition trim_suffix :: "string \<Rightarrow> string \<Rightarrow> string" where
  "trim_suffix s suf = (if suffix suf s then take (length s - length suf) s else s)"

definition is_space :: "char \<Rightarrow> bool" where
  "is_space c \<longleftrightarrow> c \<in> set [CHR 0x09, CHR 0x0A, CHR 0x0B, CHR 0x0C, CHR 0x0D, CHR '' '']"

definition trim_space :: "string \<Rightarrow> string" where
  "trim_space s = rev (dropWhile is_space (rev (dropWhile is_space s)))"

text \<open>\<open>strings.Fields(s)\<close>: the maximal runs of non-space bytes.\<close>

fun fields_acc :: "string \<Rightarrow> string \<Rightarrow> string list" where
  "fields_acc w [] = (if w = [] then [] else [rev w])"
| "fields_acc w (x # xs) =
     (if is_space x then (if w = [] then fields_acc [] xs else rev w # fields_acc [] xs)
      else fields_acc (x # w) xs)"

definition fields :: "string \<Rightarrow> string list" where
  "fields s = fields_acc [] s"

definition upper_letters :: string where "upper_letters = ''ABCDEFGHIJKLMNOPQRSTUVWXYZ''"
definition lower_letters :: string where "lower_letters = ''abcdefghijklmnopqrstuvwxyz''"

definition lower_char :: "char \<Rightarrow> char" where
  "lower_char c = (case map_of (zip upper_letters lower_letters) c of Some d \<Rightarrow> d | None \<Rightarrow> c)"

definition upper_char :: "char \<Rightarrow> char" where
  "upper_char c = (case map_of (zip lower_letters upper_letters) c of Some d \<Rightarrow> d | None \<Rightarrow> c)"

definition to_lower :: "string \<Rightarrow> string" where "to_lower = List.map lower_char"
definition to_upper :: "string \<Rightarrow> string" where "to_upper = List.map upper_char"

text \<open>\<open>strings.ReplaceAll\<close> and \<open>strings.NewReplacer\<close> for one byte by another.\<close>

definition replace_char :: "char \<Rightarrow> char \<Rightarrow> string \<Rightarrow> string" where
  "replace_char a b = List.map (\<lambda>c. if c = a then b else c)"

text \<open>\<open>strings.Repeat(s, n)\<close>\<close>

definition repeat_str :: "string \<Rightarrow> nat \<Rightarrow> string" where
  "repeat_str s n = concat (replicate n s)"

text \<open>\<open>filepath.Clean\<close> and \<open>filepath.Join\<close> for slash-separated paths.\<close>

fun clean_comps :: "bool \<Rightarrow> string list \<Rightarrow> string list \<Rightarrow> string list" where
  "clean_comps rooted acc [] = rev acc"
| "clean_comps rooted acc (c # cs) =
     (if c = [] \<or> c = ''.'' then clean_comps rooted acc cs
      else if c = ''..'' then
        (case acc of
           [] \<Rightarrow> clean_comps rooted (if rooted then [] else [c]) cs
         | a # as \<Rightarrow> clean_comps rooted (if a = ''..'' then c # acc else as) cs)
      else clean_comps rooted (c # acc) cs)"

definition filepath_clean :: "string \<Rightarrow> string" where
  "filepath_clean s =
     (let rooted = (s \<noteq> [] \<and> hd s = CHR ''/'');
          out = join_with ''/'' (clean_comps rooted [] (split_on (CHR ''/'') s))
      in if rooted then CHR ''/'' # out else if out = [] then ''.'' else out)"

definition filepath_join :: "string list \<Rightarrow> string" where
  "filepath_join ps =
     (case List.filter (\<lambda>p. p \<noteq> []) ps of [] \<Rightarrow> [] | qs \<Rightarrow> filepath_clean (join_with ''/'' qs))"

text \<open>The decimal form of a number, as \<open>%d\<close> prints it.\<close>

definition digit_chars :: string where "digit_chars = ''0123456789''"
definition digit_char :: "nat \<Rightarrow> char" where "digit_char d = digit_chars ! d"
definition is_digit :: "char \<Rightarrow> bool" where "is_digit c \<longleftrightarrow> c \<in> set digit_chars"
definition digit_val :: "char \<Rightarrow> nat" where
  "digit_val c = length (takeWhile (\<lambda>d. d \<noteq> c) digit_chars)"

fun show_nat :: "nat \<Rightarrow> string" where
  "show_nat n = (if n < 10 then [digit_char n] else show_nat (n div 10) @ [digit_char (n mod 10)])"

declare show_nat.simps [simp del]

definition show_int :: "int \<Rightarrow> string" where
  "show_int i = (if i < 0 then CHR ''-'' # show_nat (nat (- i)) else show_nat (nat i))"

definition digits_val :: "string \<Rightarrow> nat" where
  "digits_val s = foldl (\<lambda>a c. 10 * a + digit_val c) 0 s"

text \<open>
  \<open>strconv.ParseInt(s, 10, 64)\<close>: an optional sign and at least one digit, and a value
  in the range of \<open>int64\<close>; \<open>None\<close> is the error return.
\<close>

definition parse_int64 :: "string \<Rightarrow> int option" where
  "parse_int64 s =
     (let neg = (case s of c # _ \<Rightarrow> c = CHR ''-'' | [] \<Rightarrow> False);
          ds = (case s of c # r \<Rightarrow> if c = CHR ''-'' \<or> c = CHR ''+'' then r else s | [] \<Rightarrow> s);
          v = (if neg then - int (digits_val ds) else int (digits_val ds))
      in if ds \<noteq> [] \<and> list_all is_digit ds \<and> - (2 ^ 63) \<le> v \<and> v < 2 ^ 63
         then Some v else None)"

text \<open>
  The lines of \<open>bufio.Scanner\<close>: without their newline and a carriage return before it, up to the first
  line that does not fit its buffer; the empty rest after the last newline is no line.
\<close>

definition drop_cr :: "string \<Rightarrow> string" where
  "drop_cr l = (if l \<noteq> [] \<and> last l = CHR 0x0D then butlast l else l)"

definition MaxScanTokenSize :: nat where "MaxScanTokenSize = 65536"

definition scan_lines :: "string \<Rightarrow> string list" where
  "scan_lines s =
     (let ls = split_on (CHR 0x0A) s;
          ls = (if last ls = [] then butlast ls else ls)
      in List.map drop_cr (takeWhile (\<lambda>l. length l < MaxScanTokenSize) ls))"

section \<open>Laws\<close>

lemma split_on_nonempty [simp]: "split_on c s \<noteq> []"
  by (cases s) (auto split: list.splits)

lemma join_split [go_simps]: "join_with [c] (split_on c s) = s"
proof (induction s)
  case Nil
  then show ?case by simp
next
  case (Cons x xs)
  obtain p ps where "split_on c xs = p # ps" by (cases "split_on c xs") auto
  with Cons show ?case by (cases ps) auto
qed

lemma split_no_sep: "p \<in> set (split_on c s) \<Longrightarrow> c \<notin> set p"
  by (induction s arbitrary: p) (auto split: if_splits list.splits)

lemma split_on_append_sep: "c \<notin> set p \<Longrightarrow> split_on c (p @ c # s) = p # split_on c s"
  by (induction p) auto

lemma split_on_none: "c \<notin> set p \<Longrightarrow> split_on c p = [p]"
  by (induction p) auto

lemma split_join:
  "ps \<noteq> [] \<Longrightarrow> \<forall>p\<in>set ps. c \<notin> set p \<Longrightarrow> split_on c (join_with [c] ps) = ps"
  by (induction "[c]" ps rule: join_with.induct) (auto simp: split_on_append_sep split_on_none)

lemma cut_at_Some: "cut_at c s = Some (a, b) \<Longrightarrow> s = a @ c # b \<and> c \<notin> set a"
  by (induction s arbitrary: a) (auto split: if_splits option.splits)

lemma cut_at_None: "cut_at c s = None \<longleftrightarrow> c \<notin> set s"
  by (induction s) (auto split: option.splits)

lemma cut_last_None: "cut_last c s = None \<longleftrightarrow> c \<notin> set s"
  by (induction s) (auto split: option.splits)

lemma cut_last_SomeD: "cut_last c s = Some (a, b) \<Longrightarrow> s = a @ c # b \<and> c \<notin> set b"
  by (induction s arbitrary: a) (auto simp: cut_last_None split: if_splits option.splits)

lemma cut_last_SomeI: "c \<notin> set b \<Longrightarrow> cut_last c (a @ c # b) = Some (a, b)"
  by (induction a) (simp_all add: cut_last_None [THEN iffD2])

lemma after_last_no_sep: "c \<notin> set (after_last c s)"
  by (auto simp: after_last_def cut_last_None dest: cut_last_SomeD split: option.splits)

lemma after_last_append: "c \<notin> set b \<Longrightarrow> after_last c (a @ c # b) = b"
proof -
  assume "c \<notin> set b"
  then have "cut_last c (a @ c # b) = Some (a, b)" by (rule cut_last_SomeI)
  then show ?thesis by (simp add: after_last_def)
qed

lemma after_last_none: "c \<notin> set s \<Longrightarrow> after_last c s = s"
  by (simp add: after_last_def cut_last_None [THEN iffD2])

text \<open>Ordinary path components: what directory listings hold.\<close>

definition plain_comp :: "string \<Rightarrow> bool" where
  "plain_comp c \<longleftrightarrow> c \<noteq> [] \<and> c \<noteq> ''.'' \<and> c \<noteq> ''..'' \<and> CHR ''/'' \<notin> set c"

lemma clean_comps_plain:
  "list_all plain_comp cs \<Longrightarrow> clean_comps rooted acc cs = rev acc @ cs"
  by (induction cs arbitrary: acc) (auto simp: plain_comp_def)

lemma clean_comps_append:
  "clean_comps rooted acc (ds @ cs) = clean_comps rooted (rev (clean_comps rooted acc ds)) cs"
proof (induction rooted acc ds rule: clean_comps.induct)
  case (2 rooted acc c ds)
  show ?case
  proof (cases "c = [] \<or> c = ''.''")
    case True
    with 2(1) show ?thesis by auto
  next
    case False
    show ?thesis
    proof (cases "c = ''..''")
      case True
      with 2(2,3) show ?thesis by (cases acc) auto
    next
      case False': False
      with False 2(4) show ?thesis by simp
    qed
  qed
qed simp

lemma clean_comps_no_sep:
  "\<forall>c\<in>set acc \<union> set ds. s \<notin> set c \<Longrightarrow> \<forall>c\<in>set (clean_comps r acc ds). s \<notin> set c"
proof (induction r acc ds rule: clean_comps.induct)
  case (2 rooted acc c ds)
  show ?case
  proof (cases "c = [] \<or> c = ''.''")
    case True
    have "\<forall>c\<in>set acc \<union> set ds. s \<notin> set c" using 2(5) by auto
    with True 2(1) show ?thesis by auto
  next
    case nd: False
    show ?thesis
    proof (cases "c = ''..''")
      case True
      have nil: "\<forall>x\<in>set (if rooted then [] else [c]) \<union> set ds. s \<notin> set x" using 2(5) by auto
      have cons: "\<forall>x\<in>set (if a = ''..'' then c # acc else as) \<union> set ds. s \<notin> set x" if "acc = a # as" for a as
        using 2(5) that by auto
      show ?thesis
        using True nd 2(2) [OF nd True _ nil] 2(3) [OF nd True _ cons] by (cases acc) simp_all
    next
      case False
      have "\<forall>x\<in>set (c # acc) \<union> set ds. s \<notin> set x" using 2(5) by auto
      with 2(4) [OF nd False] nd False show ?thesis by simp
    qed
  qed
qed auto

lemma split_on_append_join:
  "split_on c (s @ c # t) = split_on c s @ split_on c t"
  by (induction s) (auto split: list.splits)

lemma join_with_Cons: "cs \<noteq> [] \<Longrightarrow> join_with sep (c # cs) = c @ sep @ join_with sep cs"
  by (cases cs) simp_all

lemma join_with_nonempty: "c \<in> set cs \<Longrightarrow> c \<noteq> [] \<Longrightarrow> join_with sep cs \<noteq> []"
proof (induction cs)
  case (Cons d cs)
  then show ?case by (cases "cs = []") (auto simp: join_with_Cons)
qed simp

lemma join_plain_nonempty: "cs \<noteq> [] \<Longrightarrow> list_all plain_comp cs \<Longrightarrow> join_with ''/'' cs \<noteq> []"
  using join_with_nonempty [of "hd cs" cs] by (cases cs) (auto simp: plain_comp_def)

lemma split_join_plain:
  "cs \<noteq> [] \<Longrightarrow> list_all plain_comp cs \<Longrightarrow> split_on (CHR ''/'') (join_with ''/'' cs) = cs"
  by (rule split_join) (auto simp: plain_comp_def list_all_iff)

lemma hd_join_plain:
  assumes "cs \<noteq> []" "list_all plain_comp cs"
  shows "hd (join_with ''/'' cs) \<noteq> CHR ''/''"
proof -
  obtain c ds where c: "cs = c # ds" "plain_comp c" using assms by (cases cs) auto
  obtain x xs where "c = x # xs" "x \<noteq> CHR ''/''" using c(2) by (cases c) (auto simp: plain_comp_def)
  with c(1) show ?thesis by (cases "ds = []") (simp_all add: join_with_Cons)
qed

lemma filepath_join_plain:
  assumes "cs \<noteq> []" "list_all plain_comp cs"
  shows "filepath_join cs = join_with ''/'' cs"
proof -
  have f: "List.filter (\<lambda>p. p \<noteq> []) cs = cs" using assms(2) by (auto simp: filter_id_conv list_all_iff plain_comp_def)
  have "filepath_join cs = filepath_clean (join_with ''/'' cs)"
    unfolding filepath_join_def f using assms(1) by (cases cs) simp_all
  also have "\<dots> = join_with ''/'' cs"
    using join_plain_nonempty [OF assms] hd_join_plain [OF assms]
    by (simp only: filepath_clean_def Let_def split_join_plain [OF assms] clean_comps_plain [OF assms(2)]
        rev.simps append_Nil if_False simp_thms)
  finally show ?thesis .
qed

text \<open>A directory and a plain path below it.\<close>

lemma filepath_join_dir:
  assumes "cs \<noteq> []" "list_all plain_comp cs"
  shows "filepath_join [dir, join_with ''/'' cs]
    = (if dir \<noteq> [] \<and> hd dir = CHR ''/'' then ''/'' else [])
      @ join_with ''/'' ((if dir = [] then [] else
          clean_comps (hd dir = CHR ''/'') [] (split_on (CHR ''/'') dir)) @ cs)"
proof (cases "dir = []")
  case True
  then show ?thesis
    using assms join_plain_nonempty [OF assms] hd_join_plain [OF assms]
    by (simp add: filepath_join_def filepath_clean_def Let_def split_join_plain clean_comps_plain)
next
  case False
  let ?r = "hd dir = CHR ''/''"
  let ?pre = "clean_comps ?r [] (split_on (CHR ''/'') dir)"
  have c: "hd cs \<in> set (?pre @ cs)" "hd cs \<noteq> []"
    using assms by (cases cs; simp add: plain_comp_def)+
  have ne: "join_with ''/'' (?pre @ cs) \<noteq> []" by (rule join_with_nonempty [OF c])
  have "clean_comps ?r [] (split_on (CHR ''/'') dir @ cs) = ?pre @ cs"
    by (simp add: clean_comps_append [of ?r "[]"] clean_comps_plain [OF assms(2)])
  moreover have "filepath_join [dir, join_with ''/'' cs] = filepath_clean (dir @ CHR ''/'' # join_with ''/'' cs)"
    using False join_plain_nonempty [OF assms] by (simp add: filepath_join_def)
  moreover have "filepath_clean (dir @ CHR ''/'' # join_with ''/'' cs)
      = (let out = join_with ''/'' (clean_comps ?r [] (split_on (CHR ''/'') dir @ cs))
         in if ?r then CHR ''/'' # out else if out = [] then ''.'' else out)"
    using False by (simp only: filepath_clean_def Let_def split_on_append_join split_join_plain [OF assms]) simp
  ultimately show ?thesis
    using False ne by (cases ?r) (simp_all only: Let_def if_True if_False simp_thms append_Nil append_Cons)
qed

lemma join_with_inj:
  assumes "join_with [c] ps = join_with [c] qs" "ps \<noteq> []" "qs \<noteq> []"
    and "\<forall>p\<in>set ps. c \<notin> set p" "\<forall>q\<in>set qs. c \<notin> set q"
  shows "ps = qs"
proof -
  have "ps = split_on c (join_with [c] ps)" by (rule split_join [OF assms(2,4), symmetric])
  also have "\<dots> = split_on c (join_with [c] qs)" by (rule arg_cong [OF assms(1)])
  also have "\<dots> = qs" by (rule split_join [OF assms(3,5)])
  finally show ?thesis .
qed

text \<open>Joining a directory with different plain paths gives different paths.\<close>

lemma filepath_join_inj:
  assumes "filepath_join [dir, join_with ''/'' cs] = filepath_join [dir, join_with ''/'' ds]"
    and "cs \<noteq> []" "list_all plain_comp cs" "ds \<noteq> []" "list_all plain_comp ds"
  shows "cs = ds"
proof -
  define pre where "pre = (if dir = [] then [] else clean_comps (hd dir = CHR ''/'') [] (split_on (CHR ''/'') dir))"
  have p: "\<forall>c\<in>set pre. CHR ''/'' \<notin> set c"
  proof (cases "dir = []")
    case True
    then show ?thesis by (simp add: pre_def)
  next
    case False
    have "\<forall>c\<in>set [] \<union> set (split_on (CHR ''/'') dir). CHR ''/'' \<notin> set c"
      using split_no_sep by fastforce
    from clean_comps_no_sep [OF this] False show ?thesis by (simp only: pre_def if_False)
  qed
  have "join_with ''/'' (pre @ cs) = join_with ''/'' (pre @ ds)"
    using assms(1) by (simp only: filepath_join_dir [OF assms(2,3)] filepath_join_dir [OF assms(4,5)] pre_def same_append_eq)
  then have "pre @ cs = pre @ ds"
    by (rule join_with_inj) (use assms p in \<open>auto simp: list_all_iff plain_comp_def\<close>)
  then show ?thesis by simp
qed

text \<open>Cleaning is idempotent, so joining twice is joining once.\<close>

definition cleaned :: "bool \<Rightarrow> string list \<Rightarrow> bool" where
  "cleaned r cs \<longleftrightarrow> clean_comps r [] cs = cs \<and> [] \<notin> set cs \<and> ''.'' \<notin> set cs"

lemma cleaned_snoc: "cleaned r (rev acc) \<Longrightarrow> clean_comps r [] (rev acc @ [c]) = clean_comps r acc [c]"
  by (simp add: cleaned_def clean_comps_append)

lemma cleaned_result: "cleaned r (rev acc) \<Longrightarrow> cleaned r (clean_comps r acc xs)"
proof (induction r acc xs rule: clean_comps.induct)
  case (2 r acc c cs)
  show ?case
  proof (cases "c = [] \<or> c = ''.''")
    case True
    with 2(1,5) show ?thesis by auto
  next
    case nd: False
    show ?thesis
    proof (cases "c = ''..''")
      case False
      with nd 2(5) have "cleaned r (rev (c # acc))"
        using cleaned_snoc [OF 2(5), of c] by (auto simp: cleaned_def)
      with 2(4) nd False show ?thesis by simp
    next
      case dd: True
      show ?thesis
      proof (cases acc)
        case Nil
        then show ?thesis using 2(2) [OF nd dd Nil] dd by (auto simp: cleaned_def)
      next
        case (Cons a as)
        have "cleaned r (rev (if a = ''..'' then c # acc else as))"
        proof (cases "a = ''..''")
          case True
          then show ?thesis using cleaned_snoc [OF 2(5), of c] 2(5) dd Cons by (auto simp: cleaned_def)
        next
          case False
          have "clean_comps r (rev (clean_comps r [] (rev as))) [a] = rev as @ [a]" "a \<noteq> []" "a \<noteq> ''.''"
            using 2(5) Cons by (auto simp: cleaned_def clean_comps_append [of r "[]" "rev as"])
          with False 2(5) Cons show ?thesis by (auto simp: cleaned_def)
        qed
        then show ?thesis using 2(3) [OF nd dd Cons] dd Cons by (cases "a = ''..''") simp_all
      qed
    qed
  qed
qed simp

lemma cleaned_append_plain:
  "cleaned r pre \<Longrightarrow> list_all plain_comp as \<Longrightarrow> cleaned r (pre @ as)"
proof (induction as arbitrary: pre)
  case (Cons a as)
  then have "cleaned r (pre @ [a])" using cleaned_snoc [of r "rev pre" a] by (auto simp: cleaned_def plain_comp_def)
  with Cons.IH [of "pre @ [a]"] Cons.prems(2) show ?case by simp
qed simp

lemma filepath_join_nests:
  assumes as: "as \<noteq> []" "list_all plain_comp as" and b: "plain_comp b"
  shows "filepath_join [filepath_join [dir, join_with ''/'' as], b] = filepath_join [dir, join_with ''/'' (as @ [b])]"
proof -
  define r where "r \<longleftrightarrow> dir \<noteq> [] \<and> hd dir = CHR ''/''"
  define pre where "pre = (if dir = [] then [] else clean_comps (hd dir = CHR ''/'') [] (split_on (CHR ''/'') dir))"
  define D where "D = (if r then ''/'' else []) @ join_with ''/'' (pre @ as)"
  have pb: "list_all plain_comp [b]" "list_all plain_comp (as @ [b])" using assms by simp_all
  have D: "filepath_join [dir, join_with ''/'' as] = D"
    using filepath_join_dir [OF as, of dir] by (simp only: D_def r_def pre_def)
  have pre: "cleaned r pre" unfolding pre_def r_def using cleaned_result [of _ "[]"] by (auto simp: cleaned_def)
  then have cl: "cleaned r (pre @ as)" using as(2) by (rule cleaned_append_plain)
  have sep: "\<forall>c \<in> set (pre @ as). CHR ''/'' \<notin> set c"
  proof -
    have "\<forall>c\<in>set [] \<union> set (split_on (CHR ''/'') dir). CHR ''/'' \<notin> set c" using split_no_sep by fastforce
    from clean_comps_no_sep [OF this] show ?thesis using as(2) by (auto simp: pre_def plain_comp_def list_all_iff)
  qed
  obtain c cs where c: "pre @ as = c # cs" using as(1) by (cases "pre @ as") auto
  then obtain x xs where x: "c = x # xs" "x \<noteq> CHR ''/''" using cl sep by (cases c) (auto simp: cleaned_def)
  have sp: "split_on (CHR ''/'') (join_with ''/'' (pre @ as)) = pre @ as" by (rule split_join) (use sep c in auto)
  have hd: "join_with ''/'' (pre @ as) \<noteq> []" "hd (join_with ''/'' (pre @ as)) \<noteq> CHR ''/''"
    unfolding c x(1) using x(2) by (cases cs; simp)+
  have r: "D \<noteq> [] \<and> (hd D = CHR ''/'' \<longleftrightarrow> r)" using hd by (auto simp: D_def)
  have comps: "clean_comps r [] (split_on (CHR ''/'') D) = pre @ as"
    using cl sp by (cases r) (simp_all add: D_def cleaned_def)
  have "filepath_join [D, b] = (if r then ''/'' else []) @ join_with ''/'' ((pre @ as) @ [b])"
    using filepath_join_dir [of "[b]" D] pb r comps by (simp only: join_with.simps) simp
  also have "\<dots> = filepath_join [dir, join_with ''/'' (as @ [b])]"
    using filepath_join_dir [of "as @ [b]" dir] pb by (simp only: r_def pre_def) simp
  finally show ?thesis unfolding D .
qed

lemma filepath_join_nest:
  assumes "plain_comp a" "plain_comp b"
  shows "filepath_join [filepath_join [dir, a], b] = filepath_join [dir, a, b]"
  using filepath_join_nests [of "[a]" b dir] assms by (simp add: filepath_join_def plain_comp_def)

lemma trim_suffix_append [go_simps]: "trim_suffix (s @ suf) suf = s"
  by (simp add: trim_suffix_def suffix_def)

lemma trim_suffix_other [go_simps]: "\<not> suffix suf s \<Longrightarrow> trim_suffix s suf = s"
  by (simp add: trim_suffix_def)

lemma letters_disjoint: "list_all (\<lambda>c. c \<notin> set upper_letters) lower_letters"
  by code_simp

lemma lower_char_idem: "lower_char (lower_char c) = lower_char c"
proof (cases "map_of (zip upper_letters lower_letters) c")
  case (Some d)
  then have "d \<in> set lower_letters" by (auto dest: map_of_SomeD set_zip_rightD)
  then have "d \<notin> set upper_letters" using letters_disjoint by (simp add: list_all_iff)
  then have "map_of (zip upper_letters lower_letters) d = None"
    by (auto simp: map_of_eq_None_iff dest: set_zip_leftD)
  with Some show ?thesis by (simp add: lower_char_def)
qed (simp add: lower_char_def)

lemma to_lower_idem: "to_lower (to_lower s) = to_lower s"
  by (simp add: to_lower_def lower_char_idem)

lemma less_10_cases:
  fixes d :: nat
  assumes "d < 10"
  obtains "d = 0" | "d = 1" | "d = 2" | "d = 3" | "d = 4" | "d = 5" | "d = 6" | "d = 7" | "d = 8" | "d = 9"
proof -
  have "d \<in> set [0..<10]" using assms by simp
  then have "d \<in> set [0, 1, 2, 3, 4, 5, 6, 7, 8, 9]" by (simp add: upt_rec numeral_eq_Suc)
  then show ?thesis using that by auto
qed

lemma is_digit_digit_char: "d < 10 \<Longrightarrow> is_digit (digit_char d)"
  by (simp add: is_digit_def digit_char_def digit_chars_def del: list.set)

lemma digit_val_digit_char: "d < 10 \<Longrightarrow> digit_val (digit_char d) = d"
  by (erule less_10_cases) (simp_all add: digit_val_def digit_char_def digit_chars_def)

lemma digits_val_snoc: "digits_val (s @ [c]) = 10 * digits_val s + digit_val c"
  by (simp add: digits_val_def)

lemma show_nat_digits: "show_nat n \<noteq> [] \<and> list_all is_digit (show_nat n) \<and> digits_val (show_nat n) = n"
proof (induction n rule: show_nat.induct)
  case (1 n)
  show ?case
  proof (cases "n < 10")
    case True
    then show ?thesis
      by (simp add: show_nat.simps [of n] is_digit_digit_char digits_val_def digit_val_digit_char)
  next
    case False
    with 1 show ?thesis
      by (simp add: show_nat.simps [of n] is_digit_digit_char digits_val_snoc digit_val_digit_char)
  qed
qed

lemma parse_show_int64:
  assumes "- (2 ^ 63) \<le> i" "i < 2 ^ 63"
  shows "parse_int64 (show_int i) = Some i"
proof -
  obtain c r where cr: "show_nat (nat (if i < 0 then - i else i)) = c # r"
    using show_nat_digits by (metis list.exhaust)
  have d: "is_digit c" "list_all is_digit (c # r)" "digits_val (c # r) = nat (if i < 0 then - i else i)"
    using show_nat_digits [of "nat (if i < 0 then - i else i)"] by (auto simp: cr)
  have "c \<noteq> CHR ''-''" "c \<noteq> CHR ''+''" using d(1) by (auto simp: is_digit_def digit_chars_def)
  with assms d cr show ?thesis by (auto simp: parse_int64_def show_int_def Let_def)
qed

text \<open>Scanning lines that fit gives them back.\<close>

lemma split_on_lines:
  "(\<forall>l \<in> set ls. CHR 0x0A \<notin> set l) \<Longrightarrow>
   split_on (CHR 0x0A) (concat (List.map (\<lambda>l. l @ [CHR 0x0A]) ls)) = ls @ [[]]"
  by (induction ls) (simp_all add: split_on_append_sep)

lemma scan_lines_lines:
  assumes "\<forall>l \<in> set ls. CHR 0x0A \<notin> set l \<and> (l = [] \<or> last l \<noteq> CHR 0x0D)"
  shows "scan_lines (concat (List.map (\<lambda>l. l @ [CHR 0x0A]) ls)) = takeWhile (\<lambda>l. length l < MaxScanTokenSize) ls"
proof -
  let ?short = "takeWhile (\<lambda>l. length l < MaxScanTokenSize) ls"
  have "List.map drop_cr ?short = List.map id ?short"
    using assms by (intro map_cong) (auto simp: drop_cr_def dest!: set_takeWhileD)
  then show ?thesis using assms by (simp add: scan_lines_def split_on_lines)
qed

end
