(* ===== verification/SemVer.thy ===== *)
theory SemVer
  imports GoStrings "HOL-Library.Product_Lexorder" "HOL-Library.Option_ord" "HOL-Library.Multiset"
begin

text \<open>
  The interface of \<open>golang.org/x/mod/semver\<close>, a third-party package: a record of the
  functions the repository calls, taken as a parameter by every definition that uses them,
  and \<open>semver_laws\<close>, what the package documents about them.  The second half is an
  executable instance \<open>ref_semver\<close> that satisfies the laws; theorems are stated for every
  instance with the laws, and only their witnesses use this one.
\<close>

record semver =
  sv_valid :: "string \<Rightarrow> bool"
  sv_canonical :: "string \<Rightarrow> string"
  sv_compare :: "string \<Rightarrow> string \<Rightarrow> int"
  sv_major_minor :: "string \<Rightarrow> string"
  sv_sort :: "string list \<Rightarrow> string list"

text \<open>
  Documented behaviour: invalid versions have no canonical form and no major.minor prefix,
  and sort before valid ones; \<open>Compare\<close> is a three-valued total preorder;
  \<open>Canonical\<close> keeps the precedence; the major.minor prefix is itself a version, and the
  order of versions is the order of their prefixes first; \<open>Sort\<close> permutes and sorts.
\<close>

definition semver_laws :: "semver \<Rightarrow> bool" where
  "semver_laws sv \<longleftrightarrow>
     (\<forall>v. \<not> sv_valid sv v \<longrightarrow> sv_canonical sv v = [] \<and> sv_major_minor sv v = []) \<and>
     (\<forall>v. sv_valid sv v \<longrightarrow> sv_valid sv (sv_canonical sv v) \<and> sv_compare sv v (sv_canonical sv v) = 0) \<and>
     (\<forall>v. sv_valid sv v \<longrightarrow> sv_valid sv (sv_major_minor sv v)
            \<and> sv_major_minor sv (sv_major_minor sv v) = sv_major_minor sv v) \<and>
     (\<forall>v w. sv_compare sv v w \<in> {-1, 0, 1} \<and> sv_compare sv w v = - sv_compare sv v w) \<and>
     (\<forall>u v w. sv_compare sv u v \<le> 0 \<longrightarrow> sv_compare sv v w \<le> 0 \<longrightarrow> sv_compare sv u w \<le> 0) \<and>
     (\<forall>v w. \<not> sv_valid sv v \<longrightarrow> sv_compare sv v w = (if sv_valid sv w then -1 else 0)) \<and>
     (\<forall>v w. sv_compare sv v w \<le> 0 \<longrightarrow> sv_compare sv (sv_major_minor sv v) (sv_major_minor sv w) \<le> 0) \<and>
     (\<forall>v w. sv_compare sv (sv_major_minor sv v) (sv_major_minor sv w) = 0
            \<longrightarrow> sv_major_minor sv v = sv_major_minor sv w) \<and>
     (\<forall>xs. mset (sv_sort sv xs) = mset xs
            \<and> sorted_wrt (\<lambda>a b. sv_compare sv a b \<le> 0) (sv_sort sv xs)) \<and>
     \<not> sv_valid sv []"

lemma semver_lawsD:
  assumes "semver_laws sv"
  shows sv_invalid_canonical: "\<And>v. \<not> sv_valid sv v \<Longrightarrow> sv_canonical sv v = []"
    and sv_invalid_major_minor: "\<And>v. \<not> sv_valid sv v \<Longrightarrow> sv_major_minor sv v = []"
    and sv_valid_canonical: "\<And>v. sv_valid sv v \<Longrightarrow> sv_valid sv (sv_canonical sv v)"
    and sv_compare_canonical: "\<And>v. sv_valid sv v \<Longrightarrow> sv_compare sv v (sv_canonical sv v) = 0"
    and sv_valid_major_minor: "\<And>v. sv_valid sv v \<Longrightarrow> sv_valid sv (sv_major_minor sv v)"
    and sv_major_minor_idem: "\<And>v. sv_major_minor sv (sv_major_minor sv v) = sv_major_minor sv v"
    and sv_compare_range: "\<And>v w. sv_compare sv v w \<in> {-1, 0, 1}"
    and sv_compare_anti: "\<And>v w. sv_compare sv w v = - sv_compare sv v w"
    and sv_compare_trans: "\<And>u v w. sv_compare sv u v \<le> 0 \<Longrightarrow> sv_compare sv v w \<le> 0 \<Longrightarrow> sv_compare sv u w \<le> 0"
    and sv_compare_invalid: "\<And>v w. \<not> sv_valid sv v \<Longrightarrow> sv_compare sv v w = (if sv_valid sv w then -1 else 0)"
    and sv_major_minor_mono: "\<And>v w. sv_compare sv v w \<le> 0 \<Longrightarrow> sv_compare sv (sv_major_minor sv v) (sv_major_minor sv w) \<le> 0"
    and sv_major_minor_inj: "\<And>v w. sv_compare sv (sv_major_minor sv v) (sv_major_minor sv w) = 0 \<Longrightarrow> sv_major_minor sv v = sv_major_minor sv w"
    and sv_mset_sort: "\<And>xs. mset (sv_sort sv xs) = mset xs"
    and sv_sorted_sort: "\<And>xs. sorted_wrt (\<lambda>a b. sv_compare sv a b \<le> 0) (sv_sort sv xs)"
    and sv_invalid_empty: "\<not> sv_valid sv []"
proof -
  show "sv_major_minor sv (sv_major_minor sv v) = sv_major_minor sv v" for v
    using assms unfolding semver_laws_def by (cases "sv_valid sv v") auto
qed (use assms in \<open>unfold semver_laws_def, blast+\<close>)

text \<open>Consequences used by the retention policy.\<close>

lemma sv_compare_refl: "semver_laws sv \<Longrightarrow> sv_compare sv v v = 0"
  using sv_compare_anti [of sv v v] by simp

lemma sv_valid_canonical_iff: "semver_laws sv \<Longrightarrow> sv_canonical sv v \<noteq> [] \<longleftrightarrow> sv_valid sv v"
  by (metis sv_invalid_canonical sv_invalid_empty sv_valid_canonical)

lemma sv_valid_major_minor_iff: "semver_laws sv \<Longrightarrow> sv_valid sv (sv_major_minor sv v) \<longleftrightarrow> sv_valid sv v"
  by (metis sv_invalid_major_minor sv_invalid_empty sv_valid_major_minor)

lemma sv_less_trans:
  assumes l: "semver_laws sv" and "sv_compare sv u v \<le> 0" "sv_compare sv v w < 0"
  shows "sv_compare sv u w < 0"
proof (rule ccontr)
  assume "\<not> ?thesis"
  then have "sv_compare sv w u \<le> 0" using sv_compare_anti [OF l, of u w] by simp
  then have "sv_compare sv w v \<le> 0" using assms sv_compare_trans [OF l] by blast
  with assms(3) show False using sv_compare_anti [OF l, of w v] by simp
qed

lemma sv_compare_cong:
  assumes l: "semver_laws sv" and "sv_compare sv v w = 0"
  shows "sv_compare sv u w < 0 \<longleftrightarrow> sv_compare sv u v < 0"
proof -
  have "sv_compare sv w v = 0" using assms sv_compare_anti [OF l, of v w] by simp
  then have le: "sv_compare sv w v \<le> 0" "sv_compare sv v w \<le> 0" using assms(2) by auto
  have "sv_compare sv v u \<le> 0 \<longleftrightarrow> sv_compare sv w u \<le> 0"
    using sv_compare_trans [OF l] le by blast
  then show ?thesis using sv_compare_anti [OF l, of u v] sv_compare_anti [OF l, of u w] by auto
qed

lemma set_sv_sort: "semver_laws sv \<Longrightarrow> set (sv_sort sv xs) = set xs"
  using sv_mset_sort [of sv xs] mset_eq_setD by blast

lemma distinct_sv_sort: "semver_laws sv \<Longrightarrow> distinct (sv_sort sv xs) \<longleftrightarrow> distinct xs"
  using sv_mset_sort [of sv xs] mset_eq_imp_distinct_iff by blast

section \<open>An executable instance\<close>

definition sv_num :: "string \<Rightarrow> nat option" where
  "sv_num s = (if s \<noteq> [] \<and> list_all is_digit s \<and> (length s = 1 \<or> hd s \<noteq> CHR ''0'')
               then Some (digits_val s) else None)"

definition ident_char :: "char \<Rightarrow> bool" where
  "ident_char c = (is_digit c \<or> c = CHR ''-'' \<or> lower_char c \<noteq> c \<or> upper_char c \<noteq> c)"

definition sv_ident :: "string \<Rightarrow> (nat \<times> nat \<times> string) option" where
  "sv_ident s = (if s = [] \<or> \<not> list_all ident_char s then None
     else if list_all is_digit s then map_option (\<lambda>n. (0, n, [])) (sv_num s)
     else Some (1, 0, s))"

type_synonym sv_key = "nat \<times> nat \<times> nat \<times> nat \<times> (nat \<times> nat \<times> string) list"

definition sv_core :: "string \<Rightarrow> (nat \<times> nat \<times> nat) option" where
  "sv_core s = (case List.map sv_num (split_on (CHR ''.'') s) of
      [Some a] \<Rightarrow> Some (a, 0, 0)
    | [Some a, Some b] \<Rightarrow> Some (a, b, 0)
    | [Some a, Some b, Some c] \<Rightarrow> Some (a, b, c)
    | _ \<Rightarrow> None)"

definition sv_pre :: "string \<Rightarrow> (nat \<times> nat \<times> string) list option" where
  "sv_pre s = those (List.map sv_ident (split_on (CHR ''.'') s))"

definition sv_full :: "string \<Rightarrow> bool" where
  "sv_full s = (length (split_on (CHR ''.'') s) = 3)"

text \<open>Precedence key of a version without build metadata and without the leading \<open>v\<close>.\<close>

definition sv_main :: "string \<Rightarrow> sv_key option" where
  "sv_main s = (case cut_at (CHR ''-'') s of
      None \<Rightarrow> map_option (\<lambda>(a, b, c). (a, b, c, 1, [])) (sv_core s)
    | Some (n, p) \<Rightarrow>
        if sv_full n then
          (case (sv_core n, sv_pre p) of (Some (a, b, c), Some ids) \<Rightarrow> Some (a, b, c, 0, ids) | _ \<Rightarrow> None)
        else None)"

definition sv_has3 :: "string \<Rightarrow> bool" where
  "sv_has3 s = (case cut_at (CHR ''-'') s of None \<Rightarrow> sv_full s | Some _ \<Rightarrow> True)"

definition sv_strip :: "string \<Rightarrow> string option" where
  "sv_strip v = (case v of c # r \<Rightarrow>
       if c \<noteq> CHR ''v'' then None
       else (case cut_at (CHR ''+'') r of
           None \<Rightarrow> Some r
         | Some (a, b) \<Rightarrow>
             if sv_has3 a \<and> list_all (\<lambda>i. i \<noteq> [] \<and> list_all ident_char i) (split_on (CHR ''.'') b)
             then Some a else None)
     | [] \<Rightarrow> None)"

definition sv_key :: "string \<Rightarrow> sv_key option" where
  "sv_key v = Option.bind (sv_strip v) sv_main"

definition sv_mm :: "nat \<Rightarrow> nat \<Rightarrow> string" where
  "sv_mm a b = CHR ''v'' # show_nat a @ CHR ''.'' # show_nat b"

definition sv_canon :: "string \<Rightarrow> string" where
  "sv_canon s = CHR ''v'' # s @
     (if sv_has3 s then [] else if length (split_on (CHR ''.'') s) = 1 then ''.0.0'' else ''.0'')"

definition ref_semver :: semver where
  "ref_semver =
     \<lparr>sv_valid = (\<lambda>v. sv_key v \<noteq> None),
      sv_canonical = (\<lambda>v. if sv_key v = None then [] else sv_canon (the (sv_strip v))),
      sv_compare = (\<lambda>v w. if sv_key v < sv_key w then -1 else if sv_key v = sv_key w then 0 else 1),
      sv_major_minor = (\<lambda>v. case sv_key v of None \<Rightarrow> [] | Some (a, b, _) \<Rightarrow> sv_mm a b),
      sv_sort = sort_key (\<lambda>v. (sv_key v, v))\<rparr>"

lemma show_nat_hd: "hd (show_nat n) = CHR ''0'' \<Longrightarrow> length (show_nat n) = 1"
proof (induction n rule: show_nat.induct)
  case (1 n)
  show ?case
  proof (cases "n < 10")
    case True
    then show ?thesis by (simp add: show_nat.simps [of n])
  next
    case False
    with show_nat_digits [of "n div 10"] have "hd (show_nat n) = hd (show_nat (n div 10))"
      by (simp add: show_nat.simps [of n])
    with 1 False have l: "length (show_nat (n div 10)) = 1" "hd (show_nat (n div 10)) = CHR ''0''"
      by simp_all
    then have "show_nat (n div 10) = [CHR ''0'']" by (cases "show_nat (n div 10)") auto
    with show_nat_digits [of "n div 10"] have "n div 10 = 0"
      by (simp add: digits_val_def digit_val_def digit_chars_def)
    with False show ?thesis by simp
  qed
qed

lemma sv_num_show [simp]: "sv_num (show_nat n) = Some n"
  using show_nat_digits [of n] show_nat_hd [of n] by (auto simp: sv_num_def)

lemma sep_notin_show: "\<not> is_digit c \<Longrightarrow> c \<notin> set (show_nat n)"
  using show_nat_digits [of n] by (auto simp: list_all_iff)

lemma sv_key_mm: "sv_key (sv_mm a b) = Some (a, b, 0, 1, [])"
proof -
  have nd: "c \<notin> set (show_nat n)" if "c \<in> {CHR ''.'', CHR ''-'', CHR ''+''}" for c n
    using that by (intro sep_notin_show) (auto simp: is_digit_def digit_chars_def)
  have cut: "cut_at c (show_nat a @ CHR ''.'' # show_nat b) = None" if "c \<in> {CHR ''-'', CHR ''+''}" for c
    using that nd by (auto simp: cut_at_None)
  have "split_on (CHR ''.'') (show_nat a @ CHR ''.'' # show_nat b) = [show_nat a, show_nat b]"
    by (simp add: split_on_append_sep split_on_none nd)
  then show ?thesis
    by (simp add: sv_key_def sv_mm_def sv_strip_def sv_main_def sv_core_def cut)
qed

lemma split_on_append: "split_on c (s @ c # t) = split_on c s @ split_on c t"
  by (induction s) (auto split: list.splits)

lemma sv_strip_no_build: "sv_strip v = Some s \<Longrightarrow> CHR ''+'' \<notin> set s"
  by (auto simp: sv_strip_def cut_at_None dest: cut_at_Some split: list.splits if_splits option.splits)

lemma sv_main_zero_fill:
  assumes "sv_main s = Some k" "\<not> sv_has3 s"
  shows "sv_main (s @ (if length (split_on (CHR ''.'') s) = 1 then ''.0.0'' else ''.0'')) = Some k"
proof -
  have nodash: "cut_at (CHR ''-'') s = None" and "\<not> sv_full s"
    using assms(2) by (auto simp: sv_has3_def split: option.splits)
  then have *: "cut_at (CHR ''-'') (s @ ''.0.0'') = None" "cut_at (CHR ''-'') (s @ ''.0'') = None"
    by (simp_all add: cut_at_None)
  have zero: "sv_num ''0'' = Some 0"
    by (simp add: sv_num_def is_digit_def digits_val_def digit_val_def digit_chars_def)
  have sp: "split_on (CHR ''.'') (s @ ''.0.0'') = split_on (CHR ''.'') s @ [''0'', ''0'']"
    "split_on (CHR ''.'') (s @ ''.0'') = split_on (CHR ''.'') s @ [''0'']"
    using split_on_append [of "CHR ''.''" s "''0.0''"] split_on_append [of "CHR ''.''" s "''0''"]
    by simp_all
  have "length (split_on (CHR ''.'') s) = 1 \<or> length (split_on (CHR ''.'') s) = 2"
  proof -
    have "sv_core s \<noteq> None" using assms(1) nodash by (auto simp: sv_main_def)
    then have "length (split_on (CHR ''.'') s) \<in> {1, 2, 3}"
      by (cases "split_on (CHR ''.'') s")
        (auto simp: sv_core_def neq_Nil_conv split: list.splits option.splits)
    with \<open>\<not> sv_full s\<close> show ?thesis by (auto simp: sv_full_def)
  qed
  then consider p where "split_on (CHR ''.'') s = [p]"
    | p q where "split_on (CHR ''.'') s = [p, q]"
    by (auto simp: length_Suc_conv numeral_2_eq_2)
  then show ?thesis
    by cases (use assms(1) nodash * sp zero in
      \<open>auto simp: sv_main_def sv_core_def split: option.splits\<close>)
qed

lemma sv_key_canonical:
  assumes "sv_key v = Some k"
  shows "sv_key (sv_canon (the (sv_strip v))) = Some k"
proof -
  obtain s where s: "sv_strip v = Some s" "sv_main s = Some k"
    using assms by (auto simp: sv_key_def split: bind_splits)
  have plus: "CHR ''+'' \<notin> set s" using s(1) by (rule sv_strip_no_build)
  then have strip: "sv_strip (CHR ''v'' # s @ t) = Some (s @ t)" if "t \<in> {[], ''.0.0'', ''.0''}" for t
  proof -
    have "CHR ''+'' \<notin> set (s @ t)" using that plus by auto
    then show ?thesis by (simp add: sv_strip_def cut_at_None [THEN iffD2])
  qed
  show ?thesis
    using s(2) sv_main_zero_fill [OF s(2)] strip
    by (auto simp: s(1) sv_canon_def sv_key_def)
qed

lemma ref_valid: "sv_valid ref_semver v \<longleftrightarrow> sv_key v \<noteq> None"
  and ref_compare: "sv_compare ref_semver v w
    = (if sv_key v < sv_key w then -1 else if sv_key v = sv_key w then 0 else 1)"
  and ref_mm: "sv_major_minor ref_semver v = (case sv_key v of None \<Rightarrow> [] | Some (a, b, _) \<Rightarrow> sv_mm a b)"
  and ref_canonical: "sv_canonical ref_semver v = (if sv_key v = None then [] else sv_canon (the (sv_strip v)))"
  and ref_sort: "sv_sort ref_semver xs = sort_key (\<lambda>v. (sv_key v, v)) xs"
  by (simp_all add: ref_semver_def)

lemma ref_compare_le: "sv_compare ref_semver v w \<le> 0 \<longleftrightarrow> sv_key v \<le> sv_key w"
  by (auto simp: ref_compare)

lemma ref_compare_eq: "sv_compare ref_semver v w = 0 \<longleftrightarrow> sv_key v = sv_key w"
  by (auto simp: ref_compare)

lemma ref_mm_key: "sv_key (sv_major_minor ref_semver v)
    = (case sv_key v of None \<Rightarrow> None | Some (a, b, _) \<Rightarrow> Some (a, b, 0, 1, []))"
proof (cases "sv_key v")
  case None
  then show ?thesis by (simp add: ref_mm sv_key_def [of "[]"] sv_strip_def)
qed (auto simp: ref_mm sv_key_mm)

lemma ref_mm_mono: "x \<le> y \<Longrightarrow>
    (case x of None \<Rightarrow> None | Some (a, b, _) \<Rightarrow> Some (a, b, 0, 1, []))
  \<le> (case y of None \<Rightarrow> None | Some (a, b, _) \<Rightarrow> Some (a, b, 0 :: nat, 1 :: nat, [] :: (nat \<times> nat \<times> string) list))"
  for x y :: "sv_key option"
  by (cases x; cases y) auto

lemma ref_sorted: "sorted_wrt (\<lambda>a b. sv_compare ref_semver a b \<le> 0) (sv_sort ref_semver xs)"
proof -
  have "sorted (List.map (\<lambda>v. (sv_key v, v)) (sv_sort ref_semver xs))"
    by (simp add: ref_sort)
  then have "sorted_wrt (\<lambda>a b. (sv_key a, a) \<le> (sv_key b, b)) (sv_sort ref_semver xs)"
    by (simp add: sorted_map)
  then show ?thesis
    by (rule sorted_wrt_mono_rel [rotated]) (auto simp: ref_compare_le)
qed

lemma ref_mm_inj:
  assumes "sv_compare ref_semver (sv_major_minor ref_semver v) (sv_major_minor ref_semver w) = 0"
  shows "sv_major_minor ref_semver v = sv_major_minor ref_semver w"
proof -
  have "sv_key (sv_major_minor ref_semver v) = sv_key (sv_major_minor ref_semver w)"
    using assms by (simp add: ref_compare_eq)
  then show ?thesis
    unfolding ref_mm_key by (auto simp: ref_mm split: option.splits)
qed

lemma ref_semver_laws: "semver_laws ref_semver"
proof -
  have "\<not> sv_valid ref_semver []"
    by (simp add: ref_valid sv_key_def sv_strip_def)
  moreover have "\<forall>v w. sv_compare ref_semver v w \<le> 0 \<longrightarrow>
      sv_compare ref_semver (sv_major_minor ref_semver v) (sv_major_minor ref_semver w) \<le> 0"
    unfolding ref_compare_le ref_mm_key using ref_mm_mono by blast
  moreover have "\<forall>v. sv_valid ref_semver v \<longrightarrow>
      sv_valid ref_semver (sv_canonical ref_semver v) \<and> sv_compare ref_semver v (sv_canonical ref_semver v) = 0"
    unfolding ref_valid ref_compare_eq ref_canonical using sv_key_canonical by force
  moreover have "\<forall>v. sv_valid ref_semver v \<longrightarrow> sv_valid ref_semver (sv_major_minor ref_semver v)
      \<and> sv_major_minor ref_semver (sv_major_minor ref_semver v) = sv_major_minor ref_semver v"
    by (auto simp: ref_valid ref_mm_key ref_mm sv_key_mm)
  moreover have "\<forall>v. \<not> sv_valid ref_semver v \<longrightarrow>
      sv_canonical ref_semver v = [] \<and> sv_major_minor ref_semver v = []"
    by (simp only: ref_valid ref_canonical ref_mm not_not) simp
  moreover have "\<forall>v w. sv_compare ref_semver v w \<in> {-1, 0, 1}
      \<and> sv_compare ref_semver w v = - sv_compare ref_semver v w"
    by (auto simp: ref_compare)
  moreover have "\<forall>u v w. sv_compare ref_semver u v \<le> 0 \<longrightarrow> sv_compare ref_semver v w \<le> 0 \<longrightarrow>
      sv_compare ref_semver u w \<le> 0"
    unfolding ref_compare_le by (meson order_trans)
  moreover have "\<forall>v w. \<not> sv_valid ref_semver v \<longrightarrow>
      sv_compare ref_semver v w = (if sv_valid ref_semver w then -1 else 0)"
  proof (intro allI impI)
    fix v w assume "\<not> sv_valid ref_semver v"
    then have "sv_key v = None" by (simp only: ref_valid not_not)
    then show "sv_compare ref_semver v w = (if sv_valid ref_semver w then -1 else 0)"
      by (cases "sv_key w") (simp_all add: ref_compare ref_valid)
  qed
  moreover have "\<forall>xs. mset (sv_sort ref_semver xs) = mset xs
      \<and> sorted_wrt (\<lambda>a b. sv_compare ref_semver a b \<le> 0) (sv_sort ref_semver xs)"
    using ref_sorted by (simp add: ref_sort)
  moreover have "\<forall>v w. sv_compare ref_semver (sv_major_minor ref_semver v) (sv_major_minor ref_semver w) = 0
      \<longrightarrow> sv_major_minor ref_semver v = sv_major_minor ref_semver w"
    using ref_mm_inj by blast
  ultimately show ?thesis
    unfolding semver_laws_def by (intro conjI)
qed

text \<open>The instance on the versions of the test-suite.\<close>

lemma ref_semver_examples:
  "sv_valid ref_semver ''v5.14.0-rc1''" "\<not> sv_valid ref_semver ''v1.0nightly''"
  "sv_canonical ref_semver ''v1.7'' = ''v1.7.0''"
  "sv_major_minor ref_semver ''v5.8.1'' = ''v5.8''"
  "sv_compare ref_semver ''v5.14.0-rc1'' ''v5.14.0'' = -1"
  "sv_compare ref_semver ''v5.9'' ''v5.10'' = -1"
  by code_simp+

end
