(* ===== verification/PkgFilter.thy ===== *)
theory PkgFilter
  imports USet SemVer
begin

text \<open>
  \<open>pkgs/filter.go\<close>: which packages \<open>pkgs clean\<close> removes.  \<open>PackageDetail\<close> is the
  packagecloud API's record, with the fields the repository reads.  Times and durations
  are nanoseconds; \<open>time.Time.Sub\<close> saturates at the bounds of a duration.
\<close>

record PackageDetail =
  pd_Name :: string
  pd_Version :: string
  pd_Arch :: string
  pd_DistroVersion :: string
  pd_Filename :: string
  pd_Sha256Sum :: string
  pd_Size :: string
  pd_CreateTime :: int
  pd_DestroyURL :: string
  pd_DownloadURL :: string

text \<open>\<open>type pkgConfig struct\<close> of \<open>pkgs/client.go\<close>\<close>

record pkgConfig =
  cfg_Exceptions :: "string list"
  cfg_VersionCutoff :: string
  cfg_AgeCutoff :: int
  cfg_NotBackup :: bool
  cfg_Track :: string
  cfg_Editions :: "string list"

type_synonym Repos = "(string, pkgConfig) gomap"

record Filter =
  ft_Exceptions :: "string uset"
  ft_Version :: string
  ft_Age :: int
  ft_DownloadAge :: int
  ft_total :: nat
  ft_filtered :: nat

text \<open>\<open>t.Sub(u)\<close>\<close>

definition time_sub :: "int \<Rightarrow> int \<Rightarrow> int" where
  "time_sub t u = max (- (2 ^ 63)) (min (2 ^ 63 - 1) (t - u))"

text \<open>\<open>"v" + vtrans.Replace(item.Version)\<close>, with \<open>vtrans = NewReplacer("~", "-")\<close>\<close>

definition item_version :: "PackageDetail \<Rightarrow> string" where
  "item_version item = ''v'' @ replace_char (CHR 0x7E) (CHR ''-'') (pd_Version item)"

datatype filter_error = RepoUnknown string | CutoffNotSemver string

text \<open>\<open>func (r Repos) MakeFilter(repoName string) (*Filter, error)\<close>\<close>

definition MakeFilter :: "semver \<Rightarrow> Repos \<Rightarrow> string \<Rightarrow> filter_error + Filter" where
  "MakeFilter sv r repoName =
     (case gm_get r repoName of
        None \<Rightarrow> Inl (RepoUnknown repoName)
      | Some repo \<Rightarrow>
          let v = sv_canonical sv (cfg_VersionCutoff repo) in
          if v \<noteq> [] \<and> \<not> sv_valid sv v then Inl (CutoffNotSemver (cfg_VersionCutoff repo))
          else Inr \<lparr>ft_Exceptions = NewSetFromSlices [cfg_Exceptions repo], ft_Version = v,
                    ft_Age = cfg_AgeCutoff repo, ft_DownloadAge = 0,
                    ft_total = 0, ft_filtered = 0\<rparr>)"

text \<open>\<open>func (r Repos) ShouldBackup(repoName string) bool\<close>\<close>

definition ShouldBackup :: "Repos \<Rightarrow> string \<Rightarrow> bool" where
  "ShouldBackup r repoName =
     (case gm_get r repoName of None \<Rightarrow> True | Some repo \<Rightarrow> \<not> cfg_NotBackup repo)"

text \<open>\<open>func (f *Filter) Satisfies(item pc.PackageDetail, now time.Time) bool\<close>\<close>

definition Satisfies :: "semver \<Rightarrow> Filter \<Rightarrow> PackageDetail \<Rightarrow> int \<Rightarrow> bool" where
  "Satisfies sv f item now =
     (let v = item_version item in
      if Has (ft_Exceptions f) v then False
      else if ft_Version f \<noteq> [] \<and> sv_valid sv v \<and> sv_compare sv v (ft_Version f) < 0 then True
      else if ft_Age f \<noteq> 0 \<and> time_sub now (pd_CreateTime item) > ft_Age f then True
      else False)"

definition IncTotal :: "Filter \<Rightarrow> Filter" where
  "IncTotal f = f\<lparr>ft_total := Suc (ft_total f)\<rparr>"

definition IncFiltered :: "Filter \<Rightarrow> Filter" where
  "IncFiltered f = f\<lparr>ft_filtered := Suc (ft_filtered f)\<rparr>"

text \<open>
  \<open>func (f Filter) String() string\<close>; \<open>fmt_date\<close> is \<open>Format("Jan 2 2006")\<close> of the
  date \<open>now - Age\<close>.
\<close>

definition FilterString :: "semver \<Rightarrow> (int \<Rightarrow> string) \<Rightarrow> int \<Rightarrow> Filter \<Rightarrow> string" where
  "FilterString sv fmt_date now f =
     (let exceptions = concat (List.map (\<lambda>e. e @ '' '') (gm_keys (ft_Exceptions f)));
          str = (if exceptions \<noteq> [] then ''exceptions: [ '' @ exceptions @ '']\<newline>'' else []);
          str = (if ft_Version f \<noteq> []
                 then str @ ''versions before '' @ sv_canonical sv (ft_Version f) @ '' '' else str);
          str = (if ft_Age f > 0
                 then str @ ''uploaded before '' @ fmt_date (now - ft_Age f) @ '' '' else str)
      in str @ show_nat (ft_filtered f) @ ''/'' @ show_nat (ft_total f) @ '' filtered'')"

section \<open>Lemmas\<close>

lemma time_sub_exact:
  "- (2 ^ 63) \<le> t - u \<Longrightarrow> t - u < 2 ^ 63 \<Longrightarrow> time_sub t u = t - u"
  by (simp add: time_sub_def)

lemma Has_NewSet [simp]: "Has (NewSetFromSlices [xs]) (v :: string) \<longleftrightarrow> v \<in> set xs"
  by (simp add: us.has_new)

text \<open>
  Once a repository is known the only way to fail is a canonical cutoff that is not a
  version, which the library never yields: a malformed cutoff disables the version test.
\<close>

lemma MakeFilter_known:
  assumes "semver_laws sv" "gm_get r repoName = Some cfg"
  shows "MakeFilter sv r repoName = Inr \<lparr>ft_Exceptions = NewSetFromSlices [cfg_Exceptions cfg],
    ft_Version = sv_canonical sv (cfg_VersionCutoff cfg), ft_Age = cfg_AgeCutoff cfg,
    ft_DownloadAge = 0, ft_total = 0, ft_filtered = 0\<rparr>"
proof -
  have "sv_canonical sv (cfg_VersionCutoff cfg) = [] \<or> sv_valid sv (sv_canonical sv (cfg_VersionCutoff cfg))"
    using assms(1) by (cases "sv_valid sv (cfg_VersionCutoff cfg)")
      (simp_all add: sv_invalid_canonical sv_valid_canonical)
  with assms(2) show ?thesis by (auto simp: MakeFilter_def Let_def)
qed

lemma MakeFilter_Inr:
  "MakeFilter sv r repoName = Inr f \<longleftrightarrow>
    (\<exists>cfg. gm_get r repoName = Some cfg \<and>
       (sv_canonical sv (cfg_VersionCutoff cfg) \<noteq> [] \<longrightarrow> sv_valid sv (sv_canonical sv (cfg_VersionCutoff cfg))) \<and>
       f = \<lparr>ft_Exceptions = NewSetFromSlices [cfg_Exceptions cfg],
            ft_Version = sv_canonical sv (cfg_VersionCutoff cfg), ft_Age = cfg_AgeCutoff cfg,
            ft_DownloadAge = 0, ft_total = 0, ft_filtered = 0\<rparr>)"
  by (auto simp: MakeFilter_def Let_def split: option.splits if_splits)

lemma Satisfies_iff:
  "Satisfies sv f item now \<longleftrightarrow>
     \<not> Has (ft_Exceptions f) (item_version item) \<and>
     (ft_Version f \<noteq> [] \<and> sv_valid sv (item_version item)
        \<and> sv_compare sv (item_version item) (ft_Version f) < 0
      \<or> ft_Age f \<noteq> 0 \<and> time_sub now (pd_CreateTime item) > ft_Age f)"
  by (auto simp: Satisfies_def Let_def)

section \<open>Properties\<close>

text \<open>
  What \<open>pkgs clean\<close> selects, for every repository that is configured: never a version
  listed as an exception; otherwise the versions strictly below the configured cutoff and the
  packages older than a nonzero age cutoff.  A version cutoff that is not a version is
  accepted without an error and only the age is tested.
\<close>

theorem clean_selects:
  assumes "semver_laws sv" "gm_get repos repoName = Some cfg"
  shows "\<exists>f. MakeFilter sv repos repoName = Inr f \<and>
     (\<forall>item now. Satisfies sv f item now \<longleftrightarrow>
        item_version item \<notin> set (cfg_Exceptions cfg) \<and>
        (sv_valid sv (cfg_VersionCutoff cfg) \<and> sv_valid sv (item_version item) \<and>
           sv_compare sv (item_version item) (cfg_VersionCutoff cfg) < 0 \<or>
         cfg_AgeCutoff cfg \<noteq> 0 \<and> time_sub now (pd_CreateTime item) > cfg_AgeCutoff cfg))"
proof -
  let ?c = "cfg_VersionCutoff cfg"
  have less: "sv_compare sv v (sv_canonical sv ?c) < 0 \<longleftrightarrow> sv_compare sv v ?c < 0"
    if v: "sv_valid sv ?c" for v
    using sv_compare_cong [OF assms(1) sv_compare_canonical [OF assms(1) v]] .
  show ?thesis
    using MakeFilter_known [OF assms] less sv_valid_canonical_iff [OF assms(1), of ?c]
    by (auto simp: Satisfies_iff)
qed

definition wit_repos :: Repos where
  "wit_repos = [(''tyk'', \<lparr>cfg_Exceptions = [''v3.0.9''], cfg_VersionCutoff = ''v5..0'', cfg_AgeCutoff = 0,
     cfg_NotBackup = False, cfg_Track = [], cfg_Editions = []\<rparr>)]"

theorem clean_selects_witness:
  "\<exists>f. MakeFilter ref_semver wit_repos ''tyk'' = Inr f \<and> (\<forall>item now. \<not> Satisfies ref_semver f item now)"
proof -
  have "\<not> sv_valid ref_semver ''v5..0''" by code_simp
  with clean_selects [OF ref_semver_laws, of wit_repos "''tyk''"] show ?thesis
    by (auto simp: wit_repos_def)
qed

end
