(* ===== verification/Tracks.thy ===== *)
theory Tracks
  imports SemVer
begin

text \<open>
  \<open>pkgs/tracks.go\<close>: release tracks and the retention window derived from them.
  \<open>Validate\<close> and \<open>LoadTracks\<close> range over Go maps; they take the entries as a list
  in the order of the iteration.  The window is stated abstractly as
  \<open>window_ok\<close>: the series kept below the anchor are the \<open>depth\<close> newest
  released ones, or all of them.
\<close>

record Track =
  CurrentFeature :: string
  CurrentLTS :: string
  LTSMinus1 :: string

type_synonym Tracks = "(string, Track) gomap"

definition ceAnchorDepth :: int where "ceAnchorDepth = 2"
definition eeAnchorDepth :: int where "eeAnchorDepth = 3"

datatype track_error =
    NotSet string
  | NotValidVersion string string
  | LtsMinus1NotOlder string string
  | LtsNotOlder string string

text \<open>The map literal of \<open>Validate\<close>; its iteration order is any permutation of this list.\<close>

definition track_fields :: "Track \<Rightarrow> (string, string) gomap" where
  "track_fields t =
     [(''current_feature'', CurrentFeature t), (''current_lts'', CurrentLTS t),
      (''lts_minus_1'', LTSMinus1 t)]"

fun check_fields :: "semver \<Rightarrow> (string, string) gomap \<Rightarrow> track_error option" where
  "check_fields sv [] = None"
| "check_fields sv ((name, val) # fs) =
     (if val = [] then Some (NotSet name)
      else if \<not> sv_valid sv (''v'' @ val) then Some (NotValidVersion name val)
      else check_fields sv fs)"

text \<open>\<open>func (t Track) Validate() error\<close>, with \<open>fs\<close> the fields in iteration order.\<close>

definition Validate :: "semver \<Rightarrow> (string, string) gomap \<Rightarrow> Track \<Rightarrow> track_error option" where
  "Validate sv fs t =
     (case check_fields sv fs of
        Some e \<Rightarrow> Some e
      | None \<Rightarrow>
          if sv_compare sv (''v'' @ LTSMinus1 t) (''v'' @ CurrentLTS t) \<ge> 0
          then Some (LtsMinus1NotOlder (LTSMinus1 t) (CurrentLTS t))
          else if sv_compare sv (''v'' @ CurrentLTS t) (''v'' @ CurrentFeature t) \<ge> 0
          then Some (LtsNotOlder (CurrentLTS t) (CurrentFeature t))
          else None)"

text \<open>
  \<open>func LoadTracks() (Tracks, error)\<close>: \<open>unmarshalled\<close> is what \<open>viper.UnmarshalKey\<close>
  (third party) yields, \<open>ord\<close> the iteration order of the field map for each track.
\<close>

datatype load_error = ViperError string | TrackError string track_error

fun check_tracks :: "semver \<Rightarrow> (Track \<Rightarrow> (string, string) gomap) \<Rightarrow> Tracks \<Rightarrow> load_error option" where
  "check_tracks sv ord [] = None"
| "check_tracks sv ord ((name, t) # ts) =
     (case Validate sv (ord t) t of
        Some e \<Rightarrow> Some (TrackError name e)
      | None \<Rightarrow> check_tracks sv ord ts)"

definition LoadTracks ::
  "semver \<Rightarrow> (Track \<Rightarrow> (string, string) gomap) \<Rightarrow> string + Tracks \<Rightarrow> load_error + Tracks" where
  "LoadTracks sv ord unmarshalled =
     (case unmarshalled of
        Inl e \<Rightarrow> Inl (ViperError e)
      | Inr tracks \<Rightarrow>
          (case check_tracks sv ord tracks of Some e \<Rightarrow> Inl e | None \<Rightarrow> Inr tracks))"

datatype anchor_error = NoEditions | UnknownEdition string

text \<open>The loop of \<open>Anchor\<close> over the editions, with \<open>longest\<close> as its state.\<close>

fun anchor_loop :: "string \<Rightarrow> string list \<Rightarrow> anchor_error + string" where
  "anchor_loop longest [] = Inr longest"
| "anchor_loop longest (e # es) =
     (if e = ''ce'' \<or> e = ''ee'' then
        anchor_loop (if longest = [] \<or> e = ''ee'' then e else longest) es
      else Inl (UnknownEdition e))"

text \<open>\<open>func (t Track) Anchor(editions []string) (string, int, error)\<close>\<close>

definition Anchor :: "Track \<Rightarrow> string list \<Rightarrow> anchor_error + (string \<times> int)" where
  "Anchor t editions =
     (if editions = [] then Inl NoEditions
      else case anchor_loop [] editions of
          Inl e \<Rightarrow> Inl e
        | Inr longest \<Rightarrow>
            if longest = ''ee'' then Inr (LTSMinus1 t, eeAnchorDepth)
            else Inr (CurrentFeature t, ceAnchorDepth))"

text \<open>\<open>func MinorSeries(versions []string) []string\<close>\<close>

definition minor_set :: "semver \<Rightarrow> string list \<Rightarrow> (string, bool) gomap" where
  "minor_set sv versions =
     fold (\<lambda>v s. if \<not> sv_valid sv v then s else gm_put (sv_major_minor sv v) True s) versions []"

definition MinorSeries :: "semver \<Rightarrow> string list \<Rightarrow> string list" where
  "MinorSeries sv versions = sv_sort sv (gm_keys (minor_set sv versions))"

text \<open>\<open>slices.Index\<close>\<close>

fun slice_index :: "'a list \<Rightarrow> 'a \<Rightarrow> int" where
  "slice_index [] a = -1"
| "slice_index (x # xs) a = (if x = a then 0 else if slice_index xs a < 0 then -1 else 1 + slice_index xs a)"

datatype cutoff_error = BadAnchor string | NoReleased string

text \<open>
  \<open>func DeriveCutoff(series []string, anchor string, depth int) (string, error)\<close>;
  the final indexing panics when it is out of range.
\<close>

definition DeriveCutoff :: "semver \<Rightarrow> string list \<Rightarrow> string \<Rightarrow> int \<Rightarrow> (cutoff_error + string) go" where
  "DeriveCutoff sv series anchor depth =
     (let a = sv_major_minor sv (''v'' @ anchor) in
      if \<not> sv_valid sv a then Done (Inl (BadAnchor anchor))
      else let idx = slice_index series a in
        if idx < 0 then Done (Inl (NoReleased a))
        else let idx = idx - depth; idx = (if idx < 0 then 0 else idx) in
          if idx < int (length series) then Done (Inr (series ! nat idx))
          else Panic ''index out of range'')"

section \<open>Validation\<close>

definition track_ok :: "semver \<Rightarrow> Track \<Rightarrow> bool" where
  "track_ok sv t \<longleftrightarrow>
     (\<forall>val \<in> {CurrentFeature t, CurrentLTS t, LTSMinus1 t}. val \<noteq> [] \<and> sv_valid sv (''v'' @ val)) \<and>
     sv_compare sv (''v'' @ LTSMinus1 t) (''v'' @ CurrentLTS t) < 0 \<and>
     sv_compare sv (''v'' @ CurrentLTS t) (''v'' @ CurrentFeature t) < 0"

lemma check_fields_None:
  "check_fields sv fs = None \<longleftrightarrow> (\<forall>(n, val) \<in> set fs. val \<noteq> [] \<and> sv_valid sv (''v'' @ val))"
  by (induction sv fs rule: check_fields.induct) auto

lemma Validate_None_iff:
  assumes "mset fs = mset (track_fields t)"
  shows "Validate sv fs t = None \<longleftrightarrow> track_ok sv t"
proof -
  have "set fs = set (track_fields t)" using assms by (rule mset_eq_setD)
  then have "check_fields sv fs = None \<longleftrightarrow>
      (\<forall>val \<in> {CurrentFeature t, CurrentLTS t, LTSMinus1 t}. val \<noteq> [] \<and> sv_valid sv (''v'' @ val))"
    by (auto simp: check_fields_None track_fields_def)
  then show ?thesis
    by (auto simp: Validate_def track_ok_def split: option.splits)
qed

lemma check_tracks_None:
  "check_tracks sv ord ts = None \<longleftrightarrow> (\<forall>(n, t) \<in> set ts. Validate sv (ord t) t = None)"
  by (induction sv ord ts rule: check_tracks.induct) (auto split: option.splits)

section \<open>Anchors\<close>

lemma anchor_loop_Inr:
  "anchor_loop l es = Inr r \<longleftrightarrow> set es \<subseteq> {''ce'', ''ee''} \<and>
     r = (if ''ee'' \<in> set es then ''ee'' else if l = [] \<and> es \<noteq> [] then ''ce'' else l)"
  by (induction l es rule: anchor_loop.induct) auto

lemma anchor_loop_Inl:
  "anchor_loop l es = Inl e \<longleftrightarrow>
     (\<exists>x. List.find (\<lambda>x. x \<notin> {''ce'', ''ee''}) es = Some x \<and> e = UnknownEdition x)"
  by (induction l es rule: anchor_loop.induct) auto

lemma Anchor_Inr_iff:
  "Anchor t es = Inr r \<longleftrightarrow> es \<noteq> [] \<and> set es \<subseteq> {''ce'', ''ee''} \<and>
     r = (if ''ee'' \<in> set es then (LTSMinus1 t, eeAnchorDepth) else (CurrentFeature t, ceAnchorDepth))"
proof (cases "anchor_loop [] es")
  case (Inl e)
  then have "\<not> set es \<subseteq> {''ce'', ''ee''}" using anchor_loop_Inr [of "[]" es] by auto
  with Inl show ?thesis by (simp add: Anchor_def)
next
  case (Inr l)
  then have "set es \<subseteq> {''ce'', ''ee''}"
    "l = (if ''ee'' \<in> set es then ''ee'' else if es \<noteq> [] then ''ce'' else [])"
    by (simp_all add: anchor_loop_Inr)
  with Inr show ?thesis by (cases "es = []") (auto simp: Anchor_def)
qed

section \<open>Minor series\<close>

lemma keys_put: "set (gm_keys (gm_put k x s)) = insert k (set (gm_keys s))"
  by (simp add: dom_update)

lemma minor_set_fold:
  assumes "gm_ok s"
  shows "gm_ok (fold (\<lambda>v s. if \<not> sv_valid sv v then s else gm_put (sv_major_minor sv v) True s) vs s)"
    and "set (gm_keys (fold (\<lambda>v s. if \<not> sv_valid sv v then s else gm_put (sv_major_minor sv v) True s) vs s))
       = set (gm_keys s) \<union> sv_major_minor sv ` {v \<in> set vs. sv_valid sv v}"
  using assms
proof (induction vs arbitrary: s)
  case (Cons v vs)
  have *: "{x \<in> set (v # vs). sv_valid sv x}
      = (if sv_valid sv v then {v} else {}) \<union> {x \<in> set vs. sv_valid sv x}" by auto
  {
    case 1
    with Cons.IH(1) [OF gm.ok_put [OF 1]] Cons.IH(1) show ?case by simp
  next
    case 2
    with Cons.IH(2) [OF gm.ok_put [OF 2]] Cons.IH(2) show ?case
      unfolding * by (simp add: keys_put image_Un del: set_map)
  }
qed simp_all

lemma gm_ok_minor_set: "gm_ok (minor_set sv vs)"
  and keys_minor_set: "set (gm_keys (minor_set sv vs)) = sv_major_minor sv ` {v \<in> set vs. sv_valid sv v}"
  using minor_set_fold [OF gm.ok_empty, of sv vs] by (auto simp: minor_set_def)

definition series_sorted :: "semver \<Rightarrow> string list \<Rightarrow> bool" where
  "series_sorted sv xs \<longleftrightarrow> sorted_wrt (\<lambda>a b. sv_compare sv a b < 0) xs"

lemma set_MinorSeries:
  "semver_laws sv \<Longrightarrow> set (MinorSeries sv vs) = sv_major_minor sv ` {v \<in> set vs. sv_valid sv v}"
  using keys_minor_set [of sv vs] by (simp add: MinorSeries_def set_sv_sort)

lemma MinorSeries_sorted:
  assumes "semver_laws sv"
  shows "series_sorted sv (MinorSeries sv vs)"
proof -
  let ?ms = "MinorSeries sv vs"
  have d: "distinct ?ms"
    using gm_ok_minor_set [of sv vs] assms by (simp add: MinorSeries_def distinct_sv_sort gm_ok_def)
  have s: "sorted_wrt (\<lambda>a b. sv_compare sv a b \<le> 0) ?ms"
    using sv_sorted_sort [OF assms] by (simp add: MinorSeries_def)
  have mm: "sv_major_minor sv a = a" if "a \<in> set ?ms" for a
    using that assms by (auto simp: set_MinorSeries sv_major_minor_idem)
  have "sv_compare sv (?ms ! i) (?ms ! j) < 0" if "i < j" "j < length ?ms" for i j
  proof -
    have "sv_compare sv (?ms ! i) (?ms ! j) \<le> 0"
      using s that by (simp add: sorted_wrt_iff_nth_less)
    moreover have "sv_compare sv (?ms ! i) (?ms ! j) \<noteq> 0"
    proof
      assume "sv_compare sv (?ms ! i) (?ms ! j) = 0"
      moreover have "sv_major_minor sv (?ms ! i) = ?ms ! i" "sv_major_minor sv (?ms ! j) = ?ms ! j"
        using that by (auto intro!: mm)
      ultimately have "?ms ! i = ?ms ! j" using sv_major_minor_inj [OF assms] by metis
      with d that show False by (simp add: nth_eq_iff_index_eq)
    qed
    ultimately show ?thesis by simp
  qed
  then show ?thesis by (simp add: series_sorted_def sorted_wrt_iff_nth_less)
qed

section \<open>The retention window\<close>

lemma slice_index_found:
  "0 \<le> slice_index xs a \<longleftrightarrow> a \<in> set xs"
  "a \<in> set xs \<Longrightarrow> slice_index xs a < int (length xs) \<and> xs ! nat (slice_index xs a) = a"
  by (induction xs) (auto simp: nat_add_distrib)

text \<open>
  \<open>c\<close> is the cutoff of a window of \<open>depth\<close> series below \<open>a\<close>: of the released series
  older than \<open>a\<close>, exactly the \<open>depth\<close> newest (all, if there are fewer) are not
  older than \<open>c\<close>.
\<close>

definition window_ok :: "semver \<Rightarrow> string list \<Rightarrow> string \<Rightarrow> nat \<Rightarrow> string \<Rightarrow> bool" where
  "window_ok sv series a depth c \<longleftrightarrow>
     c \<in> set series \<and> sv_compare sv c a \<le> 0 \<and>
     length (List.filter (\<lambda>s. sv_compare sv c s \<le> 0 \<and> sv_compare sv s a < 0) series)
       = min depth (length (List.filter (\<lambda>s. sv_compare sv s a < 0) series))"

lemma series_sorted_compare:
  assumes "semver_laws sv" "series_sorted sv xs" "i < length xs" "j < length xs"
  shows "sv_compare sv (xs ! i) (xs ! j) < 0 \<longleftrightarrow> i < j"
    and "sv_compare sv (xs ! i) (xs ! j) \<le> 0 \<longleftrightarrow> i \<le> j"
proof -
  have lt: "sv_compare sv (xs ! a) (xs ! b) < 0" if "a < b" "b < length xs" for a b
    using assms(2) that by (simp add: series_sorted_def sorted_wrt_iff_nth_less)
  have gt: "sv_compare sv (xs ! i) (xs ! j) > 0" if "j < i"
    using lt [OF that assms(3)] sv_compare_anti [OF assms(1), of "xs ! j" "xs ! i"] by simp
  have eq: "sv_compare sv (xs ! i) (xs ! j) = 0" if "i = j"
    using that sv_compare_refl [OF assms(1)] by simp
  show "sv_compare sv (xs ! i) (xs ! j) < 0 \<longleftrightarrow> i < j"
    and "sv_compare sv (xs ! i) (xs ! j) \<le> 0 \<longleftrightarrow> i \<le> j"
    using lt [OF _ assms(4)] gt eq by (cases i j rule: linorder_cases; force)+
qed

lemma length_filter_nth:
  "length (List.filter P xs) = card {k. k < length xs \<and> P (xs ! k)}"
  by (rule length_filter_conv_card)

lemma window_at_index:
  assumes "semver_laws sv" "series_sorted sv xs" "i < length xs"
  shows "window_ok sv xs (xs ! i) d (xs ! (i - d))"
proof -
  let ?c = "xs ! (i - d)"
  have l: "i - d < length xs" using assms(3) by simp
  have A: "{k. k < length xs \<and> sv_compare sv (xs ! k) (xs ! i) < 0} = {..<i}"
    using assms by (auto simp: series_sorted_compare)
  have B: "{k. k < length xs \<and> sv_compare sv ?c (xs ! k) \<le> 0 \<and> sv_compare sv (xs ! k) (xs ! i) < 0}
      = {i - d..<i}"
    using assms l by (auto simp: series_sorted_compare)
  show ?thesis
    using assms l unfolding window_ok_def length_filter_nth A B
    by (simp add: series_sorted_compare)
qed

lemma slice_index_first:
  "a \<in> set xs \<Longrightarrow> \<exists>i < length xs. slice_index xs a = int i \<and> xs ! i = a \<and> a \<notin> set (take i xs)"
proof (induction xs)
  case (Cons x xs)
  show ?case
  proof (cases "x = a")
    case True
    then show ?thesis by auto
  next
    case False
    with Cons obtain i where "i < length xs" "slice_index xs a = int i" "xs ! i = a" "a \<notin> set (take i xs)"
      by auto
    with False show ?thesis by (intro exI [of _ "Suc i"]) auto
  qed
qed simp

text \<open>The value on each of the three branches; with a depth that is not negative there is no other.\<close>

lemma DeriveCutoff_bad:
  "\<not> sv_valid sv (sv_major_minor sv (''v'' @ anchor))
    \<Longrightarrow> DeriveCutoff sv series anchor depth = Done (Inl (BadAnchor anchor))"
  by (simp add: DeriveCutoff_def Let_def)

lemma DeriveCutoff_missing:
  assumes "sv_valid sv (sv_major_minor sv (''v'' @ anchor))"
    and "sv_major_minor sv (''v'' @ anchor) \<notin> set series"
  shows "DeriveCutoff sv series anchor depth = Done (Inl (NoReleased (sv_major_minor sv (''v'' @ anchor))))"
  using assms slice_index_found(1) [of series "sv_major_minor sv (''v'' @ anchor)"]
  by (simp add: DeriveCutoff_def Let_def)

lemma DeriveCutoff_found:
  assumes "0 \<le> depth" "sv_valid sv (sv_major_minor sv (''v'' @ anchor))"
    and "slice_index series (sv_major_minor sv (''v'' @ anchor)) = int i" "i < length series"
  shows "DeriveCutoff sv series anchor depth = Done (Inr (series ! (i - nat depth)))"
proof -
  have cut: "(if int i - depth < 0 then 0 else int i - depth) = int (i - nat depth)"
    using assms(1) by (simp add: of_nat_diff nat_le_iff)
  have "int (i - nat depth) < int (length series)" using assms(4) by simp
  with assms(2,4) show ?thesis
    unfolding DeriveCutoff_def Let_def assms(3) cut by simp
qed

lemma DeriveCutoff_Inr:
  assumes "0 \<le> depth" and "DeriveCutoff sv series anchor depth = Done (Inr c)"
  obtains i where "sv_valid sv (sv_major_minor sv (''v'' @ anchor))" "i < length series"
    "series ! i = sv_major_minor sv (''v'' @ anchor)" "c = series ! (i - nat depth)"
proof -
  have v: "sv_valid sv (sv_major_minor sv (''v'' @ anchor))"
    using assms(2) DeriveCutoff_bad [of sv anchor series depth] by (rule_tac ccontr) simp
  then have "sv_major_minor sv (''v'' @ anchor) \<in> set series"
    using assms(2) DeriveCutoff_missing [of sv anchor series depth] by (rule_tac ccontr) simp
  then obtain i where i: "i < length series" "series ! i = sv_major_minor sv (''v'' @ anchor)"
    "slice_index series (sv_major_minor sv (''v'' @ anchor)) = int i"
    using slice_index_first by metis
  from DeriveCutoff_found [OF assms(1) v i(3,1)] assms(2)
  have "c = series ! (i - nat depth)" by simp
  with v i(1,2) show ?thesis by (rule that)
qed

lemma DeriveCutoff_Inr_iff:
  assumes "0 \<le> depth"
  shows "(\<exists>c. DeriveCutoff sv series anchor depth = Done (Inr c)) \<longleftrightarrow>
    sv_valid sv (sv_major_minor sv (''v'' @ anchor)) \<and> sv_major_minor sv (''v'' @ anchor) \<in> set series"
    (is "?l \<longleftrightarrow> ?r")
proof
  show "?l \<Longrightarrow> ?r" by (metis DeriveCutoff_Inr [OF assms] nth_mem)
next
  assume r: ?r
  then obtain i where "i < length series" "slice_index series (sv_major_minor sv (''v'' @ anchor)) = int i"
    using slice_index_first by metis
  with r DeriveCutoff_found [OF assms] show ?l by blast
qed

lemma DeriveCutoff_window:
  assumes "semver_laws sv" "series_sorted sv series" "0 \<le> depth"
    and "DeriveCutoff sv series anchor depth = Done (Inr c)"
  shows "sv_major_minor sv (''v'' @ anchor) \<in> set series"
    and "window_ok sv series (sv_major_minor sv (''v'' @ anchor)) (nat depth) c"
proof -
  obtain i where "i < length series" "series ! i = sv_major_minor sv (''v'' @ anchor)"
    "c = series ! (i - nat depth)"
    using DeriveCutoff_Inr [OF assms(3,4)] by metis
  then show "sv_major_minor sv (''v'' @ anchor) \<in> set series"
    and "window_ok sv series (sv_major_minor sv (''v'' @ anchor)) (nat depth) c"
    using window_at_index [OF assms(1,2), of i "nat depth"] nth_mem [of i series] by simp_all
qed

lemma DeriveCutoff_total:
  assumes "0 \<le> depth"
  shows "\<exists>r. DeriveCutoff sv series anchor depth = Done r"
  using DeriveCutoff_bad DeriveCutoff_missing DeriveCutoff_found [OF assms] slice_index_first
  by metis

section \<open>Properties\<close>

text \<open>
  \<open>LoadTracks\<close> accepts a configuration exactly when every track is complete, made of
  versions, and strictly ordered from the previous LTS over the LTS to the feature release;
  the verdict does not depend on the order in which Go visits the fields of a track, and what
  is returned is the configuration unchanged.
\<close>

theorem LoadTracks_accepts_iff:
  assumes "\<And>t. mset (ord t) = mset (track_fields t)"
  shows "LoadTracks sv ord (Inr tracks) = Inr r \<longleftrightarrow> r = tracks \<and> list_all (\<lambda>(n, t). track_ok sv t) tracks"
proof -
  have "check_tracks sv ord tracks = None \<longleftrightarrow> list_all (\<lambda>(n, t). track_ok sv t) tracks"
    by (auto simp: check_tracks_None list_all_iff Validate_None_iff [OF assms])
  then show ?thesis by (auto simp: LoadTracks_def split: option.splits)
qed

theorem LoadTracks_witness:
  "LoadTracks ref_semver (rev \<circ> track_fields)
     (Inr [(''gw'', \<lparr>CurrentFeature = ''5.14'', CurrentLTS = ''5.8'', LTSMinus1 = ''5.3''\<rparr>)])
   = Inr [(''gw'', \<lparr>CurrentFeature = ''5.14'', CurrentLTS = ''5.8'', LTSMinus1 = ''5.3''\<rparr>)]"
proof -
  have "track_ok ref_semver \<lparr>CurrentFeature = ''5.14'', CurrentLTS = ''5.8'', LTSMinus1 = ''5.3''\<rparr>"
    by code_simp
  then show ?thesis
    by (subst LoadTracks_accepts_iff) simp_all
qed

end
