(* ===== verification/PkgPlan.thy ===== *)
theory PkgPlan
  imports PkgFilter Tracks "HOL-Library.Word"
begin

text \<open>
  \<open>pkgs/plan.go\<close>: the dry-run retention report.  \<open>plan_step\<close> is the body of the loop
  of \<open>BuildPlan\<close> over the packages; \<open>prunes\<close> is the abstract retention policy, and
  \<open>plan_fold\<close> shows that the accumulated report is the image of the packages the policy
  selects.  \<open>PrunedBytes\<close> is an \<open>int64\<close> and wraps.
\<close>

record PlanPackage =
  pp_Name :: string
  pp_Version :: string
  pp_Arch :: string
  pp_DistroVersion :: string
  pp_Filename :: string
  pp_Sha256Sum :: string
  pp_CreateTime :: int

record Plan =
  pl_Repo :: string
  pl_GeneratedAt :: int
  pl_Track :: string
  pl_Editions :: "string list"
  pl_Anchor :: string
  pl_Cutoff :: string
  pl_Series :: "string list"
  pl_Retained :: nat
  pl_Pruned :: nat
  pl_PrunedBytes :: "64 word"
  pl_PrunedSeries :: "(string, nat) gomap"
  pl_Protected :: "(string, nat) gomap"
  pl_NonSemver :: nat
  pl_Packages :: "PlanPackage list"

datatype plan_error =
    TrackNotFound string
  | TrackAnchorError string anchor_error
  | TrackCutoffError cutoff_error

definition plan_package :: "PackageDetail \<Rightarrow> PlanPackage" where
  "plan_package item =
     \<lparr>pp_Name = pd_Name item, pp_Version = pd_Version item, pp_Arch = pd_Arch item,
      pp_DistroVersion = pd_DistroVersion item, pp_Filename = pd_Filename item,
      pp_Sha256Sum = pd_Sha256Sum item, pp_CreateTime = pd_CreateTime item\<rparr>"

definition size_word :: "PackageDetail \<Rightarrow> 64 word" where
  "size_word item = (case parse_int64 (pd_Size item) of Some sz \<Rightarrow> word_of_int sz | None \<Rightarrow> 0)"

text \<open>The body of the loop over the packages.\<close>

definition plan_step ::
  "semver \<Rightarrow> pkgConfig \<Rightarrow> string \<Rightarrow> bool \<Rightarrow> (string, bool) gomap \<Rightarrow> int \<Rightarrow> PackageDetail \<Rightarrow> Plan \<Rightarrow> Plan" where
  "plan_step sv cfg cutoff bySeries exceptions now item p =
     (let v = item_version item in
      if gm_get0 False exceptions v then
        p\<lparr>pl_Protected := gm_bump v (pl_Protected p), pl_Retained := Suc (pl_Retained p)\<rparr>
      else if \<not> sv_valid sv v then
        p\<lparr>pl_NonSemver := Suc (pl_NonSemver p), pl_Retained := Suc (pl_Retained p)\<rparr>
      else
        let prune = (if cutoff \<noteq> [] then
                       (if bySeries then sv_compare sv (sv_major_minor sv v) cutoff < 0
                        else sv_compare sv v cutoff < 0)
                     else False);
            prune = (if \<not> prune \<and> cfg_AgeCutoff cfg \<noteq> 0
                        \<and> time_sub now (pd_CreateTime item) > cfg_AgeCutoff cfg
                     then True else prune)
        in if prune then
             p\<lparr>pl_Pruned := Suc (pl_Pruned p),
               pl_PrunedSeries := gm_bump (sv_major_minor sv v) (pl_PrunedSeries p),
               pl_PrunedBytes := pl_PrunedBytes p + size_word item,
               pl_Packages := pl_Packages p @ [plan_package item]\<rparr>
           else p\<lparr>pl_Retained := Suc (pl_Retained p)\<rparr>)"

definition plan_items ::
  "semver \<Rightarrow> pkgConfig \<Rightarrow> string \<Rightarrow> bool \<Rightarrow> int \<Rightarrow> PackageDetail list \<Rightarrow> Plan \<Rightarrow> Plan" where
  "plan_items sv cfg cutoff bySeries now items p =
     fold (plan_step sv cfg cutoff bySeries (fold (\<lambda>e. gm_put e True) (cfg_Exceptions cfg) []) now)
       items (p\<lparr>pl_Cutoff := cutoff\<rparr>)"

text \<open>
  \<open>func BuildPlan(repoName, cfg, tracks, items, now) (Plan, error)\<close>.  An error return
  carries the plan built so far, as in the code.
\<close>

definition BuildPlan ::
  "semver \<Rightarrow> string \<Rightarrow> pkgConfig \<Rightarrow> Tracks \<Rightarrow> PackageDetail list \<Rightarrow> int
     \<Rightarrow> (Plan \<times> plan_error option) go" where
  "BuildPlan sv repoName cfg tracks items now =
     (let p = \<lparr>pl_Repo = repoName, pl_GeneratedAt = now, pl_Track = cfg_Track cfg,
               pl_Editions = cfg_Editions cfg, pl_Anchor = [], pl_Cutoff = [],
               pl_Series = MinorSeries sv (List.map item_version items),
               pl_Retained = 0, pl_Pruned = 0, pl_PrunedBytes = 0, pl_PrunedSeries = [],
               pl_Protected = [], pl_NonSemver = 0, pl_Packages = []\<rparr>;
          cutoff = sv_canonical sv (cfg_VersionCutoff cfg)
      in if cfg_Track cfg \<noteq> [] then
           (case gm_get tracks (cfg_Track cfg) of
              None \<Rightarrow> Done (p, Some (TrackNotFound (cfg_Track cfg)))
            | Some track \<Rightarrow>
                (case Anchor track (cfg_Editions cfg) of
                   Inl e \<Rightarrow> Done (p, Some (TrackAnchorError (cfg_Track cfg) e))
                 | Inr (anchor, depth) \<Rightarrow>
                     let p = p\<lparr>pl_Anchor := anchor\<rparr> in
                     go_bind (DeriveCutoff sv (pl_Series p) anchor depth) (\<lambda>r. case r of
                         Inl e \<Rightarrow> Done (p, Some (TrackCutoffError e))
                       | Inr cutoff \<Rightarrow> Done (plan_items sv cfg cutoff True now items p, None))))
         else Done (plan_items sv cfg cutoff False now items p, None))"

section \<open>The summary\<close>

text \<open>\<open>float64(n)\<close> of an \<open>int64\<close>, and the rounding of \<open>%.1f\<close>: to nearest, ties to even.\<close>

definition round_even :: "int \<Rightarrow> int \<Rightarrow> int" where
  "round_even a b =
     (let q = a div b; r = a mod b in
      if 2 * r < b then q else if 2 * r > b then q + 1 else if even q then q else q + 1)"

fun bit_length :: "nat \<Rightarrow> nat" where
  "bit_length n = (if n = 0 then 0 else Suc (bit_length (n div 2)))"

declare bit_length.simps [simp del]

definition float_of_int64 :: "int \<Rightarrow> int" where
  "float_of_int64 n =
     (let e = bit_length (nat \<bar>n\<bar>) - 53 in
      (if n < 0 then - 1 else 1) * round_even \<bar>n\<bar> (2 ^ e) * 2 ^ e)"

definition fmt_gib :: "64 word \<Rightarrow> string" where
  "fmt_gib bytes =
     (let n = float_of_int64 (sint bytes); tenths = round_even (10 * \<bar>n\<bar>) (2 ^ 30)
      in (if n < 0 then ''-'' else []) @ show_int (tenths div 10) @ ''.'' @ show_int (tenths mod 10))"

definition fmt_strings :: "string list \<Rightarrow> string" where
  "fmt_strings xs = ''['' @ join_with '' '' xs @ '']''"

definition fmt_counts :: "string list \<Rightarrow> (string, nat) gomap \<Rightarrow> string" where
  "fmt_counts ks m = concat (List.map (\<lambda>k. '' '' @ k @ ''('' @ show_nat (gm_get0 0 m k) @ '')'') ks)"

text \<open>\<open>func (p Plan) Render() string\<close>\<close>

definition Render :: "semver \<Rightarrow> Plan \<Rightarrow> string" where
  "Render sv p =
     pl_Repo p @ '': '' @ show_nat (pl_Retained p + pl_Pruned p) @ '' packages, ''
       @ show_nat (pl_Retained p) @ '' retained, '' @ show_nat (pl_Pruned p) @ '' pruned (''
       @ fmt_gib (pl_PrunedBytes p) @ '' GiB)\<newline>''
     @ (if pl_Track p \<noteq> [] then
          ''  track '' @ pl_Track p @ '' editions '' @ fmt_strings (pl_Editions p) @ '', anchor ''
            @ pl_Anchor p @ '' -> cutoff '' @ pl_Cutoff p @ '' (oldest retained series)\<newline>''
        else if pl_Cutoff p \<noteq> [] then ''  static cutoff '' @ pl_Cutoff p @ ''\<newline>'' else [])
     @ (if pl_PrunedSeries p \<noteq> [] then
          ''  pruned series:'' @ fmt_counts (sv_sort sv (gm_keys (pl_PrunedSeries p))) (pl_PrunedSeries p) @ ''\<newline>''
        else [])
     @ (if pl_Protected p \<noteq> [] then
          ''  exceptions held:'' @ fmt_counts (sort (gm_keys (pl_Protected p))) (pl_Protected p) @ ''\<newline>''
        else [])
     @ (if pl_NonSemver p > 0 then
          ''  '' @ show_nat (pl_NonSemver p) @ '' non-semver packages always retained\<newline>''
        else [])"

section \<open>The retention policy\<close>

definition prunes :: "semver \<Rightarrow> pkgConfig \<Rightarrow> string \<Rightarrow> bool \<Rightarrow> int \<Rightarrow> PackageDetail \<Rightarrow> bool" where
  "prunes sv cfg cutoff bySeries now item \<longleftrightarrow>
     item_version item \<notin> set (cfg_Exceptions cfg) \<and> sv_valid sv (item_version item) \<and>
     (cutoff \<noteq> [] \<and> sv_compare sv (if bySeries then sv_major_minor sv (item_version item)
                                  else item_version item) cutoff < 0
      \<or> cfg_AgeCutoff cfg \<noteq> 0 \<and> time_sub now (pd_CreateTime item) > cfg_AgeCutoff cfg)"

lemma exceptions_map:
  "gm_get0 False (fold (\<lambda>e. gm_put e True) es []) v \<longleftrightarrow> v \<in> set es"
  by (simp add: gm_get0_def gm.get_fold_put gm.ok_empty)

text \<open>One step in terms of the policy.\<close>

lemma plan_step_eq:
  assumes es: "\<And>v. gm_get0 False es v \<longleftrightarrow> v \<in> set (cfg_Exceptions cfg)"
  shows "plan_step sv cfg cutoff bs es now i p =
    (if item_version i \<in> set (cfg_Exceptions cfg) then
       p\<lparr>pl_Protected := gm_bump (item_version i) (pl_Protected p), pl_Retained := Suc (pl_Retained p)\<rparr>
     else if \<not> sv_valid sv (item_version i) then
       p\<lparr>pl_NonSemver := Suc (pl_NonSemver p), pl_Retained := Suc (pl_Retained p)\<rparr>
     else if prunes sv cfg cutoff bs now i then
       p\<lparr>pl_Pruned := Suc (pl_Pruned p),
         pl_PrunedSeries := gm_bump (sv_major_minor sv (item_version i)) (pl_PrunedSeries p),
         pl_PrunedBytes := pl_PrunedBytes p + size_word i,
         pl_Packages := pl_Packages p @ [plan_package i]\<rparr>
     else p\<lparr>pl_Retained := Suc (pl_Retained p)\<rparr>)"
proof (cases "item_version i \<in> set (cfg_Exceptions cfg)")
  case True
  then show ?thesis by (simp only: plan_step_def Let_def es if_True)
next
  case False
  show ?thesis
  proof (cases "sv_valid sv (item_version i)")
    case True
    have "(if \<not> c \<and> a \<noteq> 0 \<and> t then True else c) = (c \<or> a \<noteq> 0 \<and> t)" for c t and a :: int by auto
    moreover have "(if cutoff \<noteq> [] then if bs then x else y else False)
        = (cutoff \<noteq> [] \<and> (if bs then x else y))" for x y by simp
    ultimately show ?thesis
      using False True by (cases bs) (simp_all only: plan_step_def Let_def es prunes_def if_True if_False simp_thms)
  next
    case False': False
    with False show ?thesis by (simp only: plan_step_def Let_def es if_False if_True simp_thms)
  qed
qed

text \<open>What a run of the loop adds to a plan.\<close>

lemma plan_fold:
  fixes es :: "(string, bool) gomap" and sv :: semver and cutoff :: string
    and bs :: bool and now :: int and cfg :: pkgConfig
  assumes es: "\<And>v. gm_get0 False es v \<longleftrightarrow> v \<in> set (cfg_Exceptions cfg)"
  defines "ex \<equiv> \<lambda>i. item_version i \<in> set (cfg_Exceptions cfg)"
    and "pr \<equiv> prunes sv cfg cutoff bs now"
    and "run \<equiv> fold (plan_step sv cfg cutoff bs es now)"
  shows "pl_Retained (run items p) + length (List.filter pr items) = pl_Retained p + length items"
    and "pl_Pruned (run items p) = pl_Pruned p + length (List.filter pr items)"
    and "pl_Packages (run items p) = pl_Packages p @ List.map plan_package (List.filter pr items)"
    and "pl_PrunedBytes (run items p) = pl_PrunedBytes p + sum_list (List.map size_word (List.filter pr items))"
    and "pl_NonSemver (run items p) = pl_NonSemver p
           + length (List.filter (\<lambda>i. \<not> ex i \<and> \<not> sv_valid sv (item_version i)) items)"
    and "gm_get0 0 (pl_PrunedSeries (run items p)) s = gm_get0 0 (pl_PrunedSeries p) s
           + length (List.filter (\<lambda>i. pr i \<and> sv_major_minor sv (item_version i) = s) items)"
    and "gm_get0 0 (pl_Protected (run items p)) v = gm_get0 0 (pl_Protected p) v
           + length (List.filter (\<lambda>i. ex i \<and> item_version i = v) items)"
    and "pl_Cutoff (run items p) = pl_Cutoff p" "pl_Anchor (run items p) = pl_Anchor p"
      "pl_Series (run items p) = pl_Series p"
proof (induction items arbitrary: p)
  case (Cons i items)
  have nex: "\<not> pr i" if "item_version i \<in> set (cfg_Exceptions cfg)" using that by (simp add: pr_def prunes_def)
  have ninv: "\<not> pr i" if "\<not> sv_valid sv (item_version i)" using that by (simp add: pr_def prunes_def)
  have step: "run (i # items) p = run items (plan_step sv cfg cutoff bs es now i p)" for p
    by (simp add: run_def)
  note st = plan_step_eq [OF es, of sv cutoff bs now i, folded pr_def]
  {
    case (1 p) show ?case unfolding step using Cons.IH(1) nex ninv by (simp add: st)
  next
    case (2 p) show ?case unfolding step using Cons.IH(2) nex ninv by (simp add: st)
  next
    case (3 p) show ?case unfolding step using Cons.IH(3) nex ninv by (simp add: st)
  next
    case (4 p) show ?case unfolding step using Cons.IH(4) nex ninv by (simp add: st)
  next
    case (5 p) show ?case unfolding step using Cons.IH(5) nex ninv by (simp add: st ex_def)
  next
    case (6 p) show ?case unfolding step using Cons.IH(6) nex ninv by (simp add: st gm_get0_bump)
  next
    case (7 p) show ?case unfolding step using Cons.IH(7) nex ninv
      by (auto simp: st gm_get0_bump ex_def)
  next
    case (8 p) show ?case unfolding step using Cons.IH(8) by (simp add: st)
  next
    case (9 p) show ?case unfolding step using Cons.IH(9) by (simp add: st)
  next
    case (10 p) show ?case unfolding step using Cons.IH(10) by (simp add: st)
  }
qed (simp_all add: run_def)

section \<open>Plans that succeed\<close>

text \<open>The selection and the counters of a plan, whatever the branch that computed its cutoff.\<close>

definition plan_of :: "semver \<Rightarrow> pkgConfig \<Rightarrow> bool \<Rightarrow> int \<Rightarrow> PackageDetail list \<Rightarrow> Plan \<Rightarrow> bool" where
  "plan_of sv cfg bs now items p \<longleftrightarrow>
     (let pr = prunes sv cfg (pl_Cutoff p) bs now in
      pl_Packages p = List.map plan_package (List.filter pr items) \<and>
      pl_Pruned p = length (List.filter pr items) \<and>
      pl_Retained p + pl_Pruned p = length items \<and>
      pl_PrunedBytes p = sum_list (List.map size_word (List.filter pr items)) \<and>
      (\<forall>s. gm_get0 0 (pl_PrunedSeries p) s
         = length (List.filter (\<lambda>i. pr i \<and> sv_major_minor sv (item_version i) = s) items)) \<and>
      pl_Series p = MinorSeries sv (List.map item_version items))"

lemma plan_items_of:
  assumes "pl_Retained p = 0" "pl_Pruned p = 0" "pl_PrunedBytes p = 0" "pl_PrunedSeries p = []"
    "pl_Packages p = []" "pl_Series p = MinorSeries sv (List.map item_version items)"
  shows "plan_of sv cfg bs now items (plan_items sv cfg cutoff bs now items p)
    \<and> pl_Cutoff (plan_items sv cfg cutoff bs now items p) = cutoff
    \<and> pl_Anchor (plan_items sv cfg cutoff bs now items p) = pl_Anchor p"
  using plan_fold [OF exceptions_map, of sv cfg cutoff bs now items "p\<lparr>pl_Cutoff := cutoff\<rparr>"] assms
  by (simp add: plan_of_def plan_items_def Let_def gm_get0_def [of 0 "[]"])

lemma BuildPlan_static:
  assumes "cfg_Track cfg = []"
  obtains p where "BuildPlan sv repoName cfg tracks items now = Done (p, None)"
    "plan_of sv cfg False now items p" "pl_Cutoff p = sv_canonical sv (cfg_VersionCutoff cfg)"
    "pl_Anchor p = []"
  using assms by (auto simp: BuildPlan_def Let_def plan_items_of)

lemma BuildPlan_track:
  assumes "cfg_Track cfg \<noteq> []" "BuildPlan sv repoName cfg tracks items now = Done (p, None)"
  obtains track anchor depth where "gm_get tracks (cfg_Track cfg) = Some track"
    "Anchor track (cfg_Editions cfg) = Inr (anchor, depth)"
    "DeriveCutoff sv (pl_Series p) anchor depth = Done (Inr (pl_Cutoff p))"
    "plan_of sv cfg True now items p" "pl_Anchor p = anchor"
proof -
  obtain track anchor depth where t: "gm_get tracks (cfg_Track cfg) = Some track"
    "Anchor track (cfg_Editions cfg) = Inr (anchor, depth)"
    using assms by (auto simp: BuildPlan_def Let_def split: option.splits sum.splits)
  let ?d = "DeriveCutoff sv (MinorSeries sv (List.map item_version items)) anchor depth"
  have "\<exists>c. ?d = Done (Inr c)"
  proof (cases ?d)
    case (Done r)
    with assms t show ?thesis by (cases r) (auto simp: BuildPlan_def Let_def)
  qed (use assms t in \<open>simp_all add: BuildPlan_def Let_def\<close>)
  then obtain c where c: "?d = Done (Inr c)" by blast
  with assms t have "plan_of sv cfg True now items p" "pl_Cutoff p = c" "pl_Anchor p = anchor"
    by (auto simp: BuildPlan_def Let_def plan_items_of)
  with t c that show ?thesis by (simp add: plan_of_def Let_def)
qed

lemma BuildPlan_plan_of:
  assumes "BuildPlan sv repoName cfg tracks items now = Done (p, None)"
  shows "plan_of sv cfg (cfg_Track cfg \<noteq> []) now items p"
proof (cases "cfg_Track cfg = []")
  case True
  with BuildPlan_static [OF True, of sv repoName tracks items now] assms show ?thesis by auto
next
  case False
  with BuildPlan_track [OF False assms] show ?thesis by simp
qed

lemma Anchor_depth: "Anchor t es = Inr (a, d) \<Longrightarrow> d = 2 \<or> d = 3"
  by (auto simp: Anchor_def ceAnchorDepth_def eeAnchorDepth_def split: if_splits sum.splits)

section \<open>Properties\<close>

text \<open>
  (C6) The retention window.  A plan driven by a track keeps exactly the announced window:
  its cutoff is the series such that, of the released series older than the anchor, the
  \<open>depth\<close> newest (or all of them) are not older than it; and, with no age cutoff, the
  packages listed for pruning are precisely the unprotected versions whose series is older
  than that cutoff.
\<close>

theorem plan_keeps_window:
  assumes "semver_laws sv" "cfg_Track cfg \<noteq> []" "cfg_AgeCutoff cfg = 0"
    and "BuildPlan sv repoName cfg tracks items now = Done (p, None)"
  shows "\<exists>track anchor depth.
      gm_get tracks (cfg_Track cfg) = Some track \<and>
      Anchor track (cfg_Editions cfg) = Inr (anchor, depth) \<and>
      window_ok sv (MinorSeries sv (List.map item_version items))
        (sv_major_minor sv (''v'' @ anchor)) (nat depth) (pl_Cutoff p) \<and>
      pl_Packages p = List.map plan_package
        (List.filter (\<lambda>i. item_version i \<notin> set (cfg_Exceptions cfg) \<and> sv_valid sv (item_version i) \<and>
           sv_compare sv (sv_major_minor sv (item_version i)) (pl_Cutoff p) < 0) items)"
proof -
  obtain track anchor depth where t: "gm_get tracks (cfg_Track cfg) = Some track"
    "Anchor track (cfg_Editions cfg) = Inr (anchor, depth)"
    "DeriveCutoff sv (pl_Series p) anchor depth = Done (Inr (pl_Cutoff p))"
    "plan_of sv cfg True now items p"
    using BuildPlan_track [OF assms(2,4)] by metis
  have s: "pl_Series p = MinorSeries sv (List.map item_version items)"
    using t(4) by (simp add: plan_of_def Let_def)
  have d: "0 \<le> depth" using Anchor_depth [OF t(2)] by auto
  have w: "window_ok sv (pl_Series p) (sv_major_minor sv (''v'' @ anchor)) (nat depth) (pl_Cutoff p)"
    by (rule DeriveCutoff_window(2) [OF assms(1) _ d t(3)]) (simp add: s MinorSeries_sorted assms(1))
  have "sv_valid sv (pl_Cutoff p)"
    using w assms(1) by (auto simp: window_ok_def s set_MinorSeries sv_valid_major_minor)
  then have "pl_Cutoff p \<noteq> []" using sv_invalid_empty [OF assms(1)] by metis
  then have "prunes sv cfg (pl_Cutoff p) True now = (\<lambda>i. item_version i \<notin> set (cfg_Exceptions cfg) \<and>
      sv_valid sv (item_version i) \<and> sv_compare sv (sv_major_minor sv (item_version i)) (pl_Cutoff p) < 0)"
    using assms(3) by (simp add: prunes_def fun_eq_iff)
  with t(4) have "pl_Packages p = List.map plan_package
      (List.filter (\<lambda>i. item_version i \<notin> set (cfg_Exceptions cfg) \<and> sv_valid sv (item_version i) \<and>
         sv_compare sv (sv_major_minor sv (item_version i)) (pl_Cutoff p) < 0) items)"
    by (simp add: plan_of_def Let_def)
  with t w show ?thesis unfolding s by blast
qed

definition wit_item :: "string \<Rightarrow> int \<Rightarrow> PackageDetail" where
  "wit_item v t = \<lparr>pd_Name = ''tyk'', pd_Version = v, pd_Arch = ''amd64'', pd_DistroVersion = ''jammy'',
     pd_Filename = ''f'', pd_Sha256Sum = ''s'', pd_Size = ''7'', pd_CreateTime = t,
     pd_DestroyURL = [], pd_DownloadURL = []\<rparr>"

definition wit_items :: "PackageDetail list" where
  "wit_items = [wit_item ''2.8.3'' 10, wit_item ''3.0.9'' 30, wit_item ''5.2.0'' 40,
     wit_item ''5.3.0'' 50, wit_item ''5.8.1'' 60, wit_item ''5.14.0'' 70, wit_item ''1.0n'' 80]"

definition wit_cfg :: pkgConfig where
  "wit_cfg = \<lparr>cfg_Exceptions = [''v3.0.9''], cfg_VersionCutoff = [], cfg_AgeCutoff = 0,
     cfg_NotBackup = False, cfg_Track = ''gw'', cfg_Editions = [''ce'']\<rparr>"

definition wit_tracks :: Tracks where
  "wit_tracks = [(''gw'', \<lparr>CurrentFeature = ''5.14'', CurrentLTS = ''5.8'', LTSMinus1 = ''5.3''\<rparr>)]"

text \<open>The intermediate values of \<open>BuildPlan\<close> on this input.\<close>

lemma wit_plan_evals:
  shows "MinorSeries ref_semver (List.map item_version wit_items)
      = [''v2.8'', ''v3.0'', ''v5.2'', ''v5.3'', ''v5.8'', ''v5.14'']"
    and "gm_get wit_tracks (cfg_Track wit_cfg)
      = Some \<lparr>CurrentFeature = ''5.14'', CurrentLTS = ''5.8'', LTSMinus1 = ''5.3''\<rparr>"
    and "Anchor \<lparr>CurrentFeature = ''5.14'', CurrentLTS = ''5.8'', LTSMinus1 = ''5.3''\<rparr> (cfg_Editions wit_cfg)
      = Inr (''5.14'', 2)"
    and "DeriveCutoff ref_semver [''v2.8'', ''v3.0'', ''v5.2'', ''v5.3'', ''v5.8'', ''v5.14''] ''5.14'' 2
      = Done (Inr ''v5.3'')"
    and "List.filter (prunes ref_semver wit_cfg ''v5.3'' True 99) wit_items
      = [wit_item ''2.8.3'' 10, wit_item ''5.2.0'' 40]"
  by code_simp+

lemma wit_plan_Done:
  "\<exists>p. BuildPlan ref_semver ''tyk'' wit_cfg wit_tracks wit_items 99 = Done (p, None) \<and> pl_Cutoff p = ''v5.3''"
proof -
  have "cfg_Track wit_cfg \<noteq> []" by (simp add: wit_cfg_def)
  then show ?thesis by (simp add: BuildPlan_def wit_plan_evals plan_items_of)
qed


theorem plan_keeps_window_witness:
  "\<exists>p. BuildPlan ref_semver ''tyk'' wit_cfg wit_tracks wit_items 99 = Done (p, None) \<and>
     pl_Cutoff p = ''v5.3'' \<and>
     (\<exists>track anchor depth. gm_get wit_tracks (cfg_Track wit_cfg) = Some track \<and>
        Anchor track (cfg_Editions wit_cfg) = Inr (anchor, depth) \<and>
        window_ok ref_semver (MinorSeries ref_semver (List.map item_version wit_items))
          (sv_major_minor ref_semver (''v'' @ anchor)) (nat depth) (pl_Cutoff p))"
proof -
  obtain p where p: "BuildPlan ref_semver ''tyk'' wit_cfg wit_tracks wit_items 99 = Done (p, None)"
    "pl_Cutoff p = ''v5.3''"
    using wit_plan_Done by blast
  have "cfg_Track wit_cfg \<noteq> []" "cfg_AgeCutoff wit_cfg = 0" by (simp_all add: wit_cfg_def)
  from plan_keeps_window [OF ref_semver_laws this p(1)] p show ?thesis by blast
qed

text \<open>
  (C23) The books of every plan balance, on every branch of the configuration: each package is
  either retained or pruned and counted once; the listed packages are the pruned ones in
  their order, with the counter equal to their number; the pruned bytes are their
  parseable sizes summed modulo \<open>2^64\<close>; the per-series counters count the pruned
  packages of that series; and no listed package is an exception or a non-version.
\<close>

theorem plan_accounts_for_every_package:
  assumes "BuildPlan sv repoName cfg tracks items now = Done (p, None)"
  shows "\<exists>pr. pl_Packages p = List.map plan_package (List.filter pr items) \<and>
     pl_Pruned p = length (List.filter pr items) \<and>
     pl_Retained p + pl_Pruned p = length items \<and>
     pl_PrunedBytes p = sum_list (List.map size_word (List.filter pr items)) \<and>
     (\<forall>s. gm_get0 0 (pl_PrunedSeries p) s
        = length (List.filter (\<lambda>i. sv_major_minor sv (item_version i) = s) (List.filter pr items))) \<and>
     list_all (\<lambda>i. item_version i \<notin> set (cfg_Exceptions cfg) \<and> sv_valid sv (item_version i))
       (List.filter pr items)"
proof -
  let ?pr = "prunes sv cfg (pl_Cutoff p) (cfg_Track cfg \<noteq> []) now"
  have po: "plan_of sv cfg (cfg_Track cfg \<noteq> []) now items p" by (rule BuildPlan_plan_of [OF assms])
  have "list_all (\<lambda>i. item_version i \<notin> set (cfg_Exceptions cfg) \<and> sv_valid sv (item_version i))
      (List.filter ?pr items)"
    by (simp add: list_all_iff prunes_def)
  with po show ?thesis
    by (intro exI [of _ ?pr]) (simp add: plan_of_def Let_def conj_commute)
qed

theorem plan_accounts_witness:
  "\<exists>p. BuildPlan ref_semver ''tyk'' wit_cfg wit_tracks wit_items 99 = Done (p, None) \<and>
     pl_Retained p + pl_Pruned p = 7"
proof -
  obtain p where p: "BuildPlan ref_semver ''tyk'' wit_cfg wit_tracks wit_items 99 = Done (p, None)"
    using wit_plan_Done by blast
  moreover have "length wit_items = 7" by (simp add: wit_items_def)
  ultimately show ?thesis using plan_accounts_for_every_package [OF p] by auto
qed

text \<open>
  (C12) A plan for a repository with static cutoffs is what \<open>pkgs clean\<close> would do: for
  every package whose version is a version, the plan lists it exactly when the filter
  that \<open>MakeFilter\<close> builds from the same configuration selects it for removal.
\<close>

theorem static_plan_previews_clean:
  assumes "semver_laws sv" "gm_get repos repoName = Some cfg" "cfg_Track cfg = []"
    and "list_all (\<lambda>i. sv_valid sv (item_version i)) items"
  shows "\<exists>p f. BuildPlan sv repoName cfg tracks items now = Done (p, None) \<and>
     MakeFilter sv repos repoName = Inr f \<and>
     pl_Packages p = List.map plan_package (List.filter (\<lambda>i. Satisfies sv f i now) items)"
proof -
  obtain p where p: "BuildPlan sv repoName cfg tracks items now = Done (p, None)"
    "plan_of sv cfg False now items p" "pl_Cutoff p = sv_canonical sv (cfg_VersionCutoff cfg)"
    using BuildPlan_static [OF assms(3), of sv repoName tracks items now] by metis
  obtain f where f: "MakeFilter sv repos repoName = Inr f"
    "f = \<lparr>ft_Exceptions = NewSetFromSlices [cfg_Exceptions cfg],
      ft_Version = sv_canonical sv (cfg_VersionCutoff cfg), ft_Age = cfg_AgeCutoff cfg,
      ft_DownloadAge = 0, ft_total = 0, ft_filtered = 0\<rparr>"
    using MakeFilter_known [OF assms(1,2)] by simp
  have "prunes sv cfg (pl_Cutoff p) False now i = Satisfies sv f i now" if "i \<in> set items" for i
    using assms(4) that by (auto simp: prunes_def Satisfies_iff f(2) p(3) list_all_iff)
  then have "List.filter (prunes sv cfg (pl_Cutoff p) False now) items
      = List.filter (\<lambda>i. Satisfies sv f i now) items"
    by (auto intro: filter_cong)
  with p f(1) show ?thesis by (simp add: plan_of_def Let_def)
qed

definition wit_static :: pkgConfig where
  "wit_static = \<lparr>cfg_Exceptions = [''v3.0.9''], cfg_VersionCutoff = ''v5'', cfg_AgeCutoff = 20,
     cfg_NotBackup = False, cfg_Track = [], cfg_Editions = []\<rparr>"

theorem static_plan_witness:
  "\<exists>p f. BuildPlan ref_semver ''tyk'' wit_static [] (butlast wit_items) 99 = Done (p, None) \<and>
     MakeFilter ref_semver [(''tyk'', wit_static)] ''tyk'' = Inr f \<and>
     pl_Packages p = List.map plan_package (List.filter (\<lambda>i. Satisfies ref_semver f i 99) (butlast wit_items))"
proof -
  have "list_all (\<lambda>i. sv_valid ref_semver (item_version i)) (butlast wit_items)" by code_simp
  then show ?thesis
    by (intro static_plan_previews_clean ref_semver_laws) (simp_all add: wit_static_def)
qed

text \<open>
  Where the preview and the removal part ways: a package whose version is not a version
  and is no exception is never listed in a plan, whatever the cutoffs, yet the filter of the
  same repository selects it as soon as it is older than a nonzero age cutoff.
\<close>

theorem plan_spares_what_clean_removes:
  assumes "semver_laws sv" "gm_get repos repoName = Some cfg" "cfg_Track cfg = []"
    and "\<not> sv_valid sv (item_version i)" "item_version i \<notin> set (cfg_Exceptions cfg)"
  shows "\<exists>p f. BuildPlan sv repoName cfg tracks [i] now = Done (p, None) \<and> pl_Packages p = [] \<and>
     MakeFilter sv repos repoName = Inr f \<and>
     Satisfies sv f i now = (cfg_AgeCutoff cfg \<noteq> 0 \<and> time_sub now (pd_CreateTime i) > cfg_AgeCutoff cfg)"
proof -
  obtain p where "BuildPlan sv repoName cfg tracks [i] now = Done (p, None)"
    "plan_of sv cfg False now [i] p"
    using BuildPlan_static [OF assms(3), of sv repoName tracks "[i]" now] by metis
  moreover from this have "pl_Packages p = []" using assms(4) by (simp add: plan_of_def Let_def prunes_def)
  ultimately show ?thesis
    using MakeFilter_known [OF assms(1,2)] assms(4,5) by (simp add: Satisfies_iff)
qed

theorem plan_spares_witness:
  "\<exists>p f. BuildPlan ref_semver ''tyk'' wit_static [] [wit_item ''1.0n'' 10] 99 = Done (p, None) \<and>
     pl_Packages p = [] \<and> MakeFilter ref_semver [(''tyk'', wit_static)] ''tyk'' = Inr f \<and>
     Satisfies ref_semver f (wit_item ''1.0n'' 10) 99"
proof -
  have nv: "\<not> sv_valid ref_semver (item_version (wit_item ''1.0n'' 10))" by code_simp
  have ne: "item_version (wit_item ''1.0n'' 10) \<notin> set (cfg_Exceptions wit_static)" by code_simp
  have age: "cfg_AgeCutoff wit_static \<noteq> 0
      \<and> time_sub 99 (pd_CreateTime (wit_item ''1.0n'' 10)) > cfg_AgeCutoff wit_static" by code_simp
  have "gm_get [(''tyk'', wit_static)] ''tyk'' = Some wit_static" "cfg_Track wit_static = []"
    by (simp_all add: wit_static_def)
  from plan_spares_what_clean_removes [OF ref_semver_laws this nv ne] age show ?thesis by blast
qed

lemma BuildPlan_cutoff:
  assumes "cfg_Track cfg \<noteq> []" "gm_get tracks (cfg_Track cfg) = Some t"
    and "Anchor t (cfg_Editions cfg) = Inr (anchor, depth)"
    and "DeriveCutoff sv (MinorSeries sv (List.map item_version items)) anchor depth = Done r"
  shows "\<exists>p. BuildPlan sv repoName cfg tracks items now
      = Done (p, case r of Inl e \<Rightarrow> Some (TrackCutoffError e) | Inr c \<Rightarrow> None)
    \<and> (isl r \<longrightarrow> pl_Packages p = [])"
  using assms by (cases r) (simp_all add: BuildPlan_def Let_def)

text \<open>
  (C33) \<open>BuildPlan\<close> never panics, and it returns an error in exactly three cases, each with
  nothing listed for pruning: the track is not configured, its editions are empty or contain an unknown
  one, or the track's anchor is not a version or has no released package.
\<close>

theorem plan_errors:
  assumes "semver_laws sv"
  shows "\<exists>p e. BuildPlan sv repoName cfg tracks items now = Done (p, e) \<and>
     (e \<noteq> None \<longleftrightarrow> cfg_Track cfg \<noteq> [] \<and>
        (case gm_get tracks (cfg_Track cfg) of
           None \<Rightarrow> True
         | Some t \<Rightarrow> cfg_Editions cfg = [] \<or> \<not> set (cfg_Editions cfg) \<subseteq> {''ce'', ''ee''} \<or>
             (let a = (if ''ee'' \<in> set (cfg_Editions cfg) then LTSMinus1 t else CurrentFeature t) in
              \<not> sv_valid sv (''v'' @ a) \<or>
              sv_major_minor sv (''v'' @ a) \<notin>
                sv_major_minor sv ` {v \<in> item_version ` set items. sv_valid sv v}))) \<and>
     (e \<noteq> None \<longrightarrow> pl_Packages p = [])"
proof (cases "cfg_Track cfg = [] \<or> gm_get tracks (cfg_Track cfg) = None")
  case True
  then show ?thesis
    using BuildPlan_static [of cfg sv repoName tracks items now]
    by (cases "cfg_Track cfg = []") (metis, simp add: BuildPlan_def Let_def)
next
  case False
  then obtain t where tr: "cfg_Track cfg \<noteq> []" "gm_get tracks (cfg_Track cfg) = Some t" by auto
  let ?es = "cfg_Editions cfg" and ?ms = "MinorSeries sv (List.map item_version items)"
  let ?a = "if ''ee'' \<in> set ?es then LTSMinus1 t else CurrentFeature t"
  show ?thesis
  proof (cases "Anchor t ?es")
    case (Inl e)
    then have "?es = [] \<or> \<not> set ?es \<subseteq> {''ce'', ''ee''}" using Anchor_Inr_iff [of t ?es] by (metis Inl sum.distinct(1))
    with tr Inl show ?thesis by (auto simp: BuildPlan_def Let_def)
  next
    case (Inr ad)
    then have es: "?es \<noteq> []" "set ?es \<subseteq> {''ce'', ''ee''}" and ad: "fst ad = ?a"
      by (auto simp: Anchor_Inr_iff)
    obtain depth where A: "Anchor t ?es = Inr (?a, depth)" and d: "0 \<le> depth"
      using Inr ad Anchor_depth [of t ?es "fst ad" "snd ad"] by (cases ad) auto
    obtain r where r: "DeriveCutoff sv ?ms ?a depth = Done r" using DeriveCutoff_total [OF d] by blast
    have "isl r \<longleftrightarrow> \<not> (sv_valid sv (''v'' @ ?a) \<and> sv_major_minor sv (''v'' @ ?a) \<in> set ?ms)"
      using DeriveCutoff_Inr_iff [OF d, of sv ?ms ?a] sv_valid_major_minor_iff [OF assms] r
      by (cases r) auto
    moreover have "set ?ms = sv_major_minor sv ` {v \<in> item_version ` set items. sv_valid sv v}"
      using set_MinorSeries [OF assms] by simp
    ultimately have "isl r \<longleftrightarrow> \<not> sv_valid sv (''v'' @ ?a) \<or> sv_major_minor sv (''v'' @ ?a) \<notin>
        sv_major_minor sv ` {v \<in> item_version ` set items. sv_valid sv v}" by simp
    with BuildPlan_cutoff [OF tr A r, of repoName now] tr es show ?thesis
      by (cases r) (auto simp: Let_def)
  qed
qed

theorem plan_errors_witness:
  "\<exists>p e. BuildPlan ref_semver ''tyk'' wit_cfg [] wit_items 99 = Done (p, Some e) \<and> pl_Packages p = []"
  using plan_errors [OF ref_semver_laws, of "''tyk''" wit_cfg "[]" wit_items 99]
  by (auto simp: wit_cfg_def)

end
