(* ===== verification/PkgClient.thy ===== *)
theory PkgClient
  imports PkgFilter "HOL-Library.Multiset"
begin

text \<open>
  \<open>pkgs/client.go\<close>: listing, backing up and deleting the packages of a repository.
  The replies of the packagecloud API, of the download server and of the file system are
  arguments of the definitions.  \<open>get\<close>, \<open>ListPackages\<close>, \<open>download\<close> and
  \<open>delete\<close> are functions of them; \<open>AllPackages\<close> and \<open>Clean\<close>, which run
  concurrently over an unbuffered channel, are the step relation \<open>clean_step\<close>.
\<close>

section \<open>Requests\<close>

text \<open>
  What can happen to a request: it cannot be built, the rate limiter refuses it, the
  transport fails, or a response arrives.  The body is given by what the JSON decoder makes
  of it (\<open>None\<close>: it does not decode) and \<open>next\<close> is the link header's URI.
\<close>

datatype page_reply =
    NoRequest string
  | NoSlot string
  | NoResponse string
  | Response nat "PackageDetail list option" string

datatype http_error =
    RequestErr string
  | LimiterErr string
  | InvalidResponse nat
  | TransportErr string

text \<open>
  \<open>func (c *Client) get(url string) (*http.Response, error, string)\<close>.  The response's
  status is read before the error of the transport is looked at.
\<close>

definition get :: "page_reply \<Rightarrow> (http_error + PackageDetail list option \<times> string) go" where
  "get r = (case r of
      NoRequest e \<Rightarrow> Done (Inl (RequestErr e))
    | NoSlot e \<Rightarrow> Done (Inl (LimiterErr e))
    | NoResponse e \<Rightarrow> Panic ''nil pointer dereference''
    | Response status items next \<Rightarrow>
        if status \<noteq> 200 then Done (Inl (InvalidResponse status)) else Done (Inr (items, next)))"

datatype list_error = GetErr http_error | ParseErr

text \<open>\<open>func (c *Client) ListPackages(repo string)\<close>: the loop over the pages.\<close>

partial_function (option) list_loop ::
  "(string \<Rightarrow> page_reply) \<Rightarrow> string \<Rightarrow> PackageDetail list \<Rightarrow> (list_error + PackageDetail list) go option" where
  "list_loop server url all =
     (case get (server url) of
        Panic m \<Rightarrow> Some (Panic m)
      | Fatal m \<Rightarrow> Some (Fatal m)
      | Done (Inl e) \<Rightarrow> Some (Done (Inl (GetErr e)))
      | Done (Inr (None, next)) \<Rightarrow> Some (Done (Inl ParseErr))
      | Done (Inr (Some items, next)) \<Rightarrow>
          if next = [] then Some (Done (Inr (all @ items)))
          else list_loop server next (all @ items))"

definition repo_url :: "string \<Rightarrow> string \<Rightarrow> string" where
  "repo_url owner repo =
     ''https://packagecloud.io/api/v1/repos/'' @ owner @ ''/'' @ repo @ ''/packages.json''"

definition ListPackages ::
  "(string \<Rightarrow> page_reply) \<Rightarrow> string \<Rightarrow> string \<Rightarrow> (list_error + PackageDetail list) go option" where
  "ListPackages server owner repo = list_loop server (repo_url owner repo) []"

section \<open>Backup\<close>

text \<open>The environment of one download: the errors of the file system, and the reply.\<close>

datatype body_reply = GetFailed string | Body nat string bool

record dl_env =
  env_mkdir :: "string option"
  env_root :: "string option"
  env_open :: "string option"
  env_create :: "string option"
  env_get :: body_reply

datatype dl_error =
    MkdirErr string
  | OpenRootErr string
  | CreateErr string
  | DownloadErr string
  | BadStatus nat
  | WriteErr

type_synonym files = "(string, string) gomap"

definition item_path :: "string \<Rightarrow> PackageDetail \<Rightarrow> string" where
  "item_path savedir item =
     savedir @ ''/'' @ pd_Name item @ ''/'' @ pd_DistroVersion item @ ''/'' @ pd_Filename item"

text \<open>
  \<open>func (c *Client) download(item, savedir) error\<close>; \<open>sha\<close> is the hex SHA-256 of a
  file's content.  The third component of \<open>Body\<close> says whether the copy finished; the
  bytes received are written either way, into a file that was truncated first.
\<close>

definition download ::
  "(string \<Rightarrow> string) \<Rightarrow> dl_env \<Rightarrow> PackageDetail \<Rightarrow> string \<Rightarrow> files \<Rightarrow> dl_error option \<times> files" where
  "download sha env item savedir fs =
     (case env_mkdir env of Some e \<Rightarrow> (Some (MkdirErr e), fs) | None \<Rightarrow>
      case env_root env of Some e \<Rightarrow> (Some (OpenRootErr e), fs) | None \<Rightarrow>
      let path = item_path savedir item;
          f = (if env_open env = None then gm_get fs path else None);
          sha256sum = (case f of Some content \<Rightarrow> sha content | None \<Rightarrow> [])
      in if sha256sum \<noteq> pd_Sha256Sum item then
           case env_create env of Some e \<Rightarrow> (Some (CreateErr e), fs) | None \<Rightarrow>
           let fs = gm_put path [] fs in
           case env_get env of
             GetFailed e \<Rightarrow> (Some (DownloadErr e), fs)
           | Body status bytes complete \<Rightarrow>
               if status \<noteq> 200 then (Some (BadStatus status), fs)
               else (if complete then None else Some WriteErr, gm_put path bytes fs)
         else (None, fs))"

section \<open>Deletion\<close>

datatype delete_reply =
    DelBadURL string
  | DelNoRequest string
  | DelNoSlot string
  | DelNoResponse
  | DelResponse nat

datatype del_error =
    DelURLErr string
  | DelRequestErr string
  | DelLimiterErr string
  | DelHttpErr
  | DelInvalid nat

text \<open>\<open>func (c *Client) delete(item pc.PackageDetail) error\<close>\<close>

definition delete_pkg :: "delete_reply \<Rightarrow> del_error option" where
  "delete_pkg r = (case r of
      DelBadURL e \<Rightarrow> Some (DelURLErr e)
    | DelNoRequest e \<Rightarrow> Some (DelRequestErr e)
    | DelNoSlot e \<Rightarrow> Some (DelLimiterErr e)
    | DelNoResponse \<Rightarrow> Some DelHttpErr
    | DelResponse status \<Rightarrow> if status \<noteq> 200 then Some (DelInvalid status) else None)"

section \<open>Concurrent cleaning\<close>

text \<open>\<open>type CleanConfig struct\<close>\<close>

record CleanConfig =
  cc_Concurrency :: int
  cc_Savedir :: string
  cc_Delete :: bool
  cc_Backup :: bool
  cc_RepoName :: string
  cc_Progress :: bool

text \<open>
  The goroutine of \<open>AllPackages\<close>: about to fetch a page, going through the items of a
  page, blocked on the channel with an item, or finished (the channel is closed).  A panic
  in it ends the process.
\<close>

datatype producer =
    Fetch string
  | Page "PackageDetail list" string
  | Offer PackageDetail "PackageDetail list" string
  | Closed "list_error option"
  | Crashed

text \<open>
  A goroutine of \<open>Clean\<close>: waiting on the channel, with an item just received, with the
  item after the backup step, or returned.
\<close>

datatype worker = Idle | Got PackageDetail | Backed PackageDetail | Exited

datatype event =
    Listed "PackageDetail list"
  | Skipped PackageDetail
  | Handed PackageDetail
  | Saved PackageDetail "string option"
  | SaveFailed PackageDetail dl_error
  | Deleted PackageDetail
  | DeleteFailed PackageDetail del_error
  | Kept PackageDetail

record clean_state =
  cs_prod :: producer
  cs_filter :: Filter
  cs_workers :: "worker list"
  cs_files :: files
  cs_progress :: nat
  cs_log :: "event list"

text \<open>The newest event comes first in the log.\<close>

definition clean_init :: "string \<Rightarrow> Filter \<Rightarrow> CleanConfig \<Rightarrow> files \<Rightarrow> clean_state" where
  "clean_init url f cc fs =
     \<lparr>cs_prod = Fetch url, cs_filter = f, cs_workers = replicate (nat (cc_Concurrency cc)) Idle,
      cs_files = fs, cs_progress = 0, cs_log = []\<rparr>"

definition emit :: "event \<Rightarrow> clean_state \<Rightarrow> clean_state" where
  "emit e s = s\<lparr>cs_log := e # cs_log s\<rparr>"

definition set_worker :: "nat \<Rightarrow> worker \<Rightarrow> clean_state \<Rightarrow> clean_state" where
  "set_worker w x s = s\<lparr>cs_workers := (cs_workers s)[w := x]\<rparr>"

text \<open>The producer after a reply to its request.\<close>

definition fetch_page :: "page_reply \<Rightarrow> clean_state \<Rightarrow> clean_state" where
  "fetch_page r s = (case get r of
      Panic m \<Rightarrow> s\<lparr>cs_prod := Crashed\<rparr>
    | Fatal m \<Rightarrow> s\<lparr>cs_prod := Crashed\<rparr>
    | Done (Inl e) \<Rightarrow> s\<lparr>cs_prod := Closed (Some (GetErr e))\<rparr>
    | Done (Inr (None, next)) \<Rightarrow> s\<lparr>cs_prod := Closed (Some ParseErr)\<rparr>
    | Done (Inr (Some items, next)) \<Rightarrow> emit (Listed items) (s\<lparr>cs_prod := Page items next\<rparr>))"

text \<open>One round of the loop over the items of a page, at time \<open>now\<close>.\<close>

definition look_at :: "semver \<Rightarrow> int \<Rightarrow> PackageDetail \<Rightarrow> PackageDetail list \<Rightarrow> string \<Rightarrow> clean_state \<Rightarrow> clean_state" where
  "look_at sv now item items next s =
     (let s = s\<lparr>cs_filter := IncTotal (cs_filter s)\<rparr> in
      if Satisfies sv (cs_filter s) item now then s\<lparr>cs_prod := Offer item items next\<rparr>
      else emit (Skipped item) (s\<lparr>cs_prod := Page items next\<rparr>))"

text \<open>The two sides of \<open>ch <- item\<close> and the producer's \<open>IncFiltered\<close> after it.\<close>

definition hand_over :: "PackageDetail \<Rightarrow> PackageDetail list \<Rightarrow> string \<Rightarrow> nat \<Rightarrow> clean_state \<Rightarrow> clean_state" where
  "hand_over item items next w s =
     emit (Handed item)
       (set_worker w (Got item) (s\<lparr>cs_prod := Page items next, cs_filter := IncFiltered (cs_filter s)\<rparr>))"

text \<open>The backup part of a worker's loop body.\<close>

definition backup_item ::
  "(string \<Rightarrow> string) \<Rightarrow> CleanConfig \<Rightarrow> dl_env \<Rightarrow> PackageDetail \<Rightarrow> nat \<Rightarrow> clean_state \<Rightarrow> clean_state" where
  "backup_item sha cc env item w s =
     (if cc_Backup cc then
        (case download sha env item (cc_Savedir cc) (cs_files s) of
           (Some e, fs) \<Rightarrow> emit (SaveFailed item e) (set_worker w Idle (s\<lparr>cs_files := fs\<rparr>))
         | (None, fs) \<Rightarrow>
             emit (Saved item (gm_get fs (item_path (cc_Savedir cc) item)))
               (set_worker w (Backed item) (s\<lparr>cs_files := fs\<rparr>)))
      else set_worker w (Backed item) s)"

text \<open>The deletion part of a worker's loop body.\<close>

definition delete_item :: "CleanConfig \<Rightarrow> delete_reply \<Rightarrow> PackageDetail \<Rightarrow> nat \<Rightarrow> clean_state \<Rightarrow> clean_state" where
  "delete_item cc r item w s =
     (if cc_Delete cc then
        (case delete_pkg r of
           Some e \<Rightarrow> emit (DeleteFailed item e) (set_worker w Idle s)
         | None \<Rightarrow> emit (Deleted item) (set_worker w Idle (s\<lparr>cs_progress := Suc (cs_progress s)\<rparr>)))
      else emit (Kept item) (set_worker w Idle (s\<lparr>cs_progress := Suc (cs_progress s)\<rparr>)))"

text \<open>
  The interleavings of \<open>AllPackages\<close> and \<open>Clean\<close>.  A download is one step: workers
  interleave between the operations of their loop bodies.
\<close>

inductive clean_step :: "semver \<Rightarrow> (string \<Rightarrow> string) \<Rightarrow> CleanConfig \<Rightarrow> clean_state \<Rightarrow> clean_state \<Rightarrow> bool"
  for sv :: semver and sha :: "string \<Rightarrow> string" and cc :: CleanConfig where
  fetch: "cs_prod s = Fetch url \<Longrightarrow> clean_step sv sha cc s (fetch_page r s)"
| look: "cs_prod s = Page (item # items) next \<Longrightarrow> clean_step sv sha cc s (look_at sv now item items next s)"
| page_end: "cs_prod s = Page [] next \<Longrightarrow>
    clean_step sv sha cc s (s\<lparr>cs_prod := if next = [] then Closed None else Fetch next\<rparr>)"
| hand: "cs_prod s = Offer item items next \<Longrightarrow> w < length (cs_workers s) \<Longrightarrow> cs_workers s ! w = Idle \<Longrightarrow>
    clean_step sv sha cc s (hand_over item items next w s)"
| backup: "cs_prod s \<noteq> Crashed \<Longrightarrow> w < length (cs_workers s) \<Longrightarrow> cs_workers s ! w = Got item \<Longrightarrow>
    clean_step sv sha cc s (backup_item sha cc env item w s)"
| remove: "cs_prod s \<noteq> Crashed \<Longrightarrow> w < length (cs_workers s) \<Longrightarrow> cs_workers s ! w = Backed item \<Longrightarrow>
    clean_step sv sha cc s (delete_item cc r item w s)"
| leave: "cs_prod s = Closed e \<Longrightarrow> w < length (cs_workers s) \<Longrightarrow> cs_workers s ! w = Idle \<Longrightarrow>
    clean_step sv sha cc s (set_worker w Exited s)"

inductive clean_reach :: "semver \<Rightarrow> (string \<Rightarrow> string) \<Rightarrow> CleanConfig \<Rightarrow> clean_state \<Rightarrow> clean_state \<Rightarrow> bool"
  for sv :: semver and sha :: "string \<Rightarrow> string" and cc :: CleanConfig and s0 :: clean_state where
  start: "clean_reach sv sha cc s0 s0"
| step: "clean_reach sv sha cc s0 s \<Longrightarrow> clean_step sv sha cc s t \<Longrightarrow> clean_reach sv sha cc s0 t"

section \<open>Single operations\<close>

lemma list_loop_step:
  "get (server url) = Done (Inr (Some items, nxt)) \<Longrightarrow> list_loop server url all
     = (if nxt = [] then Some (Done (Inr (all @ items))) else list_loop server nxt (all @ items))"
  by (subst list_loop.simps) simp

text \<open>\<open>pages server url ps\<close>: following the next links from \<open>url\<close> yields the pages \<open>ps\<close>.\<close>

fun pages :: "(string \<Rightarrow> page_reply) \<Rightarrow> string \<Rightarrow> PackageDetail list list \<Rightarrow> bool" where
  "pages server url [] \<longleftrightarrow> False"
| "pages server url [p] \<longleftrightarrow> server url = Response 200 (Some p) []"
| "pages server url (p # q # ps) \<longleftrightarrow>
     (\<exists>next. next \<noteq> [] \<and> server url = Response 200 (Some p) next \<and> pages server next (q # ps))"

lemma list_loop_pages:
  "pages server url ps \<Longrightarrow> list_loop server url all = Some (Done (Inr (all @ concat ps)))"
proof (induction server url ps arbitrary: all rule: pages.induct)
  case (2 server url p)
  then have "get (server url) = Done (Inr (Some p, []))" by (simp add: get_def)
  then show ?case by (simp add: list_loop_step [where items = p and nxt = "[]"])
next
  case (3 server url p q ps)
  then obtain next' where n: "next' \<noteq> []" "server url = Response 200 (Some p) next'"
    "pages server next' (q # ps)" by auto
  then have "get (server url) = Done (Inr (Some p, next'))" by (simp add: get_def)
  with n(1) 3(1) [OF n(3)] show ?case by (simp add: list_loop_step [where items = p and nxt = next'])
qed simp

text \<open>What is on disk when \<open>download\<close> reports success, and that it touches one path only.\<close>

lemma download_ok:
  assumes "download sha env item savedir fs = (None, fs')"
  shows "case gm_get fs' (item_path savedir item) of
      None \<Rightarrow> pd_Sha256Sum item = []
    | Some c \<Rightarrow> sha c = pd_Sha256Sum item \<or> env_get env = Body 200 c True \<or>
        env_open env \<noteq> None \<and> pd_Sha256Sum item = []"
  using assms
  by (auto simp: download_def Let_def update_conv split: option.splits body_reply.splits if_splits)

lemma download_frame:
  "path \<noteq> item_path savedir item \<Longrightarrow>
     gm_get (snd (download sha env item savedir fs)) path = gm_get fs path"
  by (auto simp: download_def Let_def update_conv split: option.splits body_reply.splits)

section \<open>Invariants of cleaning\<close>

interpretation cleaning: transition_system s0 "clean_step sv sha cc" "clean_reach sv sha cc s0"
  for sv sha cc s0
proof
  show "I s" if "clean_reach sv sha cc s0 s" "I s0" "\<And>x y. I x \<Longrightarrow> clean_step sv sha cc x y \<Longrightarrow> I y" for I s
    using that(1) by induction (use that(2,3) in blast)+
qed (auto intro: clean_reach.intros)

lemma emit_sel [simp]:
  "cs_prod (emit e s) = cs_prod s" "cs_filter (emit e s) = cs_filter s"
  "cs_workers (emit e s) = cs_workers s" "cs_files (emit e s) = cs_files s"
  "cs_progress (emit e s) = cs_progress s" "cs_log (emit e s) = e # cs_log s"
  by (simp_all add: emit_def)

lemma set_worker_sel [simp]:
  "cs_prod (set_worker w x s) = cs_prod s" "cs_filter (set_worker w x s) = cs_filter s"
  "cs_workers (set_worker w x s) = (cs_workers s)[w := x]" "cs_files (set_worker w x s) = cs_files s"
  "cs_progress (set_worker w x s) = cs_progress s" "cs_log (set_worker w x s) = cs_log s"
  by (simp_all add: set_worker_def)

text \<open>
  The effect of each step on the part of the state the invariants talk about.
\<close>

lemma fetch_page_cases:
  "(\<exists>p. fetch_page r s = s\<lparr>cs_prod := p\<rparr> \<and> (p = Crashed \<or> (\<exists>e. p = Closed (Some e)))) \<or>
   (\<exists>items nxt. fetch_page r s = emit (Listed items) (s\<lparr>cs_prod := Page items nxt\<rparr>))"
  by (cases "get r") (auto simp: fetch_page_def split: sum.splits option.splits)

lemma backup_item_cases:
  "\<not> cc_Backup cc \<and> backup_item sha cc env item w s = set_worker w (Backed item) s \<or>
   cc_Backup cc \<and> (\<exists>e fs. backup_item sha cc env item w s
       = emit (SaveFailed item e) (set_worker w Idle (s\<lparr>cs_files := fs\<rparr>))) \<or>
   cc_Backup cc \<and> (\<exists>fs c. (c = None \<longrightarrow> pd_Sha256Sum item = []) \<and> backup_item sha cc env item w s
       = emit (Saved item c) (set_worker w (Backed item) (s\<lparr>cs_files := fs\<rparr>)))"
proof -
  obtain r fs where d: "download sha env item (cc_Savedir cc) (cs_files s) = (r, fs)" by force
  show ?thesis
  proof (cases r)
    case None
    with download_ok [of sha env item "cc_Savedir cc" "cs_files s" fs] d
    have "gm_get fs (item_path (cc_Savedir cc) item) = None \<longrightarrow> pd_Sha256Sum item = []" by auto
    moreover have "cc_Backup cc \<Longrightarrow> backup_item sha cc env item w s
        = emit (Saved item (gm_get fs (item_path (cc_Savedir cc) item)))
            (set_worker w (Backed item) (s\<lparr>cs_files := fs\<rparr>))"
      using None d by (simp add: backup_item_def)
    moreover have "\<not> cc_Backup cc \<Longrightarrow> backup_item sha cc env item w s = set_worker w (Backed item) s"
      by (simp add: backup_item_def)
    ultimately show ?thesis by metis
  next
    case (Some e)
    with d show ?thesis unfolding backup_item_def by (cases "cc_Backup cc") auto
  qed
qed

lemma delete_item_cases:
  "(\<exists>e. delete_item cc r item w s = emit (DeleteFailed item e) (set_worker w Idle s)) \<or>
   (\<exists>e. (e = Deleted item \<and> cc_Delete cc \<or> e = Kept item) \<and> delete_item cc r item w s
      = emit e (set_worker w Idle (s\<lparr>cs_progress := Suc (cs_progress s)\<rparr>)))"
  by (cases "delete_pkg r"; cases "cc_Delete cc") (auto simp: delete_item_def)

text \<open>Nothing is deleted that was not handed over and, if required, saved before.\<close>

fun log_ok :: "CleanConfig \<Rightarrow> event list \<Rightarrow> bool" where
  "log_ok cc [] \<longleftrightarrow> True"
| "log_ok cc (e # es) \<longleftrightarrow> log_ok cc es \<and>
     (case e of Deleted i \<Rightarrow> cc_Delete cc \<and> Handed i \<in> set es \<and>
                  (cc_Backup cc \<longrightarrow> (\<exists>c. Saved i c \<in> set es))
      | Saved i None \<Rightarrow> pd_Sha256Sum i = []
      | _ \<Rightarrow> True)"

definition work_inv :: "CleanConfig \<Rightarrow> clean_state \<Rightarrow> bool" where
  "work_inv cc s \<longleftrightarrow> log_ok cc (cs_log s) \<and>
     (\<forall>i. Got i \<in> set (cs_workers s) \<longrightarrow> Handed i \<in> set (cs_log s)) \<and>
     (\<forall>i. Backed i \<in> set (cs_workers s) \<longrightarrow> Handed i \<in> set (cs_log s) \<and>
        (cc_Backup cc \<longrightarrow> (\<exists>c. Saved i c \<in> set (cs_log s))))"

lemma work_inv_step:
  assumes "work_inv cc s" "clean_step sv sha cc s t"
  shows "work_inv cc t"
  using assms(2)
proof cases
  case (fetch url r)
  show ?thesis
    using fetch_page_cases [of r s] assms(1) by (auto simp: fetch(1) work_inv_def)
next
  case (look item items nxt now)
  then show ?thesis using assms(1) by (auto simp: work_inv_def look_at_def Let_def)
next
  case (hand item items nxt w)
  then show ?thesis using assms(1)
    by (auto simp: work_inv_def hand_over_def dest!: set_update_subset_insert [THEN subsetD])
next
  case (backup w item env)
  have g: "Handed item \<in> set (cs_log s)"
    using assms(1) backup(3,4) nth_mem [of w "cs_workers s"] by (auto simp: work_inv_def)
  show ?thesis
    using backup_item_cases [of cc sha env item w s]
  proof (elim disjE conjE exE)
    fix fs c
    assume "cc_Backup cc" "c = None \<longrightarrow> pd_Sha256Sum item = []"
      "backup_item sha cc env item w s = emit (Saved item c) (set_worker w (Backed item) (s\<lparr>cs_files := fs\<rparr>))"
    then show ?thesis using assms(1) g unfolding backup(1)
      by (auto simp: work_inv_def dest!: set_update_subset_insert [THEN subsetD] split: option.splits)
  qed (use assms(1) g in \<open>auto simp: backup(1) work_inv_def dest!: set_update_subset_insert [THEN subsetD]\<close>)
next
  case (remove w item r)
  have g: "Handed item \<in> set (cs_log s)" "cc_Backup cc \<longrightarrow> (\<exists>c. Saved item c \<in> set (cs_log s))"
    using assms(1) remove(3,4) nth_mem [of w "cs_workers s"] by (auto simp: work_inv_def)
  show ?thesis
    using delete_item_cases [of cc r item w s] assms(1) g
    by (auto simp: remove(1) work_inv_def dest!: set_update_subset_insert [THEN subsetD])
qed (use assms(1) in \<open>auto simp: work_inv_def dest!: set_update_subset_insert [THEN subsetD]\<close>)

text \<open>Whatever is handed to a worker was selected by the filter the run started with.\<close>

definition same_filter :: "Filter \<Rightarrow> Filter \<Rightarrow> bool" where
  "same_filter f g \<longleftrightarrow> ft_Exceptions f = ft_Exceptions g \<and> ft_Version f = ft_Version g \<and> ft_Age f = ft_Age g"

lemma same_filter_Satisfies: "same_filter f g \<Longrightarrow> Satisfies sv f i now = Satisfies sv g i now"
  by (simp add: same_filter_def Satisfies_iff)

lemma same_filter_Inc [simp]: "same_filter (IncTotal f) g = same_filter f g"
  "same_filter (IncFiltered f) g = same_filter f g"
  by (simp_all add: same_filter_def IncTotal_def IncFiltered_def)

definition filter_inv :: "semver \<Rightarrow> Filter \<Rightarrow> clean_state \<Rightarrow> bool" where
  "filter_inv sv f s \<longleftrightarrow> same_filter (cs_filter s) f \<and>
     (\<forall>i items next. cs_prod s = Offer i items next \<longrightarrow> (\<exists>now. Satisfies sv f i now)) \<and>
     (\<forall>i. Handed i \<in> set (cs_log s) \<longrightarrow> (\<exists>now. Satisfies sv f i now))"

lemma filter_inv_step:
  assumes "filter_inv sv f s" "clean_step sv sha cc s t"
  shows "filter_inv sv f t"
  using assms(2)
proof cases
  case (fetch url r)
  show ?thesis
    using fetch_page_cases [of r s] assms(1) by (auto simp: fetch(1) filter_inv_def)
next
  case (look item items nxt now)
  have "Satisfies sv (IncTotal (cs_filter s)) item now = Satisfies sv f item now"
    using assms(1) by (intro same_filter_Satisfies) (simp add: filter_inv_def)
  then show ?thesis using assms(1) by (auto simp: look filter_inv_def look_at_def Let_def)
next
  case (backup w item env)
  show ?thesis
    using backup_item_cases [of cc sha env item w s] assms(1) by (auto simp: backup(1) filter_inv_def)
next
  case (remove w item r)
  show ?thesis
    using delete_item_cases [of cc r item w s] assms(1) by (auto simp: remove(1) filter_inv_def)
qed (use assms(1) in \<open>auto simp: filter_inv_def hand_over_def\<close>)

text \<open>
  The books of a run: the items seen so far, in order, then those still to come on the current
  page are the items listed; every item handed over is with a worker or has one outcome.
\<close>

fun seen_of :: "event list \<Rightarrow> PackageDetail list" where
  "seen_of [] = []"
| "seen_of (Skipped i # es) = seen_of es @ [i]"
| "seen_of (Handed i # es) = seen_of es @ [i]"
| "seen_of (_ # es) = seen_of es"

fun listed_of :: "event list \<Rightarrow> PackageDetail list" where
  "listed_of [] = []"
| "listed_of (Listed items # es) = listed_of es @ items"
| "listed_of (_ # es) = listed_of es"

fun handed_of :: "event list \<Rightarrow> PackageDetail multiset" where
  "handed_of [] = {#}"
| "handed_of (Handed i # es) = add_mset i (handed_of es)"
| "handed_of (_ # es) = handed_of es"

fun outcome :: "event \<Rightarrow> PackageDetail multiset" where
  "outcome (SaveFailed i e) = {#i#}"
| "outcome (Deleted i) = {#i#}"
| "outcome (DeleteFailed i e) = {#i#}"
| "outcome (Kept i) = {#i#}"
| "outcome _ = {#}"

definition outcomes :: "event list \<Rightarrow> PackageDetail multiset" where
  "outcomes es = sum_list (List.map outcome es)"

fun busy :: "worker \<Rightarrow> PackageDetail multiset" where
  "busy (Got i) = {#i#}"
| "busy (Backed i) = {#i#}"
| "busy _ = {#}"

definition in_work :: "worker list \<Rightarrow> PackageDetail multiset" where
  "in_work ws = sum_list (List.map busy ws)"

fun coming :: "producer \<Rightarrow> PackageDetail list" where
  "coming (Page items nxt) = items"
| "coming (Offer i items nxt) = i # items"
| "coming _ = []"

definition books :: "clean_state \<Rightarrow> bool" where
  "books s \<longleftrightarrow>
     listed_of (cs_log s) = seen_of (cs_log s) @ coming (cs_prod s) \<and>
     handed_of (cs_log s) = outcomes (cs_log s) + in_work (cs_workers s) \<and>
     ft_filtered (cs_filter s) = size (handed_of (cs_log s)) \<and>
     ft_total (cs_filter s) = length (seen_of (cs_log s))
       + (case cs_prod s of Offer _ _ _ \<Rightarrow> 1 | _ \<Rightarrow> 0)"

lemma sum_list_update_mset:
  "w < length ws \<Longrightarrow> sum_list (List.map f (ws[w := x])) + f (ws ! w) = sum_list (List.map f ws) + (f x :: 'a multiset)"
proof (induction ws arbitrary: w)
  case (Cons y ws)
  then show ?case by (cases w) (auto simp: ac_simps)
qed simp

lemma in_work_update:
  "w < length ws \<Longrightarrow> in_work (ws[w := x]) + busy (ws ! w) = in_work ws + busy x"
  unfolding in_work_def by (rule sum_list_update_mset)

lemma outcomes_Cons [simp]: "outcomes (e # es) = outcome e + outcomes es"
  by (simp add: outcomes_def)

lemma Inc_sel [simp]:
  "ft_total (IncTotal f) = Suc (ft_total f)" "ft_filtered (IncTotal f) = ft_filtered f"
  "ft_total (IncFiltered f) = ft_total f" "ft_filtered (IncFiltered f) = Suc (ft_filtered f)"
  by (simp_all add: IncTotal_def IncFiltered_def)

lemma books_step:
  assumes "books s" "clean_step sv sha cc s t"
  shows "books t"
  using assms(2)
proof cases
  case (fetch url r)
  show ?thesis
    using fetch_page_cases [of r s] assms(1) fetch(2) by (auto simp: fetch(1) books_def)
next
  case (look item items nxt now)
  then show ?thesis using assms(1) by (auto simp: books_def look_at_def Let_def)
next
  case (page_end nxt)
  then show ?thesis using assms(1) by (auto simp: books_def)
next
  case (hand item items nxt w)
  then show ?thesis using assms(1) in_work_update [of w "cs_workers s" "Got item"]
    by (auto simp: books_def hand_over_def)
next
  case (backup w item env)
  have *: "in_work ((cs_workers s)[w := Idle]) + {#item#} = in_work (cs_workers s)"
    "in_work ((cs_workers s)[w := Backed item]) = in_work (cs_workers s)"
    using in_work_update [OF backup(3), of Idle] in_work_update [OF backup(3), of "Backed item"] backup(4)
    by simp_all
  show ?thesis
    using backup_item_cases [of cc sha env item w s] assms(1) * by (auto simp: backup(1) books_def)
next
  case (remove w item r)
  have *: "in_work ((cs_workers s)[w := Idle]) + {#item#} = in_work (cs_workers s)"
    using in_work_update [OF remove(3), of Idle] remove(4) by simp
  show ?thesis
    using delete_item_cases [of cc r item w s] assms(1) * by (auto simp: remove(1) books_def)
next
  case (leave e w)
  then show ?thesis using assms(1) in_work_update [of w "cs_workers s" Exited]
    by (auto simp: books_def)
qed

lemma books_reach:
  assumes "clean_reach sv sha cc (clean_init url f cc fs) s" "ft_total f = 0" "ft_filtered f = 0"
  shows "books s"
proof -
  have "sum_list (List.map busy (replicate n Idle)) = {#}" for n by (induction n) auto
  then have "books (clean_init url f cc fs)"
    using assms(2,3) by (simp add: books_def clean_init_def outcomes_def in_work_def)
  with assms(1) show ?thesis by (rule cleaning.invariant) (rule books_step)
qed

text \<open>A package that was handed to a worker was listed by the API in this run.\<close>

lemma handed_was_listed:
  assumes "clean_reach sv sha cc (clean_init url f cc fs) s" "ft_total f = 0" "ft_filtered f = 0"
    and "Handed i \<in> set (cs_log s)"
  shows "i \<in> set (listed_of (cs_log s))"
proof -
  have "Handed i \<in> set es \<Longrightarrow> i \<in> set (seen_of es)" for es
    by (induction es rule: seen_of.induct) auto
  with books_reach [OF assms(1-3)] assms(4) show ?thesis by (simp add: books_def)
qed

text \<open>No worker returns before the channel is closed, and none is lost.\<close>

definition staffed :: "nat \<Rightarrow> clean_state \<Rightarrow> bool" where
  "staffed n s \<longleftrightarrow> length (cs_workers s) = n \<and>
     (Exited \<in> set (cs_workers s) \<longrightarrow> (\<exists>e. cs_prod s = Closed e))"

lemma staffed_step:
  assumes "staffed n s" "clean_step sv sha cc s t"
  shows "staffed n t"
  using assms(2)
proof cases
  case (fetch url r)
  show ?thesis
    using fetch_page_cases [of r s] assms(1) fetch(2) by (auto simp: fetch(1) staffed_def)
next
  case (backup w item env)
  show ?thesis
    using backup_item_cases [of cc sha env item w s] assms(1)
    by (auto simp: backup(1) staffed_def dest!: set_update_subset_insert [THEN subsetD])
next
  case (remove w item r)
  show ?thesis
    using delete_item_cases [of cc r item w s] assms(1)
    by (auto simp: remove(1) staffed_def dest!: set_update_subset_insert [THEN subsetD])
qed (use assms(1) in \<open>auto simp: staffed_def hand_over_def look_at_def Let_def
       dest!: set_update_subset_insert [THEN subsetD]\<close>)

text \<open>Work left until the next page request.\<close>

fun prod_left :: "producer \<Rightarrow> nat" where
  "prod_left (Page items nxt) = 5 * length items + 1"
| "prod_left (Offer i items nxt) = 5 * length items + 5"
| "prod_left _ = 0"

fun worker_left :: "worker \<Rightarrow> nat" where
  "worker_left (Got i) = 3" | "worker_left (Backed i) = 2" | "worker_left Idle = 1" | "worker_left Exited = 0"

definition clean_left :: "clean_state \<Rightarrow> nat" where
  "clean_left s = prod_left (cs_prod s) + sum_list (List.map worker_left (cs_workers s))"

lemma sum_list_update_nat:
  "w < length ws \<Longrightarrow> sum_list (List.map f (ws[w := x])) + f (ws ! w) = sum_list (List.map f ws) + (f x :: nat)"
proof (induction ws arbitrary: w)
  case (Cons y ws)
  then show ?case by (cases w) auto
qed simp

lemma clean_left_step:
  assumes "clean_step sv sha cc s t" "\<And>url. cs_prod s \<noteq> Fetch url"
  shows "clean_left t < clean_left s"
  using assms(1)
proof cases
  case (fetch url r)
  then show ?thesis using assms(2) by simp
next
  case (look item items nxt now)
  then show ?thesis by (auto simp: clean_left_def look_at_def Let_def)
next
  case (page_end nxt)
  then show ?thesis by (auto simp: clean_left_def)
next
  case (hand item items nxt w)
  then show ?thesis using sum_list_update_nat [of w "cs_workers s" worker_left "Got item"]
    by (simp add: clean_left_def hand_over_def)
next
  case (backup w item env)
  show ?thesis
    using backup_item_cases [of cc sha env item w s] backup(4)
      sum_list_update_nat [OF backup(3), of worker_left Idle]
      sum_list_update_nat [OF backup(3), of worker_left "Backed item"]
    by (auto simp: backup(1) clean_left_def)
next
  case (remove w item r)
  show ?thesis
    using delete_item_cases [of cc r item w s] remove(4)
      sum_list_update_nat [OF remove(3), of worker_left Idle]
    by (auto simp: remove(1) clean_left_def)
next
  case (leave e w)
  then show ?thesis using sum_list_update_nat [of w "cs_workers s" worker_left Exited]
    by (simp add: clean_left_def)
qed

lemma clean_can_step:
  assumes "staffed n s" "0 < n" "cs_prod s \<noteq> Crashed"
  shows "(\<exists>e. cs_prod s = Closed e \<and> set (cs_workers s) \<subseteq> {Exited}) \<or> (\<exists>t. clean_step sv sha cc s t)"
proof (cases "\<exists>w < length (cs_workers s). \<exists>i. cs_workers s ! w \<in> {Got i, Backed i}")
  case True
  then obtain w i where "w < length (cs_workers s)" "cs_workers s ! w \<in> {Got i, Backed i}" by auto
  then show ?thesis
    using assms(3) clean_step.backup [of s w i sv sha cc] clean_step.remove [of s w i sv sha cc] by blast
next
  case False
  have kinds: "x = Idle \<or> x = Exited" if x: "x \<in> set (cs_workers s)" for x
  proof -
    obtain w where "w < length (cs_workers s)" "cs_workers s ! w = x" using x by (auto simp: in_set_conv_nth)
    with False show ?thesis by (cases x) auto
  qed
  show ?thesis
  proof (cases "cs_prod s")
    case (Offer i items nxt)
    then have "Exited \<notin> set (cs_workers s)" using assms(1) by (auto simp: staffed_def)
    moreover have l: "0 < length (cs_workers s)" using assms(1,2) by (simp add: staffed_def)
    ultimately have "cs_workers s ! 0 = Idle" using kinds [of "cs_workers s ! 0"] nth_mem [OF l] by metis
    with Offer l show ?thesis by (blast intro: clean_step.hand)
  next
    case (Closed e)
    show ?thesis
    proof (cases "Idle \<in> set (cs_workers s)")
      case True
      with Closed show ?thesis by (auto simp: in_set_conv_nth intro: clean_step.leave)
    next
      case False
      then have "set (cs_workers s) \<subseteq> {Exited}" using kinds by auto
      with Closed show ?thesis by auto
    qed
  next
    case (Page items nxt)
    then show ?thesis by (cases items) (blast intro: clean_step.page_end clean_step.look)+
  qed (use assms(3) in \<open>auto intro: clean_step.fetch\<close>)
qed

lemma work_inv_reach: "clean_reach sv sha cc (clean_init url f cc fs) s \<Longrightarrow> work_inv cc s"
  by (erule cleaning.invariant) (simp add: work_inv_def clean_init_def, rule work_inv_step)

lemma deleted_after_saved:
  assumes "clean_reach sv sha cc (clean_init url f cc fs) s"
    and "cs_log s = newer @ Deleted item # older"
  shows "cc_Delete cc \<and> (\<exists>now. Satisfies sv f item now) \<and>
     (cc_Backup cc \<longrightarrow> (\<exists>c. Saved item c \<in> set older \<and> (pd_Sha256Sum item \<noteq> [] \<longrightarrow> c \<noteq> None)))"
proof -
  have w: "work_inv cc s" using assms(1) by (rule work_inv_reach)
  have fi: "filter_inv sv f s"
    using assms(1)
    by (rule cleaning.invariant)
      (simp add: filter_inv_def same_filter_def clean_init_def, rule filter_inv_step)
  have pre: "log_ok cc (xs @ ys) \<Longrightarrow> log_ok cc ys" for xs ys by (induction xs) auto
  have saved: "log_ok cc es \<Longrightarrow> Saved i None \<in> set es \<Longrightarrow> pd_Sha256Sum i = []" for i es
    by (induction es) (auto split: event.splits option.splits)
  have "log_ok cc (newer @ Deleted item # older)" using w assms(2) by (simp add: work_inv_def)
  then have l: "log_ok cc (Deleted item # older)" by (rule pre)
  then have "Handed item \<in> set (cs_log s)" by (simp add: assms(2))
  then have "\<exists>now. Satisfies sv f item now" using fi by (simp add: filter_inv_def)
  moreover have "\<exists>c. Saved item c \<in> set older \<and> (pd_Sha256Sum item \<noteq> [] \<longrightarrow> c \<noteq> None)" if "cc_Backup cc"
    using l saved [of older item] that by (auto simp del: not_None_eq) metis
  ultimately show ?thesis using l by simp
qed

lemma deleted_was_handed:
  assumes "clean_reach sv sha cc (clean_init url f cc fs) s" "Deleted item \<in> set (cs_log s)"
  shows "Handed item \<in> set (cs_log s)"
proof -
  have "work_inv cc s" using assms(1) by (rule work_inv_reach)
  moreover have "log_ok cc es \<Longrightarrow> Deleted item \<in> set es \<Longrightarrow> Handed item \<in> set es" for es
    by (induction es) auto
  ultimately show ?thesis using assms(2) by (simp add: work_inv_def)
qed

section \<open>Properties\<close>

text \<open>
  (C2) No package is deleted without its backup.  In every state reachable by any
  interleaving of the fetching goroutine and the workers, under any failures of the API, the
  network and the disk: a deletion happens only when deletion was asked for, only on a
  package that the filter selected, and, when the repository is to be backed up, only after
  that package's download reported success, which for a package with a checksum means that
  its file was on disk.
\<close>

theorem clean_deletes_only_backed_up:
  assumes "clean_reach sv sha cc (clean_init url f cc fs) s"
    and "cs_log s = newer @ Deleted item # older"
  shows "cc_Delete cc \<and> (\<exists>now. Satisfies sv f item now) \<and>
     (cc_Backup cc \<longrightarrow> (\<exists>c. Saved item c \<in> set older \<and> (pd_Sha256Sum item \<noteq> [] \<longrightarrow> c \<noteq> None)))"
  by (rule deleted_after_saved [OF assms])

definition wit_pkg :: PackageDetail where
  "wit_pkg = \<lparr>pd_Name = ''tyk'', pd_Version = ''2.8'', pd_Arch = ''amd64'', pd_DistroVersion = ''jammy'',
     pd_Filename = ''f'', pd_Sha256Sum = ''s'', pd_Size = ''7'', pd_CreateTime = 1,
     pd_DestroyURL = ''d'', pd_DownloadURL = ''u''\<rparr>"

definition wit_filter :: Filter where
  "wit_filter = \<lparr>ft_Exceptions = NewSetFromSlices [[''v3.0'']], ft_Version = ''v5.0.0'', ft_Age = 0,
     ft_DownloadAge = 0, ft_total = 0, ft_filtered = 0\<rparr>"

definition wit_cc :: CleanConfig where
  "wit_cc = \<lparr>cc_Concurrency = 1, cc_Savedir = ''b'', cc_Delete = True, cc_Backup = True,
     cc_RepoName = ''r'', cc_Progress = False\<rparr>"

definition wit_env :: dl_env where
  "wit_env = \<lparr>env_mkdir = None, env_root = None, env_open = None, env_create = None,
     env_get = Body 200 ''deb'' True\<rparr>"

text \<open>A run over one page with one package, downloaded and deleted.\<close>

definition wit_s0 :: clean_state where "wit_s0 = clean_init ''u'' wit_filter wit_cc []"
definition wit_s1 :: clean_state where "wit_s1 = fetch_page (Response 200 (Some [wit_pkg]) []) wit_s0"
definition wit_s2 :: clean_state where "wit_s2 = look_at ref_semver 9 wit_pkg [] [] wit_s1"
definition wit_s3 :: clean_state where "wit_s3 = hand_over wit_pkg [] [] 0 wit_s2"
definition wit_s4 :: clean_state where "wit_s4 = backup_item id wit_cc wit_env wit_pkg 0 wit_s3"
definition wit_s5 :: clean_state where "wit_s5 = delete_item wit_cc (DelResponse 200) wit_pkg 0 wit_s4"
definition wit_s6 :: clean_state where "wit_s6 = wit_s5\<lparr>cs_prod := Closed None\<rparr>"
definition wit_s7 :: clean_state where "wit_s7 = set_worker 0 Exited wit_s6"

lemma wit_selected: "Satisfies ref_semver (IncTotal wit_filter) wit_pkg 9"
  by code_simp

lemma wit_saved: "download id wit_env wit_pkg ''b'' []
    = (None, [(item_path ''b'' wit_pkg, ''deb'')])"
  by code_simp

lemma wit_states:
  shows "cs_prod wit_s0 = Fetch ''u''" "cs_prod wit_s1 = Page [wit_pkg] []"
    and "cs_prod wit_s2 = Offer wit_pkg [] []" "cs_workers wit_s2 = [Idle]"
    and "cs_prod wit_s3 = Page [] []" "cs_workers wit_s3 = [Got wit_pkg]"
    and "cs_prod wit_s4 = Page [] []" "cs_workers wit_s4 = [Backed wit_pkg]"
    and "cs_prod wit_s5 = Page [] []" "cs_workers wit_s5 = [Idle]"
    and "cs_workers wit_s7 = [Exited]" "cs_prod wit_s7 = Closed None"
    and "cs_log wit_s5 = [Deleted wit_pkg, Saved wit_pkg (Some ''deb''), Handed wit_pkg, Listed [wit_pkg]]"
    and "cs_log wit_s7 = cs_log wit_s5"
proof -
  let ?f = "[(item_path ''b'' wit_pkg, ''deb'')]"
  have 0: "wit_s0 = \<lparr>cs_prod = Fetch ''u'', cs_filter = wit_filter, cs_workers = [Idle],
      cs_files = [], cs_progress = 0, cs_log = []\<rparr>"
    by (simp add: wit_s0_def clean_init_def wit_cc_def)
  have 1: "wit_s1 = \<lparr>cs_prod = Page [wit_pkg] [], cs_filter = wit_filter, cs_workers = [Idle],
      cs_files = [], cs_progress = 0, cs_log = [Listed [wit_pkg]]\<rparr>"
    by (simp add: wit_s1_def fetch_page_def get_def emit_def 0)
  have 2: "wit_s2 = \<lparr>cs_prod = Offer wit_pkg [] [], cs_filter = IncTotal wit_filter, cs_workers = [Idle],
      cs_files = [], cs_progress = 0, cs_log = [Listed [wit_pkg]]\<rparr>"
    by (simp add: wit_s2_def look_at_def Let_def 1 wit_selected)
  have 3: "wit_s3 = \<lparr>cs_prod = Page [] [], cs_filter = IncFiltered (IncTotal wit_filter),
      cs_workers = [Got wit_pkg], cs_files = [], cs_progress = 0, cs_log = [Handed wit_pkg, Listed [wit_pkg]]\<rparr>"
    by (simp add: wit_s3_def hand_over_def emit_def set_worker_def 2)
  have 4: "wit_s4 = \<lparr>cs_prod = Page [] [], cs_filter = IncFiltered (IncTotal wit_filter),
      cs_workers = [Backed wit_pkg], cs_files = ?f, cs_progress = 0,
      cs_log = [Saved wit_pkg (Some ''deb''), Handed wit_pkg, Listed [wit_pkg]]\<rparr>"
    by (simp add: wit_s4_def backup_item_def emit_def set_worker_def 3 wit_saved wit_cc_def)
  have 5: "wit_s5 = \<lparr>cs_prod = Page [] [], cs_filter = IncFiltered (IncTotal wit_filter),
      cs_workers = [Idle], cs_files = ?f, cs_progress = 1,
      cs_log = [Deleted wit_pkg, Saved wit_pkg (Some ''deb''), Handed wit_pkg, Listed [wit_pkg]]\<rparr>"
    by (simp add: wit_s5_def delete_item_def delete_pkg_def emit_def set_worker_def 4 wit_cc_def)
  show "cs_prod wit_s0 = Fetch ''u''" by (simp add: 0)
  show "cs_prod wit_s1 = Page [wit_pkg] []" by (simp add: 1)
  show "cs_prod wit_s2 = Offer wit_pkg [] []" by (simp add: 2)
  show "cs_workers wit_s2 = [Idle]" by (simp add: 2)
  show "cs_prod wit_s3 = Page [] []" by (simp add: 3)
  show "cs_workers wit_s3 = [Got wit_pkg]" by (simp add: 3)
  show "cs_prod wit_s4 = Page [] []" by (simp add: 4)
  show "cs_workers wit_s4 = [Backed wit_pkg]" by (simp add: 4)
  show "cs_prod wit_s5 = Page [] []" by (simp add: 5)
  show "cs_workers wit_s5 = [Idle]" by (simp add: 5)
  show "cs_workers wit_s7 = [Exited]" by (simp add: wit_s7_def wit_s6_def 5)
  show "cs_prod wit_s7 = Closed None" by (simp add: wit_s7_def wit_s6_def)
  show "cs_log wit_s5 = [Deleted wit_pkg, Saved wit_pkg (Some ''deb''), Handed wit_pkg, Listed [wit_pkg]]" by (simp add: 5)
  show "cs_log wit_s7 = cs_log wit_s5" by (simp add: wit_s7_def wit_s6_def)
qed

lemma wit_reach_from:
  assumes "clean_reach ref_semver id wit_cc s0 wit_s1"
  shows "clean_reach ref_semver id wit_cc s0 wit_s5"
    and "clean_reach ref_semver id wit_cc s0 wit_s7"
proof -
  note st = clean_step.look [OF wit_states(2)] clean_step.hand [OF wit_states(3), of 0]
    clean_step.backup [of wit_s3 0 wit_pkg] clean_step.remove [of wit_s4 0 wit_pkg]
  from assms have "clean_reach ref_semver id wit_cc s0 wit_s2"
    unfolding wit_s2_def by (rule clean_reach.step) (rule st(1))
  then have "clean_reach ref_semver id wit_cc s0 wit_s3"
    unfolding wit_s3_def by (rule clean_reach.step) (rule st(2); simp add: wit_states)
  then have "clean_reach ref_semver id wit_cc s0 wit_s4"
    unfolding wit_s4_def by (rule clean_reach.step) (rule st(3); simp add: wit_states)
  then show 5: "clean_reach ref_semver id wit_cc s0 wit_s5"
    unfolding wit_s5_def by (rule clean_reach.step) (rule st(4); simp add: wit_states)
  have "clean_step ref_semver id wit_cc wit_s5 wit_s6"
    using clean_step.page_end [OF wit_states(9)] by (simp add: wit_s6_def)
  then have 6: "clean_reach ref_semver id wit_cc s0 wit_s6" by (rule clean_reach.step [OF 5])
  have "clean_step ref_semver id wit_cc wit_s6 wit_s7"
    unfolding wit_s7_def by (rule clean_step.leave) (simp_all add: wit_s6_def wit_states)
  then show "clean_reach ref_semver id wit_cc s0 wit_s7" by (rule clean_reach.step [OF 6])
qed

lemma wit_first: "clean_reach ref_semver id wit_cc wit_s0 wit_s1"
  unfolding wit_s1_def by (rule clean_reach.step [OF clean_reach.start clean_step.fetch [OF wit_states(1)]])

lemmas wit_reach = wit_reach_from [OF wit_first]

theorem clean_deletes_witness:
  "\<exists>c. Saved wit_pkg c \<in> set [Saved wit_pkg (Some ''deb''), Handed wit_pkg, Listed [wit_pkg]] \<and> c \<noteq> None"
  using clean_deletes_only_backed_up [OF wit_reach(1) [unfolded wit_s0_def],
      of "[]" wit_pkg "[Saved wit_pkg (Some ''deb''), Handed wit_pkg, Listed [wit_pkg]]"]
  by (simp add: wit_states wit_cc_def wit_pkg_def)

text \<open>
  (C24) The books of a finished run balance.  When every worker has returned, each package that
  was handed to a worker has exactly one outcome (deleted, kept, failed to save or failed to
  delete), the \<open>filtered\<close> counter is the number of these packages, and, when all pages
  were fetched, the \<open>total\<close> counter is the number of packages listed.
\<close>

theorem clean_books_balance:
  assumes "clean_reach sv sha cc (clean_init url f cc fs) s"
    and "ft_total f = 0" "ft_filtered f = 0"
    and "set (cs_workers s) \<subseteq> {Exited}" "cs_prod s = Closed e"
  shows "handed_of (cs_log s) = outcomes (cs_log s) \<and>
     ft_filtered (cs_filter s) = size (outcomes (cs_log s)) \<and>
     ft_total (cs_filter s) = length (listed_of (cs_log s))"
proof -
  have "set ws \<subseteq> {Exited} \<Longrightarrow> in_work ws = {#}" for ws
    by (induction ws) (auto simp: in_work_def)
  with books_reach [OF assms(1-3)] assms(4,5) show ?thesis by (simp add: books_def)
qed

theorem clean_books_witness:
  "handed_of (cs_log wit_s7) = outcomes (cs_log wit_s7) \<and> outcomes (cs_log wit_s7) = {#wit_pkg#}
     \<and> ft_total (cs_filter wit_s7) = 1"
  using clean_books_balance [OF wit_reach(2) [unfolded wit_s0_def], of None]
  by (simp add: wit_states wit_filter_def outcomes_def)



text \<open>
  \<open>ListPackages\<close> returns, with every package of every page in order, whenever the
  next links lead through finitely many pages that all answer.
\<close>

theorem ListPackages_all_pages:
  assumes "pages server (repo_url owner repo) ps"
  shows "ListPackages server owner repo = Some (Done (Inr (concat ps)))"
  using list_loop_pages [OF assms, of "[]"] by (simp add: ListPackages_def)

theorem ListPackages_witness:
  "ListPackages (\<lambda>u. if u = ''n'' then Response 200 (Some [wit_pkg]) [] else Response 200 (Some [wit_pkg]) ''n'')
     ''tyk'' ''r'' = Some (Done (Inr [wit_pkg, wit_pkg]))"
proof -
  let ?server = "\<lambda>u. if u = ''n'' then Response 200 (Some [wit_pkg]) [] else Response 200 (Some [wit_pkg]) ''n''"
  have "pages ?server (repo_url ''tyk'' ''r'') [[wit_pkg], [wit_pkg]]"
    by (simp add: repo_url_def)
  from ListPackages_all_pages [OF this] show ?thesis by simp
qed

text \<open>
  (C35) What a successful \<open>download\<close> leaves behind, in every environment: the package's file
  has the published checksum, or is the complete body of a \<open>200\<close> reply; otherwise the
  published checksum is the empty string, and then nothing need have been fetched.
  No other file is touched, whether or not the download succeeds.
\<close>

theorem download_saves:
  "(fst (download sha env item savedir fs) = None \<longrightarrow>
     (case gm_get (snd (download sha env item savedir fs)) (item_path savedir item) of
        None \<Rightarrow> pd_Sha256Sum item = []
      | Some c \<Rightarrow> sha c = pd_Sha256Sum item \<or> env_get env = Body 200 c True \<or> pd_Sha256Sum item = [])) \<and>
   (\<forall>path. path \<noteq> item_path savedir item \<longrightarrow>
      gm_get (snd (download sha env item savedir fs)) path = gm_get fs path)"
  using download_ok [of sha env item savedir fs "snd (download sha env item savedir fs)"]
    download_frame [of _ savedir item sha env fs]
  by (cases "download sha env item savedir fs") (auto split: option.splits)

theorem download_saves_witness:
  "fst (download id wit_env wit_pkg ''b'' []) = None \<and>
   gm_get (snd (download id wit_env wit_pkg ''b'' [])) (item_path ''b'' wit_pkg) = Some ''deb'' \<and>
   (case gm_get (snd (download id wit_env wit_pkg ''b'' [])) (item_path ''b'' wit_pkg) of
        None \<Rightarrow> pd_Sha256Sum wit_pkg = []
      | Some c \<Rightarrow> id c = pd_Sha256Sum wit_pkg \<or> env_get wit_env = Body 200 c True \<or> pd_Sha256Sum wit_pkg = [])"
  using download_saves [of id wit_env wit_pkg "''b''" "[]"] by (simp add: wit_saved)

text \<open>A package published without a checksum is deleted although nothing was ever saved.\<close>

lemma empty_checksum_not_saved:
  assumes "pd_Sha256Sum item = []" "gm_get fs (item_path savedir item) = None"
    and "env_mkdir env = None" "env_root env = None"
  shows "download sha env item savedir fs = (None, fs)"
  using assms by (simp add: download_def Let_def)

text \<open>A transport failure while listing ends the process: nothing can happen any more.\<close>

lemma transport_failure_crashes:
  "\<not> clean_step sv sha cc (fetch_page (NoResponse e) s) t"
proof
  have crashed: "cs_prod (fetch_page (NoResponse e) s) = Crashed" by (simp add: fetch_page_def get_def)
  assume "clean_step sv sha cc (fetch_page (NoResponse e) s) t"
  then show False by cases (use crashed in simp_all)
qed

end
