(* ===== verification/PkgsCmd.thy ===== *)
theory PkgsCmd
  imports PkgPlan PkgClient
begin

text \<open>
  The commands \<open>gromit pkgs plan\<close> and \<open>gromit pkgs clean\<close> (\<open>cmd/pkgs.go\<close>), composed of the operations of
  \<open>PkgFilter\<close>, \<open>Tracks\<close>, \<open>PkgPlan\<close> and \<open>PkgClient\<close>.
\<close>

section \<open>Setting up\<close>

text \<open>\<open>PersistentPreRun\<close>: without a token or a readable configuration the process ends.\<close>

definition pkgs_prerun :: "string \<Rightarrow> string + Repos \<Rightarrow> Repos go" where
  "pkgs_prerun pcToken config =
     (if pcToken = [] then Fatal ''Working with packagecloud.io requires PACKAGECLOUD_TOKEN''
      else case config of Inl e \<Rightarrow> Fatal ''Could not load repo config'' | Inr repos \<Rightarrow> Done repos)"

section \<open>plan\<close>

datatype plan_output = PlanText string | PlansJson "Plan list"

datatype cmd_error =
    LoadingTracks load_error
  | NotInConfig string
  | Listing string list_error
  | Planning string plan_error

text \<open>
  The environment of a run: the semver library, the repositories, the API and the clock, which is read once
  per repository.
\<close>

record plan_env =
  pn_sv :: semver
  pn_repos :: Repos
  pn_server :: "string \<Rightarrow> page_reply"
  pn_owner :: string
  pn_now :: "string \<Rightarrow> int"

text \<open>The loop over the repositories; None is a listing that never ends.\<close>

fun plan_loop ::
  "plan_env \<Rightarrow> Tracks \<Rightarrow> bool \<Rightarrow> Plan list \<Rightarrow> plan_output list \<Rightarrow> string list \<Rightarrow> (cmd_error option \<times> plan_output list) go option" where
  "plan_loop env tracks asJSON plans out [] = Some (Done (None, if asJSON then out @ [PlansJson plans] else out))"
| "plan_loop env tracks asJSON plans out (repoName # args) =
     (case gm_get (pn_repos env) repoName of
        None \<Rightarrow> Some (Done (Some (NotInConfig repoName), out))
      | Some cfg \<Rightarrow>
          (case ListPackages (pn_server env) (pn_owner env) repoName of
             None \<Rightarrow> None
           | Some (Panic m) \<Rightarrow> Some (Panic m)
           | Some (Fatal m) \<Rightarrow> Some (Fatal m)
           | Some (Done (Inl e)) \<Rightarrow> Some (Done (Some (Listing repoName e), out))
           | Some (Done (Inr items)) \<Rightarrow>
               (case BuildPlan (pn_sv env) repoName cfg tracks items (pn_now env repoName) of
                  Panic m \<Rightarrow> Some (Panic m)
                | Fatal m \<Rightarrow> Some (Fatal m)
                | Done (plan, Some e) \<Rightarrow> Some (Done (Some (Planning repoName e), out))
                | Done (plan, None) \<Rightarrow>
                    plan_loop env tracks asJSON (plans @ [plan])
                      (if asJSON then out else out @ [PlanText (Render (pn_sv env) plan)]) args)))"

definition plan_cmd :: "plan_env \<Rightarrow> load_error + Tracks \<Rightarrow> bool \<Rightarrow> string list \<Rightarrow> (cmd_error option \<times> plan_output list) go option" where
  "plan_cmd env loaded asJSON args =
     (case loaded of
        Inl e \<Rightarrow> Some (Done (Some (LoadingTracks e), []))
      | Inr tracks \<Rightarrow> plan_loop env tracks asJSON [] [] args)"

section \<open>clean\<close>

record clean_args =
  ca_concurrency :: int
  ca_savedir :: string
  ca_delete :: bool
  ca_progress :: bool

text \<open>The configuration of the run for one repository.\<close>

definition clean_config :: "clean_args \<Rightarrow> Repos \<Rightarrow> string \<Rightarrow> CleanConfig" where
  "clean_config a repos repoName = \<lparr>cc_Concurrency = ca_concurrency a, cc_Savedir = ca_savedir a, cc_Delete = ca_delete a,
     cc_Backup = ShouldBackup repos repoName, cc_RepoName = repoName, cc_Progress = ca_progress a\<rparr>"

text \<open>All goroutines of a run have returned: \<open>Clean\<close> and the \<open>Wait\<close> of the fetching goroutine.\<close>

definition finished :: "clean_state \<Rightarrow> bool" where
  "finished s \<longleftrightarrow> (\<exists>e. cs_prod s = Closed e) \<and> set (cs_workers s) \<subseteq> {Exited}"

text \<open>
  The loop over the repositories, with the final states of the runs.  A filter that cannot be made and a
  listing that fails are logged, and end the loop; the command itself never fails.
\<close>

inductive clean_repos ::
  "semver \<Rightarrow> (string \<Rightarrow> string) \<Rightarrow> clean_args \<Rightarrow> Repos \<Rightarrow> string \<Rightarrow> string list \<Rightarrow> files \<Rightarrow> (string \<times> clean_state) list \<Rightarrow> files \<Rightarrow> bool"
  for sv sha a repos owner where
  no_more: "clean_repos sv sha a repos owner [] fs [] fs"
| no_filter: "MakeFilter sv repos n = Inl e \<Longrightarrow> clean_repos sv sha a repos owner (n # ns) fs [] fs"
| fetch_failed: "MakeFilter sv repos n = Inr f \<Longrightarrow>
    clean_reach sv sha (clean_config a repos n) (clean_init (repo_url owner n) f (clean_config a repos n) fs) s \<Longrightarrow>
    finished s \<Longrightarrow> cs_prod s = Closed (Some e) \<Longrightarrow> clean_repos sv sha a repos owner (n # ns) fs [(n, s)] (cs_files s)"
| cleaned: "MakeFilter sv repos n = Inr f \<Longrightarrow>
    clean_reach sv sha (clean_config a repos n) (clean_init (repo_url owner n) f (clean_config a repos n) fs) s \<Longrightarrow>
    finished s \<Longrightarrow> cs_prod s = Closed None \<Longrightarrow> clean_repos sv sha a repos owner ns (cs_files s) runs fs' \<Longrightarrow>
    clean_repos sv sha a repos owner (n # ns) fs ((n, s) # runs) fs'"

inductive_cases clean_reposE: "clean_repos sv sha a repos owner (n # ns) fs runs fs'"

section \<open>What plan prints\<close>

lemma plan_step_Repo [simp]: "pl_Repo (plan_step sv cfg cutoff bs es now i p) = pl_Repo p"
  by (simp add: plan_step_def Let_def)

lemma plan_items_Repo [simp]: "pl_Repo (plan_items sv cfg cutoff bs now items p) = pl_Repo p"
proof -
  have "pl_Repo (fold (plan_step sv cfg cutoff bs es now) items p) = pl_Repo p" for es p
    by (induction items arbitrary: p) simp_all
  then show ?thesis by (simp add: plan_items_def)
qed

lemma BuildPlan_Repo:
  assumes "BuildPlan sv n cfg tracks items now = Done (p, None)"
  shows "pl_Repo p = n"
  using assms
  apply (auto simp: BuildPlan_def Let_def go_bind_Done_iff split: if_splits option.splits sum.splits prod.splits)
  subgoal for x2 x1 x2b r by (cases r) auto
  done

text \<open>The report of a finished repository: printed at once, or kept for the end.\<close>

definition shown :: "semver \<Rightarrow> bool \<Rightarrow> Plan list \<Rightarrow> plan_output list" where
  "shown sv asJSON ps = (if asJSON then [] else List.map (\<lambda>p. PlanText (Render sv p)) ps)"

text \<open>The plan that the loop makes for one repository.\<close>

definition plan_one :: "plan_env \<Rightarrow> Tracks \<Rightarrow> string \<Rightarrow> Plan \<Rightarrow> bool" where
  "plan_one env tracks n p \<longleftrightarrow>
     (\<exists>cfg items. gm_get (pn_repos env) n = Some cfg \<and>
        ListPackages (pn_server env) (pn_owner env) n = Some (Done (Inr items)) \<and>
        BuildPlan (pn_sv env) n cfg tracks items (pn_now env n) = Done (p, None))"

lemma plan_loop_cases:
  assumes "plan_loop env tracks asJSON plans out (n # args) = Some (Done (err, res))"
  obtains (failed) e where "err = Some e" "res = out"
  | (planned) p where "plan_one env tracks n p"
      "plan_loop env tracks asJSON (plans @ [p]) (out @ shown (pn_sv env) asJSON [p]) args = Some (Done (err, res))"
proof (cases "\<exists>p. plan_one env tracks n p")
  case True
  then obtain p cfg items where "plan_one env tracks n p" and
    "gm_get (pn_repos env) n = Some cfg"
    "ListPackages (pn_server env) (pn_owner env) n = Some (Done (Inr items))"
    "BuildPlan (pn_sv env) n cfg tracks items (pn_now env n) = Done (p, None)"
    unfolding plan_one_def by blast
  with assms show ?thesis by (intro planned) (auto simp: shown_def split: if_splits)
next
  case False
  with assms show ?thesis
    by (intro failed [of "the err"])
      (auto simp: plan_one_def split: option.splits go.splits sum.splits prod.splits)
qed

lemma plan_loop_result:
  assumes "plan_loop env tracks asJSON plans out args = Some (Done (err, res))"
  shows "\<exists>k ps. k \<le> length args \<and> list_all2 (plan_one env tracks) (take k args) ps \<and>
     (err = None \<longleftrightarrow> k = length args) \<and>
     res = out @ shown (pn_sv env) asJSON ps @ (if asJSON \<and> err = None then [PlansJson (plans @ ps)] else [])"
  using assms
proof (induction args arbitrary: plans out)
  case Nil
  then show ?case by (auto simp: shown_def split: if_splits)
next
  case (Cons n args)
  from Cons.prems show ?case
  proof (cases rule: plan_loop_cases)
    case (failed e)
    then show ?thesis by (intro exI [of _ 0] exI [of _ "[]"]) (simp add: shown_def)
  next
    case (planned p)
    from Cons.IH [OF planned(2)] obtain k ps where
      "k \<le> length args" "list_all2 (plan_one env tracks) (take k args) ps" "err = None \<longleftrightarrow> k = length args"
      "res = (out @ shown (pn_sv env) asJSON [p]) @ shown (pn_sv env) asJSON ps
         @ (if asJSON \<and> err = None then [PlansJson ((plans @ [p]) @ ps)] else [])"
      by blast
    with planned(1) show ?thesis
      by (intro exI [of _ "Suc k"] exI [of _ "p # ps"]) (simp add: shown_def)
  qed
qed


section \<open>Properties\<close>

text \<open>
  (C27) What \<open>gromit pkgs plan\<close> prints, for every list of repositories and every behaviour of the API.  It goes
  through the repositories in the order given and stops at the first that cannot be planned.  As text, the reports of
  the repositories before it have been printed by then; as JSON nothing is printed unless every repository could be
  planned, and then one list with a plan per argument, in order.
\<close>

theorem plan_prints:
  assumes "plan_cmd env (Inr tracks) asJSON args = Some (Done (err, res))"
  shows "\<exists>k ps. k \<le> length args \<and> list_all2 (plan_one env tracks) (take k args) ps \<and>
     List.map pl_Repo ps = take k args \<and> (err = None \<longleftrightarrow> k = length args) \<and>
     res = (if asJSON then (if err = None then [PlansJson ps] else [])
            else List.map (\<lambda>p. PlanText (Render (pn_sv env) p)) ps)"
proof -
  from assms obtain k ps where k: "k \<le> length args" "list_all2 (plan_one env tracks) (take k args) ps"
    "err = None \<longleftrightarrow> k = length args"
    "res = [] @ shown (pn_sv env) asJSON ps @ (if asJSON \<and> err = None then [PlansJson ([] @ ps)] else [])"
    unfolding plan_cmd_def sum.case by (blast dest: plan_loop_result)
  have "list_all2 (plan_one env tracks) ns ps \<Longrightarrow> List.map pl_Repo ps = ns" for ns
    by (induction rule: list_all2_induct) (auto simp: plan_one_def dest: BuildPlan_Repo)
  with k show ?thesis by (intro exI [of _ k] exI [of _ ps]) (simp add: shown_def)
qed

definition wit_plan_env :: plan_env where
  "wit_plan_env = \<lparr>pn_sv = ref_semver, pn_repos = [(''tyk'', wit_static)],
     pn_server = (\<lambda>u. Response 200 (Some wit_items) []), pn_owner = ''o'', pn_now = (\<lambda>n. 99)\<rparr>"

lemma wit_plan_listing:
  "ListPackages (pn_server wit_plan_env) (pn_owner wit_plan_env) n = Some (Done (Inr wit_items))"
  by (simp add: ListPackages_def wit_plan_env_def list_loop_step [where items = wit_items and nxt = "[]"] get_def)

text \<open>A repository that is not configured, after one that is: as JSON nothing is printed, as text one report.\<close>

theorem plan_prints_witness:
  "\<exists>p. plan_cmd wit_plan_env (Inr []) True [''tyk'', ''gone''] = Some (Done (Some (NotInConfig ''gone''), [])) \<and>
     plan_cmd wit_plan_env (Inr []) False [''tyk'', ''gone'']
       = Some (Done (Some (NotInConfig ''gone''), [PlanText (Render ref_semver p)])) \<and> pl_Repo p = ''tyk''"
proof -
  obtain p where p: "BuildPlan ref_semver ''tyk'' wit_static [] wit_items 99 = Done (p, None)"
    using BuildPlan_static [of wit_static ref_semver "''tyk''" "[]" wit_items 99] by (auto simp: wit_static_def)
  have r: "gm_get (pn_repos wit_plan_env) ''tyk'' = Some wit_static" "gm_get (pn_repos wit_plan_env) ''gone'' = None"
    "pn_sv wit_plan_env = ref_semver" "pn_now wit_plan_env n = 99" for n
    by (simp_all add: wit_plan_env_def)
  have run: "plan_cmd wit_plan_env (Inr []) j [''tyk'', ''gone''] = Some (Done (Some (NotInConfig ''gone''),
      if j then [] else [PlanText (Render ref_semver p)]))" for j
    by (simp add: plan_cmd_def wit_plan_listing r p)
  from plan_prints [OF run [of False]] run [of True] run [of False] BuildPlan_Repo [OF p] show ?thesis by auto
qed

lemma run_deletes:
  assumes "MakeFilter sv repos n = Inr f"
    and "clean_reach sv sha (clean_config a repos n) (clean_init url f (clean_config a repos n) fs) s"
  shows "\<forall>newer item older. cs_log s = newer @ Deleted item # older \<longrightarrow>
    ca_delete a \<and> (\<exists>f now. MakeFilter sv repos n = Inr f \<and> Satisfies sv f item now) \<and>
    (ShouldBackup repos n \<longrightarrow> (\<exists>c. Saved item c \<in> set older \<and> (pd_Sha256Sum item \<noteq> [] \<longrightarrow> c \<noteq> None)))"
  using deleted_after_saved [OF assms(2)] assms(1) by (simp add: clean_config_def)

lemma clean_repos_order:
  "clean_repos sv sha a repos owner ns fs runs fs' \<Longrightarrow> List.map fst runs = take (length runs) ns \<and>
     (length runs < length ns \<longrightarrow>
        (\<exists>e. MakeFilter sv repos (ns ! length runs) = Inl e) \<or>
        (\<exists>n s e. runs \<noteq> [] \<and> last runs = (n, s) \<and> cs_prod s = Closed (Some e)))"
  by (induction rule: clean_repos.induct) auto

text \<open>
  (C26) What \<open>gromit pkgs clean\<close> has done when it returns, whatever the repositories, the API, the disk and the
  interleavings did.  The repositories were gone through in the order given; when it stopped early it was because a
  repository is not configured, or because listing the last one failed; and in every repository that was reached,
  each deletion was asked for, was of a package the repository's own filter selected, and came after the package's
  successful download unless the repository opted out of backups.
\<close>

theorem clean_command:
  assumes "clean_repos sv sha a repos owner ns fs runs fs'"
  shows "List.map fst runs = take (length runs) ns \<and>
     (length runs < length ns \<longrightarrow>
        (\<exists>e. MakeFilter sv repos (ns ! length runs) = Inl e) \<or>
        (\<exists>n s e. runs \<noteq> [] \<and> last runs = (n, s) \<and> cs_prod s = Closed (Some e))) \<and>
     (\<forall>(n, s) \<in> set runs. \<forall>newer item older. cs_log s = newer @ Deleted item # older \<longrightarrow>
        ca_delete a \<and> (\<exists>f now. MakeFilter sv repos n = Inr f \<and> Satisfies sv f item now) \<and>
        (ShouldBackup repos n \<longrightarrow>
           (\<exists>c. Saved item c \<in> set older \<and> (pd_Sha256Sum item \<noteq> [] \<longrightarrow> c \<noteq> None))))"
proof -
  have "\<forall>(n, s) \<in> set runs. \<forall>newer item older. cs_log s = newer @ Deleted item # older \<longrightarrow>
      ca_delete a \<and> (\<exists>f now. MakeFilter sv repos n = Inr f \<and> Satisfies sv f item now) \<and>
      (ShouldBackup repos n \<longrightarrow> (\<exists>c. Saved item c \<in> set older \<and> (pd_Sha256Sum item \<noteq> [] \<longrightarrow> c \<noteq> None)))"
    using assms
  proof induction
    case (fetch_failed n f fs s e ns)
    from run_deletes [OF fetch_failed(1,2)] show ?case by (simp only: list.set ball_simps prod.case)
  next
    case (cleaned n f fs s ns runs fs')
    from run_deletes [OF cleaned(1,2)] cleaned(6) show ?case by (simp only: list.set ball_simps prod.case)
  qed simp_all
  with clean_repos_order [OF assms] show ?thesis by blast
qed

definition wit_args :: clean_args where
  "wit_args = \<lparr>ca_concurrency = 1, ca_savedir = ''b'', ca_delete = True, ca_progress = False\<rparr>"

definition wit_repos :: Repos where
  "wit_repos = [(''r'', \<lparr>cfg_Exceptions = [''v3.0''], cfg_VersionCutoff = ''v5'', cfg_AgeCutoff = 0,
     cfg_NotBackup = False, cfg_Track = [], cfg_Editions = []\<rparr>)]"

lemma wit_clean_setup:
  shows "clean_config wit_args wit_repos ''r'' = wit_cc"
    and "MakeFilter ref_semver wit_repos ''r'' = Inr wit_filter"
    and "isl (MakeFilter ref_semver wit_repos ''gone'')"
    and "ShouldBackup wit_repos ''r''"
  by code_simp+

lemma wit_clean_reach:
  "clean_reach ref_semver id wit_cc (clean_init (repo_url ''o'' ''r'') wit_filter wit_cc []) wit_s7"
proof -
  let ?s0 = "clean_init (repo_url ''o'' ''r'') wit_filter wit_cc []"
  have "wit_s1 = fetch_page (Response 200 (Some [wit_pkg]) []) ?s0"
    by (simp add: wit_s1_def wit_s0_def fetch_page_def clean_init_def get_def emit_def)
  moreover have "clean_step ref_semver id wit_cc ?s0 (fetch_page (Response 200 (Some [wit_pkg]) []) ?s0)"
    by (rule clean_step.fetch [of _ "repo_url ''o'' ''r''"]) (simp add: clean_init_def)
  ultimately have "clean_reach ref_semver id wit_cc ?s0 wit_s1"
    using clean_reach.step [OF clean_reach.start] by simp
  then show ?thesis by (rule wit_reach_from)
qed

text \<open>Three arguments: the second is not configured, so the third is never looked at, and the command succeeds.\<close>

lemma wit_clean_run:
  "clean_repos ref_semver id wit_args wit_repos ''o'' [''r'', ''gone'', ''r2''] [] [(''r'', wit_s7)] (cs_files wit_s7)"
proof -
  from wit_clean_setup(3) obtain e where e: "MakeFilter ref_semver wit_repos ''gone'' = Inl e"
    by (cases "MakeFilter ref_semver wit_repos ''gone''") auto
  show ?thesis
    by (rule clean_repos.cleaned [OF wit_clean_setup(2)])
      (use wit_clean_reach in \<open>simp_all add: wit_clean_setup(1) finished_def wit_states clean_repos.no_filter [OF e]\<close>)
qed

theorem clean_command_witness:
  "\<exists>c. Saved wit_pkg c \<in> set [Saved wit_pkg (Some ''deb''), Handed wit_pkg, Listed [wit_pkg]] \<and> c \<noteq> None \<and>
     (\<exists>e. MakeFilter ref_semver wit_repos ''gone'' = Inl e)"
proof -
  let ?older = "[Saved wit_pkg (Some ''deb''), Handed wit_pkg, Listed [wit_pkg]]"
  have "cs_log wit_s7 = [] @ Deleted wit_pkg # ?older" by (simp add: wit_states)
  moreover have "pd_Sha256Sum wit_pkg \<noteq> []" by (simp add: wit_pkg_def)
  moreover note clean_command [OF wit_clean_run]
  ultimately have "\<exists>c. Saved wit_pkg c \<in> set ?older \<and> c \<noteq> None"
    and "(\<exists>e. MakeFilter ref_semver wit_repos ([''r'', ''gone'', ''r2''] ! 1) = Inl e)"
    using wit_clean_setup(4) by (auto simp: wit_states(12))
  then show ?thesis by simp
qed

text \<open>
  \<open>--concurrency\<close> is not checked.  With zero or a negative value there is no worker, and once the filter has
  selected a package no step is possible any more: the fetching goroutine waits for a receiver and the command for
  the fetching goroutine.
\<close>

theorem clean_without_workers_hangs:
  assumes "clean_reach sv sha (clean_config a repos n) (clean_init url f (clean_config a repos n) fs) s"
    and "ca_concurrency a \<le> 0" "cs_prod s = Offer item items next"
  shows "\<not> clean_step sv sha (clean_config a repos n) s t \<and> \<not> finished s"
proof -
  have "staffed 0 (clean_init url f (clean_config a repos n) fs)"
    using assms(2) by (simp add: staffed_def clean_init_def clean_config_def)
  with assms(1) have "staffed 0 s" by (rule cleaning.invariant) (rule staffed_step)
  then have "cs_workers s = []" by (simp add: staffed_def)
  then show ?thesis using assms(3) by (auto simp: finished_def elim: clean_step.cases)
qed

theorem clean_without_workers_witness:
  "\<exists>s. clean_reach ref_semver id (clean_config (wit_args\<lparr>ca_concurrency := 0\<rparr>) wit_repos ''r'')
       (clean_init ''u'' wit_filter (clean_config (wit_args\<lparr>ca_concurrency := 0\<rparr>) wit_repos ''r'') []) s \<and>
     (\<forall>t. \<not> clean_step ref_semver id (clean_config (wit_args\<lparr>ca_concurrency := 0\<rparr>) wit_repos ''r'') s t)"
proof -
  let ?a = "wit_args\<lparr>ca_concurrency := 0\<rparr>"
  let ?cc = "clean_config ?a wit_repos ''r''"
  let ?s0 = "clean_init ''u'' wit_filter ?cc []"
  let ?s1 = "fetch_page (Response 200 (Some [wit_pkg]) []) ?s0"
  let ?s2 = "look_at ref_semver 9 wit_pkg [] [] ?s1"
  have p0: "cs_prod ?s0 = Fetch ''u''" by (simp add: clean_init_def)
  have p1: "cs_prod ?s1 = Page [wit_pkg] []" "cs_filter ?s1 = wit_filter"
    by (simp_all add: fetch_page_def get_def emit_def clean_init_def)
  have p2: "cs_prod ?s2 = Offer wit_pkg [] []"
    by (simp add: look_at_def Let_def p1(2) wit_selected)
  have r: "clean_reach ref_semver id ?cc ?s0 ?s2"
    by (rule clean_reach.step [OF clean_reach.step [OF clean_reach.start clean_step.fetch [OF p0]]
          clean_step.look [OF p1(1)]])
  from clean_without_workers_hangs [OF r _ p2] r show ?thesis by (auto simp: wit_args_def)
qed

end
