(* ===== verification/PolicyConfig.thy ===== *)
theory PolicyConfig
  imports USet GoStrings
begin

text \<open>
  The configuration types of \<open>policy/policy.go\<close> and the operations on them that need no
  other component: the constructor \<open>GetRepoPolicy\<close>, which folds the policy, group,
  repository and branch levels into one policy per repository, \<open>mergeBuilds\<close>,
  \<open>filterBuildsByFeature\<close> and \<open>SetBranch\<close>.  The reflection libraries copier and mergo
  are third-party: the operations take them as arguments, and \<open>copier_laws\<close> and
  \<open>mergo_laws\<close> say what their documentation promises.  Slices are values here; \<open>BuildStore\<close> shows
  that the arrays the builds of different branches share do not make a difference.
\<close>

section \<open>Types\<close>

record arch =
  ar_Docker :: string
  ar_Deb :: string
  ar_Go :: string
  ar_SkipDocker :: bool

record build =
  b_Dir :: string
  b_Main :: string
  b_Binary :: string
  b_VersionPackage :: string
  b_Flags :: "string list"
  b_BuildPackageName :: string
  b_Description :: string
  b_ImageTitle :: string
  b_PCRepo :: string
  b_UpgradeRepo :: string
  b_DHRepo :: string
  b_CSRepo :: string
  b_CIRepo :: string
  b_DockerBaseImage :: string
  b_Feature :: string
  b_Env :: "string list"
  b_Archs :: "arch list"

text \<open>\<open>map[string]*build\<close>; a nil pointer is \<open>None\<close>.\<close>

type_synonym buildMap = "(string, build option) gomap"

record pluginCompilerVariant =
  pv_Name :: string
  pv_ImageSuffix :: string
  pv_Title :: string
  pv_Description :: string
  pv_BuildTag :: string
  pv_GoExperiment :: string
  pv_GoFips140 :: string
  pv_Edition :: string

record pluginCompilerNextGenConfig =
  ng_TagSuffix :: string
  ng_BaseImageName :: string
  ng_BaseImageTag :: string
  ng_BaseImageRef :: string
  ng_WorkflowBaseImageName :: string
  ng_WorkflowBaseImageTag :: string
  ng_BaseImage :: string
  ng_BaseImageDigest :: string
  ng_CustomizationID :: string
  ng_CustomizationOrg :: string
  ng_GlibcTarget :: string
  ng_Cross :: string
  ng_Slim :: string
  ng_WithCxx :: string
  ng_WithGit :: string
  ng_GatewayTrimpath :: string
  ng_CEArchs :: string
  ng_EEArchs :: string
  ng_FIPSArchs :: string
  ng_ImagePlatforms :: string
  ng_GatePlatform :: string
  ng_ExtraGateVariant :: string
  ng_Variants :: "pluginCompilerVariant list"

record pluginCompilerConfig =
  pc_GoImage :: string
  pc_DepGuardRef :: string
  pc_DepGuardIf :: string
  pc_DockerBuildIf :: string
  pc_CheckoutDepth :: int
  pc_PullRequestTypes :: "string list"
  pc_PullRequestTypesStyle :: string
  pc_Variants :: "pluginCompilerVariant list"
  pc_NextGen :: pluginCompilerNextGenConfig

record branchVals =
  bv_Buildenv :: string
  bv_BaseImage :: string
  bv_DistrolessBaseImage :: string
  bv_Cgo :: bool
  bv_ConfigFile :: string
  bv_VersionPackage :: string
  bv_UpgradeFromVer :: string
  bv_Tests :: "string list"
  bv_Features :: "string list"
  bv_PluginCompiler :: pluginCompilerConfig
  bv_Builds :: buildMap
  bv_DeletedFiles :: "string list"

text \<open>\<open>repoConfig\<close> embeds a map of itself: a group holds the configurations of its repositories.\<close>

datatype repoConfig = RepoConfig
  (rc_Owner: string)
  (rc_ExposePorts: string)
  (rc_PackageName: string)
  (rc_Binary: string)
  (rc_Buildenv: string)
  (rc_Builds: buildMap)
  (rc_BaseImage: string)
  (rc_DistrolessBaseImage: string)
  (rc_Cgo: bool)
  (rc_ConfigFile: string)
  (rc_VersionPackage: string)
  (rc_UpgradeFromVer: string)
  (rc_Tests: "string list")
  (rc_Features: "string list")
  (rc_PluginCompiler: pluginCompilerConfig)
  (rc_DeletedFiles: "string list")
  (rc_Branches: "(string, branchVals) gomap")
  (rc_Repos: "(string \<times> repoConfig) list")

record Policies =
  pol_Owner :: string
  pol_DeletedFiles :: "string list"
  pol_Groups :: "(string, repoConfig) gomap"

record RepoPolicy =
  rp_Owner :: string
  rp_Name :: string
  rp_Default :: string
  rp_PackageName :: string
  rp_Binary :: string
  rp_Builds :: buildMap
  rp_Reviewers :: "string list"
  rp_ExposePorts :: string
  rp_Cgo :: bool
  rp_ConfigFile :: string
  rp_VersionPackage :: string
  rp_UpgradeFromVer :: string
  rp_Branch :: string
  rp_Branchvals :: branchVals
  rp_Branches :: "(string, branchVals) gomap"
  rp_Timestamp :: string

text \<open>The zero values of the structs.\<close>

definition zero_nextgen :: pluginCompilerNextGenConfig where
  "zero_nextgen = \<lparr>
     ng_TagSuffix = [], ng_BaseImageName = [], ng_BaseImageTag = [], ng_BaseImageRef = [],
     ng_WorkflowBaseImageName = [], ng_WorkflowBaseImageTag = [], ng_BaseImage = [],
     ng_BaseImageDigest = [], ng_CustomizationID = [], ng_CustomizationOrg = [],
     ng_GlibcTarget = [], ng_Cross = [], ng_Slim = [], ng_WithCxx = [], ng_WithGit = [],
     ng_GatewayTrimpath = [], ng_CEArchs = [], ng_EEArchs = [], ng_FIPSArchs = [],
     ng_ImagePlatforms = [], ng_GatePlatform = [], ng_ExtraGateVariant = [], ng_Variants = []\<rparr>"

definition zero_compiler :: pluginCompilerConfig where
  "zero_compiler = \<lparr>
     pc_GoImage = [], pc_DepGuardRef = [], pc_DepGuardIf = [], pc_DockerBuildIf = [],
     pc_CheckoutDepth = 0, pc_PullRequestTypes = [], pc_PullRequestTypesStyle = [],
     pc_Variants = [], pc_NextGen = zero_nextgen\<rparr>"

definition zero_branchvals :: branchVals where
  "zero_branchvals = \<lparr>
     bv_Buildenv = [], bv_BaseImage = [], bv_DistrolessBaseImage = [], bv_Cgo = False,
     bv_ConfigFile = [], bv_VersionPackage = [], bv_UpgradeFromVer = [], bv_Tests = [],
     bv_Features = [], bv_PluginCompiler = zero_compiler, bv_Builds = [], bv_DeletedFiles = []\<rparr>"

definition zero_repopolicy :: RepoPolicy where
  "zero_repopolicy = \<lparr>
     rp_Owner = [], rp_Name = [], rp_Default = [], rp_PackageName = [], rp_Binary = [],
     rp_Builds = [], rp_Reviewers = [], rp_ExposePorts = [], rp_Cgo = False,
     rp_ConfigFile = [], rp_VersionPackage = [], rp_UpgradeFromVer = [], rp_Branch = [],
     rp_Branchvals = zero_branchvals, rp_Branches = [], rp_Timestamp = []\<rparr>"

section \<open>The libraries\<close>

text \<open>
  \<open>copier.CopyWithOption(&dst, &src, Option{IgnoreEmpty: true})\<close> at the four pairs of types
  it is used at; the result is the new destination or an error.
\<close>

record copier =
  copy_pol_rp :: "Policies \<Rightarrow> RepoPolicy \<Rightarrow> string + RepoPolicy"
  copy_repo_rp :: "repoConfig \<Rightarrow> RepoPolicy \<Rightarrow> string + RepoPolicy"
  copy_repo_bv :: "repoConfig \<Rightarrow> branchVals \<Rightarrow> string + branchVals"
  copy_bv_bv :: "branchVals \<Rightarrow> branchVals \<Rightarrow> string + branchVals"

text \<open>\<open>mergo.Merge(&dst, src, WithOverride, WithAppendSlice)\<close> on maps of builds.\<close>

type_synonym mergo = "buildMap \<Rightarrow> buildMap \<Rightarrow> string + buildMap"

text \<open>A field of the source is copied unless it is the zero value.\<close>

definition ovl :: "'a \<Rightarrow> 'a \<Rightarrow> 'a \<Rightarrow> 'a" where
  "ovl zero src dst = (if src = zero then dst else src)"

definition over_repo_rp :: "repoConfig \<Rightarrow> RepoPolicy \<Rightarrow> RepoPolicy" where
  "over_repo_rp s d = d\<lparr>
     rp_Owner := ovl [] (rc_Owner s) (rp_Owner d),
     rp_ExposePorts := ovl [] (rc_ExposePorts s) (rp_ExposePorts d),
     rp_PackageName := ovl [] (rc_PackageName s) (rp_PackageName d),
     rp_Binary := ovl [] (rc_Binary s) (rp_Binary d),
     rp_Builds := ovl [] (rc_Builds s) (rp_Builds d),
     rp_Cgo := ovl False (rc_Cgo s) (rp_Cgo d),
     rp_ConfigFile := ovl [] (rc_ConfigFile s) (rp_ConfigFile d),
     rp_VersionPackage := ovl [] (rc_VersionPackage s) (rp_VersionPackage d),
     rp_UpgradeFromVer := ovl [] (rc_UpgradeFromVer s) (rp_UpgradeFromVer d)\<rparr>"

definition over_repo_bv :: "repoConfig \<Rightarrow> branchVals \<Rightarrow> branchVals" where
  "over_repo_bv s d = d\<lparr>
     bv_Buildenv := ovl [] (rc_Buildenv s) (bv_Buildenv d),
     bv_BaseImage := ovl [] (rc_BaseImage s) (bv_BaseImage d),
     bv_DistrolessBaseImage := ovl [] (rc_DistrolessBaseImage s) (bv_DistrolessBaseImage d),
     bv_Cgo := ovl False (rc_Cgo s) (bv_Cgo d),
     bv_ConfigFile := ovl [] (rc_ConfigFile s) (bv_ConfigFile d),
     bv_VersionPackage := ovl [] (rc_VersionPackage s) (bv_VersionPackage d),
     bv_UpgradeFromVer := ovl [] (rc_UpgradeFromVer s) (bv_UpgradeFromVer d),
     bv_Tests := ovl [] (rc_Tests s) (bv_Tests d),
     bv_Features := ovl [] (rc_Features s) (bv_Features d),
     bv_PluginCompiler := ovl zero_compiler (rc_PluginCompiler s) (bv_PluginCompiler d),
     bv_Builds := ovl [] (rc_Builds s) (bv_Builds d),
     bv_DeletedFiles := ovl [] (rc_DeletedFiles s) (bv_DeletedFiles d)\<rparr>"

definition over_bv_bv :: "branchVals \<Rightarrow> branchVals \<Rightarrow> branchVals" where
  "over_bv_bv s d = d\<lparr>
     bv_Buildenv := ovl [] (bv_Buildenv s) (bv_Buildenv d),
     bv_BaseImage := ovl [] (bv_BaseImage s) (bv_BaseImage d),
     bv_DistrolessBaseImage := ovl [] (bv_DistrolessBaseImage s) (bv_DistrolessBaseImage d),
     bv_Cgo := ovl False (bv_Cgo s) (bv_Cgo d),
     bv_ConfigFile := ovl [] (bv_ConfigFile s) (bv_ConfigFile d),
     bv_VersionPackage := ovl [] (bv_VersionPackage s) (bv_VersionPackage d),
     bv_UpgradeFromVer := ovl [] (bv_UpgradeFromVer s) (bv_UpgradeFromVer d),
     bv_Tests := ovl [] (bv_Tests s) (bv_Tests d),
     bv_Features := ovl [] (bv_Features s) (bv_Features d),
     bv_PluginCompiler := ovl zero_compiler (bv_PluginCompiler s) (bv_PluginCompiler d),
     bv_Builds := ovl [] (bv_Builds s) (bv_Builds d),
     bv_DeletedFiles := ovl [] (bv_DeletedFiles s) (bv_DeletedFiles d)\<rparr>"

text \<open>
  Documented: fields are copied by name, zero values (of structs too) are ignored, fields the
  source lacks or that are tagged \<open>copier:"-"\<close> are left alone.
\<close>

definition copier_laws :: "copier \<Rightarrow> bool" where
  "copier_laws c \<longleftrightarrow>
     (\<forall>s d d'. copy_pol_rp c s d = Inr d' \<longrightarrow> d' = d\<lparr>rp_Owner := ovl [] (pol_Owner s) (rp_Owner d)\<rparr>) \<and>
     (\<forall>s d d'. copy_repo_rp c s d = Inr d' \<longrightarrow> d' = over_repo_rp s d) \<and>
     (\<forall>s d d'. copy_repo_bv c s d = Inr d' \<longrightarrow> d' = over_repo_bv s d) \<and>
     (\<forall>s d d'. copy_bv_bv c s d = Inr d' \<longrightarrow> d' = over_bv_bv s d)"

definition over_build :: "build \<Rightarrow> build \<Rightarrow> build" where
  "over_build s d = d\<lparr>
     b_Dir := ovl [] (b_Dir s) (b_Dir d), b_Main := ovl [] (b_Main s) (b_Main d),
     b_Binary := ovl [] (b_Binary s) (b_Binary d),
     b_VersionPackage := ovl [] (b_VersionPackage s) (b_VersionPackage d),
     b_Flags := b_Flags d @ b_Flags s,
     b_BuildPackageName := ovl [] (b_BuildPackageName s) (b_BuildPackageName d),
     b_Description := ovl [] (b_Description s) (b_Description d),
     b_ImageTitle := ovl [] (b_ImageTitle s) (b_ImageTitle d),
     b_PCRepo := ovl [] (b_PCRepo s) (b_PCRepo d),
     b_UpgradeRepo := ovl [] (b_UpgradeRepo s) (b_UpgradeRepo d),
     b_DHRepo := ovl [] (b_DHRepo s) (b_DHRepo d),
     b_CSRepo := ovl [] (b_CSRepo s) (b_CSRepo d),
     b_CIRepo := ovl [] (b_CIRepo s) (b_CIRepo d),
     b_DockerBaseImage := ovl [] (b_DockerBaseImage s) (b_DockerBaseImage d),
     b_Feature := ovl [] (b_Feature s) (b_Feature d), b_Env := b_Env d @ b_Env s,
     b_Archs := b_Archs d @ b_Archs s\<rparr>"

text \<open>
  Documented: a key of the source that the destination lacks is added; where both have a
  (non-nil) struct, its nonzero scalars override and its slices are appended.
\<close>

definition mergo_laws :: "mergo \<Rightarrow> bool" where
  "mergo_laws merge \<longleftrightarrow>
     (\<forall>dst src m. gm_ok dst \<longrightarrow> gm_ok src \<longrightarrow> merge dst src = Inr m \<longrightarrow>
        gm_ok m \<and>
        (\<forall>k. gm_get src k = None \<longrightarrow> gm_get m k = gm_get dst k) \<and>
        (\<forall>k s. gm_get src k = Some (Some s) \<longrightarrow> gm_get dst k = None \<longrightarrow> gm_get m k = Some (Some s)) \<and>
        (\<forall>k s d. gm_get src k = Some (Some s) \<longrightarrow> gm_get dst k = Some (Some d) \<longrightarrow>
           gm_get m k = Some (Some (over_build s d))))"

section \<open>Operations\<close>

text \<open>\<open>func (rp *RepoPolicy) SetTimestamp(ts time.Time)\<close>; \<open>fmt\<close> formats as \<open>time.UnixDate\<close>.\<close>

definition SetTimestamp :: "(int \<Rightarrow> string) \<Rightarrow> int \<Rightarrow> int option \<Rightarrow> RepoPolicy \<Rightarrow> RepoPolicy" where
  "SetTimestamp fmt now ts rp =
     (let ts = (case ts of None \<Rightarrow> now | Some t \<Rightarrow> t) in rp\<lparr>rp_Timestamp := fmt ts\<rparr>)"

text \<open>\<open>func (rp *RepoPolicy) GetTimeStamp() (time.Time, error)\<close>\<close>

definition GetTimeStamp :: "(string \<Rightarrow> string + int) \<Rightarrow> RepoPolicy \<Rightarrow> string + int" where
  "GetTimeStamp parse rp = parse (rp_Timestamp rp)"

text \<open>\<open>func (rp *RepoPolicy) SetBranch(branch string) error\<close>; \<open>None\<close> is the error.\<close>

fun find_branch_ci :: "string \<Rightarrow> (string, branchVals) gomap \<Rightarrow> (string \<times> branchVals) option" where
  "find_branch_ci lowerBranch [] = None"
| "find_branch_ci lowerBranch ((k, v) # bs) =
     (if to_lower k = lowerBranch then Some (k, v) else find_branch_ci lowerBranch bs)"

definition SetBranch :: "string \<Rightarrow> RepoPolicy \<Rightarrow> RepoPolicy option" where
  "SetBranch branch rp =
     (case (case gm_get (rp_Branches rp) branch of
              Some bv \<Rightarrow> Some (branch, bv)
            | None \<Rightarrow> find_branch_ci (to_lower branch) (rp_Branches rp)) of
        None \<Rightarrow> None
      | Some (branch, bv) \<Rightarrow> Some (rp\<lparr>rp_Branch := branch, rp_Branchvals := bv\<rparr>))"

text \<open>\<open>func (rp *RepoPolicy) GetAllBranches() []string\<close>\<close>

definition GetAllBranches :: "RepoPolicy \<Rightarrow> string list" where
  "GetAllBranches rp = sort (gm_keys (rp_Branches rp))"

text \<open>\<open>func filterBuildsByFeature(builds buildMap, features []string) buildMap\<close>\<close>

definition build_wanted :: "string uset \<Rightarrow> build option \<Rightarrow> bool" where
  "build_wanted featureSet b =
     (case b of Some b \<Rightarrow> \<not> (b_Feature b \<noteq> [] \<and> \<not> Has featureSet (b_Feature b)) | None \<Rightarrow> True)"

definition filterBuildsByFeature :: "buildMap \<Rightarrow> string list \<Rightarrow> buildMap" where
  "filterBuildsByFeature builds features =
     (let featureSet = NewSetFromSlices [features] in
      fold (\<lambda>(name, b) filtered. if build_wanted featureSet b then gm_put name b filtered else filtered)
        builds [])"

text \<open>
  \<open>func mergeBuilds(r, b buildMap) buildMap\<close>: the copy of the repository's builds, which
  dereferences each of them; the clearing of lists the branch provides; the merge.
\<close>

fun copy_builds :: "buildMap \<Rightarrow> buildMap \<Rightarrow> buildMap go" where
  "copy_builds [] merged = Done merged"
| "copy_builds ((k, v) # r) merged =
     (case v of None \<Rightarrow> Panic ''nil pointer dereference''
      | Some cp \<Rightarrow> copy_builds r (gm_put k (Some cp) merged))"

definition clear_lists :: "build \<Rightarrow> build \<Rightarrow> build" where
  "clear_lists bv m =
     (let m = (if length (b_Archs bv) > 0 then m\<lparr>b_Archs := []\<rparr> else m)
      in if length (b_Flags bv) > 0 then m\<lparr>b_Flags := []\<rparr> else m)"

definition clear_overridden :: "buildMap \<Rightarrow> buildMap \<Rightarrow> buildMap" where
  "clear_overridden b merged =
     fold (\<lambda>(k, bv) merged. case bv of None \<Rightarrow> merged | Some bv \<Rightarrow>
             (case gm_get merged k of
                Some (Some m) \<Rightarrow> gm_put k (Some (clear_lists bv m)) merged
              | _ \<Rightarrow> merged)) b merged"

definition mergeBuilds :: "mergo \<Rightarrow> buildMap \<Rightarrow> buildMap \<Rightarrow> buildMap go" where
  "mergeBuilds merge r b =
     go_bind (copy_builds r []) (\<lambda>merged.
       case merge (clear_overridden b merged) b of
         Inl e \<Rightarrow> Fatal ''could not merge branch-level build definitions''
       | Inr merged \<Rightarrow> Done merged)"

text \<open>\<open>func (p *Policies) GetRepoPolicy(repo string) (RepoPolicy, error)\<close>\<close>

datatype policy_error = RepoNotFound string | CopyErr string

fun find_group :: "string \<Rightarrow> (string, repoConfig) gomap \<Rightarrow> (repoConfig \<times> repoConfig) option" where
  "find_group repo [] = None"
| "find_group repo ((grpName, grp) # gs) =
     (case gm_get (rc_Repos grp) repo of Some r \<Rightarrow> Some (grp, r) | None \<Rightarrow> find_group repo gs)"

definition branch_policy ::
  "copier \<Rightarrow> mergo \<Rightarrow> Policies \<Rightarrow> repoConfig \<Rightarrow> repoConfig \<Rightarrow> branchVals \<Rightarrow> (policy_error + branchVals) go" where
  "branch_policy cp merge p grp r bbv =
     (case res_bind (copy_repo_bv cp grp zero_branchvals) (\<lambda>rbv.
            res_bind (copy_repo_bv cp r rbv) (copy_bv_bv cp bbv)) of
        Inl e \<Rightarrow> Done (Inl (CopyErr e))
      | Inr rbv \<Rightarrow>
          go_bind (mergeBuilds merge (rc_Builds r) (bv_Builds bbv)) (\<lambda>builds.
            let rbv = rbv\<lparr>bv_Builds := builds\<rparr>;
                rbv = rbv\<lparr>bv_Features := Members (NewSetFromSlices
                        [rc_Features grp, rc_Features r, bv_Features bbv])\<rparr>;
                rbv = rbv\<lparr>bv_DeletedFiles := Members (NewSetFromSlices
                        [pol_DeletedFiles p, rc_DeletedFiles grp, rc_DeletedFiles r, bv_DeletedFiles bbv])\<rparr>;
                rbv = rbv\<lparr>bv_Builds := filterBuildsByFeature (bv_Builds rbv) (bv_Features rbv)\<rparr>
            in Done (Inr rbv)))"

fun all_branches ::
  "copier \<Rightarrow> mergo \<Rightarrow> Policies \<Rightarrow> repoConfig \<Rightarrow> repoConfig \<Rightarrow> (string, branchVals) gomap
     \<Rightarrow> (string, branchVals) gomap \<Rightarrow> (policy_error + (string, branchVals) gomap) go" where
  "all_branches cp merge p grp r [] allBranches = Done (Inr allBranches)"
| "all_branches cp merge p grp r ((b, bbv) # bs) allBranches =
     go_bind (branch_policy cp merge p grp r bbv) (\<lambda>res. case res of
         Inl e \<Rightarrow> Done (Inl e)
       | Inr rbv \<Rightarrow> all_branches cp merge p grp r bs (gm_put b rbv allBranches))"

definition GetRepoPolicy ::
  "copier \<Rightarrow> mergo \<Rightarrow> Policies \<Rightarrow> string \<Rightarrow> (policy_error + RepoPolicy) go" where
  "GetRepoPolicy cp merge p repo =
     (case find_group repo (pol_Groups p) of
        None \<Rightarrow> Done (Inl (RepoNotFound repo))
      | Some (grp, r) \<Rightarrow>
          (case res_bind (copy_pol_rp cp p (zero_repopolicy\<lparr>rp_Name := repo\<rparr>)) (copy_repo_rp cp r) of
             Inl e \<Rightarrow> Done (Inl (CopyErr e))
           | Inr rp \<Rightarrow>
               go_bind (all_branches cp merge p grp r (rc_Branches r) []) (\<lambda>res. case res of
                   Inl e \<Rightarrow> Done (Inl e)
                 | Inr allBranches \<Rightarrow> Done (Inr (rp\<lparr>rp_Branches := allBranches\<rparr>)))))"

section \<open>Levels of configuration\<close>

text \<open>
  The algebra behind the levels: a value that may be absent, and putting one level over
  another.  Interpreted on every kind of field that is copied.
\<close>

locale overlay =
  fixes none :: "'a" and over :: "'a \<Rightarrow> 'a \<Rightarrow> 'a"
  assumes none_over: "over none d = d"
    and over_none: "over s none = s"
    and over_some: "s \<noteq> none \<Longrightarrow> over s d = s"
begin

lemma over_assoc: "over a (over b c) = over (over a b) c"
  using none_over over_some by (cases "a = none") metis+

lemma over_idem: "over a (over a b) = over a b"
  using none_over over_some by (cases "a = none") metis+

text \<open>The value after any number of levels is that of the last level that sets one.\<close>

lemma levels: "foldr over ss none = (case List.find (\<lambda>s. s \<noteq> none) ss of None \<Rightarrow> none | Some s \<Rightarrow> s)"
  by (induction ss) (auto simp: none_over over_some)

lemma three_levels:
  "over a (over b (over c none)) = (if a \<noteq> none then a else if b \<noteq> none then b else c)"
  using none_over over_some over_none by auto

end

interpretation ovs: overlay "[] :: 'a list" "ovl []"
  by unfold_locales (auto simp: ovl_def)

interpretation ovb: overlay False "ovl False"
  by unfold_locales (auto simp: ovl_def)

interpretation ovc: overlay zero_compiler "ovl zero_compiler"
  by unfold_locales (auto simp: ovl_def)

lemmas ovl_levels = ovs.three_levels ovb.three_levels ovc.three_levels

lemma copier_lawsD:
  assumes "copier_laws cp"
  shows copy_pol_rpD: "copy_pol_rp cp ps d = Inr d' \<Longrightarrow> d' = d\<lparr>rp_Owner := ovl [] (pol_Owner ps) (rp_Owner d)\<rparr>"
    and copy_repo_rpD: "copy_repo_rp cp r d = Inr d' \<Longrightarrow> d' = over_repo_rp r d"
    and copy_repo_bvD: "copy_repo_bv cp r bv = Inr bv' \<Longrightarrow> bv' = over_repo_bv r bv"
    and copy_bv_bvD: "copy_bv_bv cp bs bv = Inr bv' \<Longrightarrow> bv' = over_bv_bv bs bv"
  using assms unfolding copier_laws_def by blast+

section \<open>Builds\<close>

lemma copy_builds_Done:
  "None \<notin> snd ` set r \<Longrightarrow> copy_builds r m = Done (fold (\<lambda>(k, v). gm_put k v) r m)"
  by (induction r m rule: copy_builds.induct) (auto split: option.splits)

lemma copy_builds_Panic:
  "None \<in> snd ` set r \<Longrightarrow> \<exists>e. copy_builds r m = Panic e"
  by (induction r m rule: copy_builds.induct) (auto split: option.splits)

lemma get_fold_put_pairs:
  "gm_ok r \<Longrightarrow> gm_ok m \<Longrightarrow> gm_get (fold (\<lambda>(k, v). gm_put k v) r m) k
     = (case gm_get r k of None \<Rightarrow> gm_get m k | Some v \<Rightarrow> Some v)"
proof (induction r arbitrary: m)
  case (Cons a r)
  obtain k' v' where a: "a = (k', v')" by force
  have "gm_get r k' = None" and "gm_ok r"
    using Cons.prems by (auto simp: gm_ok_def a map_of_eq_None_iff)
  with Cons.IH [of "gm_put k' v' m"] Cons.prems(2) show ?case
    by (auto simp: a gm.ok_put gm.get_put split: option.splits)
qed simp

lemma ok_fold_put_pairs: "gm_ok m \<Longrightarrow> gm_ok (fold (\<lambda>(k, v). gm_put k v) r m)"
  by (induction r arbitrary: m) (auto simp: gm.ok_put)

definition clear_opt :: "build option option \<Rightarrow> build option option \<Rightarrow> build option option" where
  "clear_opt bv m = (case (bv, m) of
      (Some (Some bv), Some (Some m)) \<Rightarrow> Some (Some (clear_lists bv m)) | _ \<Rightarrow> m)"

lemma clear_overridden_laws:
  assumes "gm_ok b" "gm_ok m"
  shows "gm_ok (clear_overridden b m)"
    and "gm_get (clear_overridden b m) k = clear_opt (gm_get b k) (gm_get m k)"
  using assms
proof (induction b arbitrary: m)
  case Nil
  { case 1 then show ?case by (simp add: clear_overridden_def)
  next case 2 then show ?case by (simp add: clear_overridden_def clear_opt_def) }
next
  case (Cons a b)
  obtain k' v' where a: "a = (k', v')" by force
  define nx where "nx = (\<lambda>m. case v' of None \<Rightarrow> m | Some bv \<Rightarrow>
      (case gm_get m k' of Some (Some x) \<Rightarrow> gm_put k' (Some (clear_lists bv x)) m | _ \<Rightarrow> m))"
  have unf: "clear_overridden (a # b) m = clear_overridden b (nx m)" for m
    by (simp add: clear_overridden_def a nx_def)
  have ok': "gm_ok (nx m)" if "gm_ok m" for m using that
    by (auto simp: nx_def gm.ok_put split: option.splits)
  { case (1 m)
    then show ?case using Cons.IH(1) [OF _ ok'] by (simp add: unf gm_ok_def)
  next
    case (2 m)
    then have "gm_get b k' = None" "gm_ok b" by (auto simp: gm_ok_def a map_of_eq_None_iff)
    with Cons.IH(2) [OF _ ok'] 2 have "gm_get (clear_overridden (a # b) m) k = clear_opt (gm_get b k) (gm_get (nx m) k)"
      unfolding unf by blast
    with 2 \<open>gm_get b k' = None\<close> show ?case
      by (auto simp: a clear_opt_def nx_def gm.get_put split: option.splits) }
qed

text \<open>What a merge of two builds keeps of each.\<close>

definition merged_build :: "build \<Rightarrow> build \<Rightarrow> build" where
  "merged_build s d = (over_build s d)
     \<lparr>b_Flags := if b_Flags s \<noteq> [] then b_Flags s else b_Flags d,
      b_Archs := if b_Archs s \<noteq> [] then b_Archs s else b_Archs d\<rparr>"

lemma over_build_clear: "over_build s (clear_lists s d) = merged_build s d"
  by (cases "b_Flags s"; cases "b_Archs s") (simp_all add: over_build_def clear_lists_def Let_def merged_build_def)

definition merge_opt :: "build option option \<Rightarrow> build option option \<Rightarrow> build option option" where
  "merge_opt s d = (case (s, d) of
      (None, d) \<Rightarrow> d | (s, None) \<Rightarrow> s | (Some (Some s), Some (Some d)) \<Rightarrow> Some (Some (merged_build s d))
    | (s, d) \<Rightarrow> d)"

lemma mergeBuilds_Done:
  assumes "mergo_laws merge" "gm_ok r" "gm_ok b" "None \<notin> snd ` set b"
    and "mergeBuilds merge r b = Done m"
  shows "gm_ok m" "gm_get m k = merge_opt (gm_get b k) (gm_get r k)"
proof -
  have nr: "None \<notin> snd ` set r"
    using assms(5) copy_builds_Panic [of r "[]"] by (auto simp: mergeBuilds_def)
  let ?c = "fold (\<lambda>(k, v). gm_put k v) r []"
  have c: "gm_ok ?c" "gm_get ?c k = gm_get r k"
    using get_fold_put_pairs [OF assms(2) gm.ok_empty] ok_fold_put_pairs [OF gm.ok_empty]
    by (auto split: option.splits)
  have mg: "merge (clear_overridden b ?c) b = Inr m"
    using assms(5) by (simp add: mergeBuilds_def copy_builds_Done [OF nr] split: sum.splits)
  note ok = clear_overridden_laws(1) [OF assms(3) c(1)]
  have laws: "gm_ok m" "gm_get b k = None \<Longrightarrow> gm_get m k = gm_get (clear_overridden b ?c) k"
    "\<And>s. gm_get b k = Some (Some s) \<Longrightarrow> gm_get (clear_overridden b ?c) k = None \<Longrightarrow> gm_get m k = Some (Some s)"
    "\<And>s d. gm_get b k = Some (Some s) \<Longrightarrow> gm_get (clear_overridden b ?c) k = Some (Some d)
       \<Longrightarrow> gm_get m k = Some (Some (over_build s d))"
    using assms(1) ok assms(3) mg unfolding mergo_laws_def by blast+
  show "gm_ok m" by (rule laws(1))
  have nb: "gm_get b k \<noteq> Some None" and nr': "gm_get r k \<noteq> Some None"
    using assms(4) nr map_of_SomeD by force+
  have cl: "gm_get (clear_overridden b ?c) k = clear_opt (gm_get b k) (gm_get r k)"
    using clear_overridden_laws(2) [OF assms(3) c(1)] c(2) by simp
  show "gm_get m k = merge_opt (gm_get b k) (gm_get r k)"
  proof (cases "gm_get b k")
    case None
    with laws(2) cl show ?thesis by (simp add: clear_opt_def merge_opt_def)
  next
    case (Some so)
    with nb obtain s where s: "gm_get b k = Some (Some s)" by (cases so) auto
    show ?thesis
    proof (cases "gm_get r k")
      case None
      with s cl laws(3) show ?thesis by (simp add: clear_opt_def merge_opt_def)
    next
      case (Some do)
      with nr' obtain d where d: "gm_get r k = Some (Some d)" by (cases do) auto
      with s cl laws(4) show ?thesis by (simp add: clear_opt_def merge_opt_def over_build_clear)
    qed
  qed
qed

lemma filterBuilds_get:
  assumes "gm_ok builds"
  shows "gm_get (filterBuildsByFeature builds features) k
    = (case gm_get builds k of None \<Rightarrow> None
       | Some b \<Rightarrow> if build_wanted (NewSetFromSlices [features]) b then Some b else None)"
proof -
  let ?w = "build_wanted (NewSetFromSlices [features])"
  have "gm_get (fold (\<lambda>(name, b) f. if ?w b then gm_put name b f else f) bs m) k
      = (case gm_get bs k of Some b \<Rightarrow> if ?w b then Some b else gm_get m k | None \<Rightarrow> gm_get m k)"
    if "gm_ok bs" "gm_ok m" for bs m
    using that
  proof (induction bs arbitrary: m)
    case (Cons a bs)
    obtain k' v' where a: "a = (k', v')" by force
    have "gm_get bs k' = None" "gm_ok bs" using Cons.prems by (auto simp: gm_ok_def a map_of_eq_None_iff)
    with Cons show ?case by (auto simp: a gm.ok_put gm.get_put split: option.splits)
  qed simp
  from this [OF assms gm.ok_empty] show ?thesis
    by (simp add: filterBuildsByFeature_def Let_def split: option.splits)
qed

section \<open>Branches\<close>

text \<open>The policy of one branch, as an equation.\<close>

lemma branch_policy_Inr:
  assumes "copier_laws cp" "branch_policy cp merge p grp r bbv = Done (Inr bv)"
  shows "\<exists>builds. mergeBuilds merge (rc_Builds r) (bv_Builds bbv) = Done builds \<and>
    (let fs = Members (NewSetFromSlices [rc_Features grp, rc_Features r, bv_Features bbv]) in
     bv = (over_bv_bv bbv (over_repo_bv r (over_repo_bv grp zero_branchvals)))
       \<lparr>bv_Builds := filterBuildsByFeature builds fs, bv_Features := fs,
        bv_DeletedFiles := Members (NewSetFromSlices
          [pol_DeletedFiles p, rc_DeletedFiles grp, rc_DeletedFiles r, bv_DeletedFiles bbv])\<rparr>)"
proof -
  obtain b1 b2 b3 where c: "copy_repo_bv cp grp zero_branchvals = Inr b1" "copy_repo_bv cp r b1 = Inr b2"
    "copy_bv_bv cp bbv b2 = Inr b3"
    using assms(2) by (auto simp: branch_policy_def split: sum.splits simp: res_bind_Inr_iff)
  then have "b3 = over_bv_bv bbv (over_repo_bv r (over_repo_bv grp zero_branchvals))"
    using copy_repo_bvD [OF assms(1)] copy_bv_bvD [OF assms(1)] by metis
  with assms(2) c show ?thesis
    by (auto simp: branch_policy_def go_bind_Done_iff Let_def)
qed

lemma all_branches_Inr:
  assumes "gm_ok bs" "all_branches cp merge p grp r bs acc = Done (Inr m)"
  shows "case gm_get bs b of
      Some bbv \<Rightarrow> \<exists>bv. branch_policy cp merge p grp r bbv = Done (Inr bv) \<and> gm_get m b = Some bv
    | None \<Rightarrow> gm_get m b = gm_get acc b"
  using assms
proof (induction bs arbitrary: acc)
  case (Cons a bs)
  obtain b' bbv' where a: "a = (b', bbv')" by force
  have n: "gm_get bs b' = None" "gm_ok bs" using Cons.prems(1) by (auto simp: gm_ok_def a map_of_eq_None_iff)
  obtain bv where bv: "branch_policy cp merge p grp r bbv' = Done (Inr bv)"
    "all_branches cp merge p grp r bs (gm_put b' bv acc) = Done (Inr m)"
    using Cons.prems(2) by (auto simp: a go_bind_Inr_iff)
  from Cons.IH [OF n(2) bv(2)] n bv(1) show ?case
    by (auto simp: a update_conv split: option.splits if_splits)
qed simp

lemma all_branches_keys:
  "all_branches cp merge p grp r bs acc = Done (Inr m) \<Longrightarrow> gm_ok acc
     \<Longrightarrow> gm_ok m \<and> set (gm_keys m) = set (gm_keys bs) \<union> set (gm_keys acc)"
proof (induction bs arbitrary: acc)
  case (Cons a bs)
  obtain b' bbv' where a: "a = (b', bbv')" by force
  obtain bv where bv: "all_branches cp merge p grp r bs (gm_put b' bv acc) = Done (Inr m)"
    using Cons.prems(1) by (auto simp: a go_bind_Inr_iff)
  from Cons.IH [OF bv gm.ok_put [OF Cons.prems(2)]] show ?case
    by (auto simp: a dom_update)
qed simp

lemma GetRepoPolicy_Inr:
  assumes "find_group repo (pol_Groups p) = Some (grp, r)"
    and "GetRepoPolicy cp merge p repo = Done (Inr rp)"
  shows "all_branches cp merge p grp r (rc_Branches r) [] = Done (Inr (rp_Branches rp))"
  using assms by (auto simp: GetRepoPolicy_def go_bind_Inr_iff split: sum.splits)

lemma GetRepoPolicy_branch:
  assumes "copier_laws cp" "gm_ok (rc_Branches r)" "find_group repo (pol_Groups p) = Some (grp, r)"
    and "GetRepoPolicy cp merge p repo = Done (Inr rp)" "gm_get (rc_Branches r) b = Some bbv"
  obtains bv builds where "gm_get (rp_Branches rp) b = Some bv"
    "mergeBuilds merge (rc_Builds r) (bv_Builds bbv) = Done builds"
    "bv = (over_bv_bv bbv (over_repo_bv r (over_repo_bv grp zero_branchvals)))
       \<lparr>bv_Builds := filterBuildsByFeature builds
          (Members (NewSetFromSlices [rc_Features grp, rc_Features r, bv_Features bbv])),
        bv_Features := Members (NewSetFromSlices [rc_Features grp, rc_Features r, bv_Features bbv]),
        bv_DeletedFiles := Members (NewSetFromSlices
          [pol_DeletedFiles p, rc_DeletedFiles grp, rc_DeletedFiles r, bv_DeletedFiles bbv])\<rparr>"
proof -
  from all_branches_Inr [OF assms(2) GetRepoPolicy_Inr [OF assms(3,4)], of b] assms(5)
  obtain bv where "branch_policy cp merge p grp r bbv = Done (Inr bv)" "gm_get (rp_Branches rp) b = Some bv"
    by auto
  with branch_policy_Inr [OF assms(1), of merge p grp r bbv bv] that show ?thesis
    by (auto simp: Let_def)
qed

lemma find_branch_ci_Some:
  "find_branch_ci l bs = Some (k, v) \<Longrightarrow> to_lower k = l \<and> (k, v) \<in> set bs"
  by (induction bs) (auto split: if_splits)

lemma find_branch_ci_None: "find_branch_ci l bs = None \<longleftrightarrow> (\<forall>k \<in> set (gm_keys bs). to_lower k \<noteq> l)"
  by (induction l bs rule: find_branch_ci.induct) auto

section \<open>Instances of the libraries\<close>

definition ref_copier :: copier where
  "ref_copier = \<lparr>copy_pol_rp = (\<lambda>s d. Inr (d\<lparr>rp_Owner := ovl [] (pol_Owner s) (rp_Owner d)\<rparr>)),
     copy_repo_rp = (\<lambda>s d. Inr (over_repo_rp s d)), copy_repo_bv = (\<lambda>s d. Inr (over_repo_bv s d)),
     copy_bv_bv = (\<lambda>s d. Inr (over_bv_bv s d))\<rparr>"

lemma ref_copier_laws: "copier_laws ref_copier"
  by (simp add: copier_laws_def ref_copier_def)

definition ref_merge_one :: "string \<times> build option \<Rightarrow> buildMap \<Rightarrow> buildMap" where
  "ref_merge_one = (\<lambda>(k, s) m. case (s, gm_get m k) of
      (Some s, Some (Some d)) \<Rightarrow> gm_put k (Some (over_build s d)) m
    | (None, Some d) \<Rightarrow> m
    | (s, _) \<Rightarrow> gm_put k s m)"

definition ref_mergo :: mergo where
  "ref_mergo dst src = Inr (fold ref_merge_one src dst)"

lemma ref_merge_one_get:
  "gm_ok m \<Longrightarrow> gm_get (ref_merge_one (k', s) m) k = (if k = k' then
     (case (s, gm_get m k) of (Some s, Some (Some d)) \<Rightarrow> Some (Some (over_build s d))
        | (None, Some d) \<Rightarrow> Some d | (s, _) \<Rightarrow> Some s) else gm_get m k)"
  by (auto simp: ref_merge_one_def gm.get_put split: option.splits)

lemma ref_merge_one_ok: "gm_ok m \<Longrightarrow> gm_ok (ref_merge_one a m)"
  by (auto simp: ref_merge_one_def gm.ok_put split: option.splits prod.splits)

lemma ref_mergo_get:
  "gm_ok src \<Longrightarrow> gm_ok dst \<Longrightarrow> gm_get (fold ref_merge_one src dst) k
     = (case gm_get src k of None \<Rightarrow> gm_get dst k
        | Some s \<Rightarrow> gm_get (ref_merge_one (k, s) dst) k)"
proof (induction src arbitrary: dst)
  case (Cons a src)
  obtain k' s' where a: "a = (k', s')" by force
  have "gm_get src k' = None" "gm_ok src" using Cons.prems(1) by (auto simp: gm_ok_def a map_of_eq_None_iff)
  with Cons.IH [OF _ ref_merge_one_ok [OF Cons.prems(2)], of a] Cons.prems(2) show ?case
    by (auto simp: a ref_merge_one_get ref_merge_one_ok split: option.splits)
qed simp

lemma ref_mergo_laws: "mergo_laws ref_mergo"
proof -
  have "gm_ok (fold ref_merge_one src dst)" if "gm_ok dst" for src dst
    using that by (induction src arbitrary: dst) (auto simp: ref_merge_one_ok)
  then show ?thesis
    unfolding mergo_laws_def ref_mergo_def
    by (auto simp: ref_mergo_get ref_merge_one_get)
qed

section \<open>Properties\<close>

definition first_set :: "'a \<Rightarrow> 'a list \<Rightarrow> 'a" where
  "first_set zero vals = (case List.find (\<lambda>v. v \<noteq> zero) vals of None \<Rightarrow> zero | Some v \<Rightarrow> v)"

lemma ovl_first_set: "ovl z a (ovl z b (ovl z c z)) = first_set z [a, b, c]"
  by (simp add: ovl_def first_set_def)

lemma levels_sel:
  fixes bbv :: branchVals and r grp :: repoConfig
  defines "bv \<equiv> over_bv_bv bbv (over_repo_bv r (over_repo_bv grp zero_branchvals))"
  shows "bv_Buildenv bv = first_set [] [bv_Buildenv bbv, rc_Buildenv r, rc_Buildenv grp]"
    and "bv_BaseImage bv = first_set [] [bv_BaseImage bbv, rc_BaseImage r, rc_BaseImage grp]"
    and "bv_DistrolessBaseImage bv
        = first_set [] [bv_DistrolessBaseImage bbv, rc_DistrolessBaseImage r, rc_DistrolessBaseImage grp]"
    and "bv_Cgo bv = (bv_Cgo bbv \<or> rc_Cgo r \<or> rc_Cgo grp)"
    and "bv_ConfigFile bv = first_set [] [bv_ConfigFile bbv, rc_ConfigFile r, rc_ConfigFile grp]"
    and "bv_VersionPackage bv = first_set [] [bv_VersionPackage bbv, rc_VersionPackage r, rc_VersionPackage grp]"
    and "bv_UpgradeFromVer bv = first_set [] [bv_UpgradeFromVer bbv, rc_UpgradeFromVer r, rc_UpgradeFromVer grp]"
    and "bv_Tests bv = first_set [] [bv_Tests bbv, rc_Tests r, rc_Tests grp]"
    and "bv_PluginCompiler bv
        = first_set zero_compiler [bv_PluginCompiler bbv, rc_PluginCompiler r, rc_PluginCompiler grp]"
  unfolding bv_def over_bv_bv_def over_repo_bv_def zero_branchvals_def
  by (simp_all add: ovl_first_set, simp add: first_set_def)

lemma branch_values:
  assumes "copier_laws cp" "gm_ok (rc_Branches r)" "find_group repo (pol_Groups p) = Some (grp, r)"
    and "GetRepoPolicy cp merge p repo = Done (Inr rp)" and b: "gm_get (rc_Branches r) b = Some bbv"
  shows "\<exists>bv. gm_get (rp_Branches rp) b = Some bv \<and>
      bv_Buildenv bv = first_set [] [bv_Buildenv bbv, rc_Buildenv r, rc_Buildenv grp] \<and>
      bv_BaseImage bv = first_set [] [bv_BaseImage bbv, rc_BaseImage r, rc_BaseImage grp] \<and>
      bv_DistrolessBaseImage bv
        = first_set [] [bv_DistrolessBaseImage bbv, rc_DistrolessBaseImage r, rc_DistrolessBaseImage grp] \<and>
      bv_Cgo bv = (bv_Cgo bbv \<or> rc_Cgo r \<or> rc_Cgo grp) \<and>
      bv_ConfigFile bv = first_set [] [bv_ConfigFile bbv, rc_ConfigFile r, rc_ConfigFile grp] \<and>
      bv_VersionPackage bv = first_set [] [bv_VersionPackage bbv, rc_VersionPackage r, rc_VersionPackage grp] \<and>
      bv_UpgradeFromVer bv = first_set [] [bv_UpgradeFromVer bbv, rc_UpgradeFromVer r, rc_UpgradeFromVer grp] \<and>
      bv_Tests bv = first_set [] [bv_Tests bbv, rc_Tests r, rc_Tests grp] \<and>
      bv_PluginCompiler bv
        = first_set zero_compiler [bv_PluginCompiler bbv, rc_PluginCompiler r, rc_PluginCompiler grp] \<and>
      bv_Features bv = sorted_list_of_set
        (set (rc_Features grp) \<union> set (rc_Features r) \<union> set (bv_Features bbv)) \<and>
      bv_DeletedFiles bv = sorted_list_of_set
        (set (pol_DeletedFiles p) \<union> set (rc_DeletedFiles grp) \<union> set (rc_DeletedFiles r) \<union> set (bv_DeletedFiles bbv))"
proof -
  let ?bv0 = "over_bv_bv bbv (over_repo_bv r (over_repo_bv grp zero_branchvals))"
  from GetRepoPolicy_branch [OF assms]
  obtain bv B where bv: "gm_get (rp_Branches rp) b = Some bv"
    "bv = ?bv0\<lparr>bv_Builds := B,
        bv_Features := Members (NewSetFromSlices [rc_Features grp, rc_Features r, bv_Features bbv]),
        bv_DeletedFiles := Members (NewSetFromSlices
          [pol_DeletedFiles p, rc_DeletedFiles grp, rc_DeletedFiles r, bv_DeletedFiles bbv])\<rparr>"
    by metis
  have un: "Members (NewSetFromSlices [rc_Features grp, rc_Features r, bv_Features bbv])
      = sorted_list_of_set (set (rc_Features grp) \<union> set (rc_Features r) \<union> set (bv_Features bbv))"
    "Members (NewSetFromSlices
          [pol_DeletedFiles p, rc_DeletedFiles grp, rc_DeletedFiles r, bv_DeletedFiles bbv])
      = sorted_list_of_set (set (pol_DeletedFiles p) \<union> set (rc_DeletedFiles grp)
          \<union> set (rc_DeletedFiles r) \<union> set (bv_DeletedFiles bbv))"
    by (simp_all add: us.members_canonical Un_assoc)
  show ?thesis
    by (intro exI [of _ bv] conjI bv(1)) (simp_all add: bv(2) un levels_sel)
qed


definition wit_build :: "string \<Rightarrow> string list \<Rightarrow> string \<Rightarrow> build" where
  "wit_build dir flags feature = \<lparr>b_Dir = dir, b_Main = [], b_Binary = [], b_VersionPackage = [], b_Flags = flags,
     b_BuildPackageName = [], b_Description = [], b_ImageTitle = [], b_PCRepo = [], b_UpgradeRepo = [],
     b_DHRepo = [], b_CSRepo = [], b_CIRepo = [], b_DockerBaseImage = [], b_Feature = feature,
     b_Env = [''E''], b_Archs = []\<rparr>"

definition wit_branch :: branchVals where
  "wit_branch = zero_branchvals\<lparr>bv_Buildenv := ''b'', bv_Features := [''f''],
     bv_Builds := [(''std'', Some (wit_build ''d'' [''x''] []))]\<rparr>"

definition wit_repo :: repoConfig where
  "wit_repo = RepoConfig ''o'' [] [] [] ''r'' [(''std'', Some (wit_build [] [''a'', ''b''] [])),
     (''fips'', Some (wit_build ''e'' [] ''fips''))] ''img'' [] False [] [] [] [] [''e''] zero_compiler []
     [(''master'', wit_branch), (''dev'', zero_branchvals)] []"

definition wit_group :: repoConfig where
  "wit_group = RepoConfig [] [] [] [] [] [] [] [] True [] [] [] [] [''a''] zero_compiler [] [] [(''tyk'', wit_repo)]"

definition wit_policies :: Policies where
  "wit_policies = \<lparr>pol_Owner = ''T'', pol_DeletedFiles = [''old''], pol_Groups = [(''g'', wit_group)]\<rparr>"

lemma wit_policy_found: "find_group ''tyk'' (pol_Groups wit_policies) = Some (wit_group, wit_repo)"
  by (simp add: wit_policies_def wit_group_def)

lemma wit_policy_branches: "gm_ok (rc_Branches wit_repo)" "gm_get (rc_Branches wit_repo) ''master'' = Some wit_branch"
  by (simp_all add: wit_repo_def gm_ok_def)

lemma branch_policy_ref:
  assumes "None \<notin> snd ` set (rc_Builds r)"
  shows "\<exists>bv. branch_policy ref_copier ref_mergo p grp r bbv = Done (Inr bv)"
  using assms
  by (simp add: branch_policy_def ref_copier_def mergeBuilds_def copy_builds_Done ref_mergo_def Let_def)

lemma wit_policy_Done: "\<exists>rp. GetRepoPolicy ref_copier ref_mergo wit_policies ''tyk'' = Done (Inr rp)"
proof -
  have nn: "None \<notin> snd ` set (rc_Builds wit_repo)" by (simp add: wit_repo_def)
  obtain b1 where 1: "branch_policy ref_copier ref_mergo wit_policies wit_group wit_repo wit_branch = Done (Inr b1)"
    using branch_policy_ref [OF nn] by blast
  obtain b2 where 2: "branch_policy ref_copier ref_mergo wit_policies wit_group wit_repo zero_branchvals = Done (Inr b2)"
    using branch_policy_ref [OF nn] by blast
  have "rc_Branches wit_repo = [(''master'', wit_branch), (''dev'', zero_branchvals)]" by (simp add: wit_repo_def)
  then have "\<exists>m. all_branches ref_copier ref_mergo wit_policies wit_group wit_repo (rc_Branches wit_repo) [] = Done (Inr m)"
    by (simp add: 1 2)
  then show ?thesis
    by (auto simp: GetRepoPolicy_def wit_policy_found ref_copier_def)
qed


text \<open>
  (C14) The builds of a branch.  Under every name, a computed branch has the merge of the
  repository's and the branch's build: a build only one level defines is taken whole; where
  both do, the branch's nonempty scalars win, its flags and architectures replace the
  repository's when it lists any, and its environment is appended.  A build that needs a
  feature stays exactly when the branch has that feature.
\<close>

theorem branch_builds:
  assumes "copier_laws cp" "mergo_laws merge" "gm_ok (rc_Branches r)"
    and "find_group repo (pol_Groups p) = Some (grp, r)"
    and "GetRepoPolicy cp merge p repo = Done (Inr rp)" "gm_get (rc_Branches r) b = Some bbv"
    and "gm_ok (rc_Builds r)" "gm_ok (bv_Builds bbv)" "None \<notin> snd ` set (bv_Builds bbv)"
  shows "\<exists>bv. gm_get (rp_Branches rp) b = Some bv \<and>
     (\<forall>name. gm_get (bv_Builds bv) name =
       (case merge_opt (gm_get (bv_Builds bbv) name) (gm_get (rc_Builds r) name) of
          Some (Some x) \<Rightarrow> if b_Feature x \<noteq> [] \<and> b_Feature x \<notin> set (bv_Features bv) then None else Some (Some x)
        | x \<Rightarrow> x))"
proof -
  from GetRepoPolicy_branch [OF assms(1,3,4,5,6)]
  obtain bv builds where bv: "gm_get (rp_Branches rp) b = Some bv"
    and m: "mergeBuilds merge (rc_Builds r) (bv_Builds bbv) = Done builds"
    and bveq: "bv = (over_bv_bv bbv (over_repo_bv r (over_repo_bv grp zero_branchvals)))
       \<lparr>bv_Builds := filterBuildsByFeature builds
          (Members (NewSetFromSlices [rc_Features grp, rc_Features r, bv_Features bbv])),
        bv_Features := Members (NewSetFromSlices [rc_Features grp, rc_Features r, bv_Features bbv]),
        bv_DeletedFiles := Members (NewSetFromSlices
          [pol_DeletedFiles p, rc_DeletedFiles grp, rc_DeletedFiles r, bv_DeletedFiles bbv])\<rparr>"
    by metis
  then have fs: "bv_Builds bv = filterBuildsByFeature builds (bv_Features bv)" by simp
  note mm = mergeBuilds_Done [OF assms(2,7,8,9) m]
  have "gm_get (bv_Builds bv) name =
       (case merge_opt (gm_get (bv_Builds bbv) name) (gm_get (rc_Builds r) name) of
          Some (Some x) \<Rightarrow> if b_Feature x \<noteq> [] \<and> b_Feature x \<notin> set (bv_Features bv) then None else Some (Some x)
        | x \<Rightarrow> x)" for name
    unfolding fs filterBuilds_get [OF mm(1)] mm(2)
    by (auto simp: build_wanted_def us.has_new split: option.splits)
  with bv show ?thesis by blast
qed

theorem branch_builds_witness:
  "\<exists>rp bv x. GetRepoPolicy ref_copier ref_mergo wit_policies ''tyk'' = Done (Inr rp) \<and>
     gm_get (rp_Branches rp) ''master'' = Some bv \<and> gm_get (bv_Builds bv) ''std'' = Some (Some x) \<and>
     b_Flags x = [''x''] \<and> b_Env x = [''E'', ''E''] \<and> b_Dir x = ''d''"
proof -
  obtain rp where rp: "GetRepoPolicy ref_copier ref_mergo wit_policies ''tyk'' = Done (Inr rp)"
    using wit_policy_Done by blast
  have ok: "gm_ok (rc_Builds wit_repo)" "gm_ok (bv_Builds wit_branch)" "None \<notin> snd ` set (bv_Builds wit_branch)"
    by (simp_all add: wit_repo_def wit_branch_def gm_ok_def)
  from branch_builds [OF ref_copier_laws ref_mergo_laws wit_policy_branches(1) wit_policy_found rp
      wit_policy_branches(2) ok]
  obtain bv where bv: "gm_get (rp_Branches rp) ''master'' = Some bv"
    "gm_get (bv_Builds bv) ''std'' =
       (case merge_opt (gm_get (bv_Builds wit_branch) ''std'') (gm_get (rc_Builds wit_repo) ''std'') of
          Some (Some x) \<Rightarrow> if b_Feature x \<noteq> [] \<and> b_Feature x \<notin> set (bv_Features bv) then None else Some (Some x)
        | x \<Rightarrow> x)" by blast
  have "gm_get (bv_Builds wit_branch) ''std'' = Some (Some (wit_build ''d'' [''x''] []))"
    "gm_get (rc_Builds wit_repo) ''std'' = Some (Some (wit_build [] [''a'', ''b''] []))"
    by (simp_all add: wit_branch_def wit_repo_def)
  with bv rp show ?thesis
    by (intro exI [of _ rp] exI [of _ bv])
      (simp add: merge_opt_def merged_build_def over_build_def wit_build_def ovl_def)
qed

text \<open>
  Merging builds panics exactly when a build of the repository level is nil; otherwise,
  with a library that reports no error, it returns, and no name of either level is lost.
\<close>

theorem mergeBuilds_total_iff:
  assumes "mergo_laws merge" "\<And>dst src. \<exists>m. merge dst src = Inr m"
    and "gm_ok r" "gm_ok b" "None \<notin> snd ` set b"
  shows "if None \<in> snd ` set r then \<exists>e. mergeBuilds merge r b = Panic e
     else \<exists>m. mergeBuilds merge r b = Done m \<and> set (gm_keys m) = set (gm_keys r) \<union> set (gm_keys b)"
proof (cases "None \<in> snd ` set r")
  case True
  with copy_builds_Panic [OF True, of "[]"] show ?thesis by (auto simp: mergeBuilds_def)
next
  case False
  then have "\<exists>m. mergeBuilds merge r b = Done m"
    using assms(2) [of "clear_overridden b (fold (\<lambda>(k, v). gm_put k v) r [])" b]
    by (auto simp: mergeBuilds_def copy_builds_Done)
  then obtain m where m: "mergeBuilds merge r b = Done m" by blast
  note mm = mergeBuilds_Done [OF assms(1,3,4,5) m]
  have "gm_get m k = None \<longleftrightarrow> gm_get r k = None \<and> gm_get b k = None" for k
    unfolding mm(2) by (auto simp: merge_opt_def split: option.splits)
  then have "set (gm_keys m) = set (gm_keys r) \<union> set (gm_keys b)"
    using gm.set_keys [OF mm(1)] gm.set_keys [OF assms(3)] gm.set_keys [OF assms(4)] by blast
  with m False show ?thesis by auto
qed

theorem mergeBuilds_total_witness:
  "(\<exists>m. mergeBuilds ref_mergo [(''a'', Some (wit_build [] [] []))] [(''b'', Some (wit_build [] [] []))] = Done m
      \<and> set (gm_keys m) = {''a'', ''b''}) \<and>
   (\<exists>e. mergeBuilds ref_mergo [(''a'', None)] [(''b'', Some (wit_build [] [] []))] = Panic e)"
proof -
  have tot: "\<exists>m. ref_mergo dst src = Inr m" for dst src by (simp add: ref_mergo_def)
  show ?thesis
    using mergeBuilds_total_iff [OF ref_mergo_laws tot, of "[(''a'', Some (wit_build [] [] []))]" "[(''b'', Some (wit_build [] [] []))]"]
      mergeBuilds_total_iff [OF ref_mergo_laws tot, of "[(''a'', None)]" "[(''b'', Some (wit_build [] [] []))]"]
    by (simp add: gm_ok_def insert_commute)
qed

text \<open>
  \<open>SetBranch\<close> fails exactly when no configured branch has the name up to case; when it
  succeeds it selects a configured branch with that name, the exact one if there is one, sets
  both the name and the values of that branch, and changes nothing else.
\<close>

theorem SetBranch_selects:
  "(case SetBranch branch rp of
      None \<Rightarrow> \<forall>k \<in> set (gm_keys (rp_Branches rp)). to_lower k \<noteq> to_lower branch
    | Some rp' \<Rightarrow> \<exists>k bv. (k, bv) \<in> set (rp_Branches rp) \<and> to_lower k = to_lower branch \<and>
        (branch \<in> set (gm_keys (rp_Branches rp)) \<longrightarrow> k = branch) \<and>
        rp' = rp\<lparr>rp_Branch := k, rp_Branchvals := bv\<rparr>)"
proof (cases "gm_get (rp_Branches rp) branch")
  case None
  then have nb: "branch \<notin> set (gm_keys (rp_Branches rp))" by (simp add: map_of_eq_None_iff)
  show ?thesis
  proof (cases "find_branch_ci (to_lower branch) (rp_Branches rp)")
    case None': None
    then have "\<forall>k \<in> set (gm_keys (rp_Branches rp)). to_lower k \<noteq> to_lower branch"
      by (simp only: find_branch_ci_None)
    with None None' show ?thesis by (simp add: SetBranch_def)
  next
    case (Some kv)
    then obtain k bv where kv: "kv = (k, bv)" "to_lower k = to_lower branch" "(k, bv) \<in> set (rp_Branches rp)"
      using find_branch_ci_Some by (cases kv) metis
    with None Some have "SetBranch branch rp = Some (rp\<lparr>rp_Branch := k, rp_Branchvals := bv\<rparr>)"
      by (simp add: SetBranch_def)
    with kv nb show ?thesis by (simp only: option.case) blast
  qed
next
  case (Some bv)
  then have "SetBranch branch rp = Some (rp\<lparr>rp_Branch := branch, rp_Branchvals := bv\<rparr>)"
    by (simp add: SetBranch_def)
  with map_of_SomeD [OF Some] show ?thesis by (simp only: option.case) blast
qed

theorem SetBranch_witness:
  "\<exists>rp'. SetBranch ''Release-5'' (zero_repopolicy\<lparr>rp_Branches := [(''master'', zero_branchvals), (''release-5'', wit_branch)]\<rparr>)
      = Some rp' \<and> rp_Branch rp' = ''release-5''"
proof -
  let ?rp = "zero_repopolicy\<lparr>rp_Branches := [(''master'', zero_branchvals), (''release-5'', wit_branch)]\<rparr>"
  have l: "to_lower ''Release-5'' = ''release-5''" "to_lower ''release-5'' = ''release-5''" "to_lower ''master'' = ''master''"
    by code_simp+
  show ?thesis
    using SetBranch_selects [where branch = "''Release-5''" and rp = ?rp] l by (auto split: option.splits)
qed

section \<open>Well-formed policies\<close>

text \<open>
  What the rest of the program relies on: one entry per branch and per build, no build that is nil, sorted lists
  without repetition, and no build whose feature the branch lacks.
\<close>

definition build_fits :: "branchVals \<Rightarrow> build option \<Rightarrow> bool" where
  "build_fits bv x = (case x of None \<Rightarrow> False | Some b \<Rightarrow> b_Feature b = [] \<or> b_Feature b \<in> set (bv_Features bv))"

definition branch_ok :: "branchVals \<Rightarrow> bool" where
  "branch_ok bv \<longleftrightarrow> sorted (bv_Features bv) \<and> distinct (bv_Features bv) \<and>
     sorted (bv_DeletedFiles bv) \<and> distinct (bv_DeletedFiles bv) \<and>
     gm_ok (bv_Builds bv) \<and> (\<forall>x \<in> snd ` set (bv_Builds bv). build_fits bv x)"

definition policy_ok :: "RepoPolicy \<Rightarrow> bool" where
  "policy_ok rp \<longleftrightarrow> gm_ok (rp_Branches rp) \<and> (\<forall>bv \<in> snd ` set (rp_Branches rp). branch_ok bv)"

text \<open>A configured repository: the maps are maps, and no build of a branch is nil.\<close>

definition config_ok :: "repoConfig \<Rightarrow> bool" where
  "config_ok r \<longleftrightarrow> gm_ok (rc_Branches r) \<and> gm_ok (rc_Builds r) \<and>
     (\<forall>bv \<in> snd ` set (rc_Branches r). gm_ok (bv_Builds bv) \<and> None \<notin> snd ` set (bv_Builds bv))"

lemma gm_ok_fold_if: "gm_ok m \<Longrightarrow> gm_ok (fold (\<lambda>(k, v) m. if P v then gm_put k v m else m) xs m)"
  by (induction xs arbitrary: m) (auto simp: map_simps)

lemma filterBuilds_ok: "gm_ok (filterBuildsByFeature bs fs)"
  by (simp add: filterBuildsByFeature_def Let_def gm_ok_fold_if gm.ok_empty)

lemma merge_opt_not_nil: "a \<noteq> Some None \<Longrightarrow> b \<noteq> Some None \<Longrightarrow> merge_opt a b \<noteq> Some None"
  by (cases a; cases b) (auto simp: merge_opt_def split: option.splits)

lemma members_sorted: "sorted (Members (NewSetFromSlices xss))" "distinct (Members (NewSetFromSlices xss))"
  by (simp_all add: us.members_canonical)

lemma gm_value: "gm_ok m \<Longrightarrow> x \<in> snd ` set m \<Longrightarrow> \<exists>k. gm_get m k = Some x"
  by (auto simp: gm_ok_def dest: map_of_is_SomeI)

lemma mergeBuilds_no_nil:
  assumes "mergo_laws merge" "gm_ok r" "gm_ok b" "None \<notin> snd ` set b" "mergeBuilds merge r b = Done m"
  shows "gm_get m k \<noteq> Some None"
proof -
  have "None \<notin> snd ` set r" using assms(5) copy_builds_Panic [of r "[]"] by (auto simp: mergeBuilds_def)
  then have "gm_get r k \<noteq> Some None" "gm_get b k \<noteq> Some None"
    using assms(4) map_of_SomeD [of _ k None] by force+
  then show ?thesis unfolding mergeBuilds_Done(2) [OF assms] by (rule merge_opt_not_nil [rotated])
qed

lemma GetRepoPolicy_ok:
  assumes "copier_laws cp" "mergo_laws merge" "config_ok r" "find_group repo (pol_Groups p) = Some (grp, r)"
    and "GetRepoPolicy cp merge p repo = Done (Inr rp)"
  shows "policy_ok rp"
proof -
  have r: "gm_ok (rc_Branches r)" "gm_ok (rc_Builds r)"
    "\<And>b bbv. gm_get (rc_Branches r) b = Some bbv \<Longrightarrow> gm_ok (bv_Builds bbv) \<and> None \<notin> snd ` set (bv_Builds bbv)"
    using assms(3) map_of_SomeD [of "rc_Branches r"] by (force simp: config_ok_def)+
  have keys: "gm_ok (rp_Branches rp)" "set (gm_keys (rp_Branches rp)) = set (gm_keys (rc_Branches r))"
    using all_branches_keys [OF GetRepoPolicy_Inr [OF assms(4,5)] gm.ok_empty] by simp_all
  have "branch_ok bv" if mem: "bv \<in> snd ` set (rp_Branches rp)" for bv
  proof -
    obtain b where b: "gm_get (rp_Branches rp) b = Some bv" using gm_value [OF keys(1) mem] by blast
    then have "b \<in> set (gm_keys (rc_Branches r))" using keys(2) by (metis domI domIff map_of_eq_None_iff list.set_map)
    then obtain bbv where bbv: "gm_get (rc_Branches r) b = Some bbv" by (metis map_of_eq_None_iff list.set_map not_None_eq)
    from GetRepoPolicy_branch [OF assms(1) r(1) assms(4,5) bbv] obtain bv' builds where
      bv': "gm_get (rp_Branches rp) b = Some bv'"
      and m: "mergeBuilds merge (rc_Builds r) (bv_Builds bbv) = Done builds"
      and eq: "bv' = (over_bv_bv bbv (over_repo_bv r (over_repo_bv grp zero_branchvals)))
       \<lparr>bv_Builds := filterBuildsByFeature builds
          (Members (NewSetFromSlices [rc_Features grp, rc_Features r, bv_Features bbv])),
        bv_Features := Members (NewSetFromSlices [rc_Features grp, rc_Features r, bv_Features bbv]),
        bv_DeletedFiles := Members (NewSetFromSlices
          [pol_DeletedFiles p, rc_DeletedFiles grp, rc_DeletedFiles r, bv_DeletedFiles bbv])\<rparr>"
      by metis
    have same: "bv' = bv" using bv' b by simp
    note bv = eq [unfolded same]
    note bb = r(3) [OF bbv]
    note args = assms(2) r(2) conjunct1 [OF bb] conjunct2 [OF bb] m
    have "build_fits bv x" if x: "x \<in> snd ` set (bv_Builds bv)" for x
    proof -
      have fs: "bv_Builds bv = filterBuildsByFeature builds (bv_Features bv)" by (simp add: bv)
      obtain k where "gm_get (bv_Builds bv) k = Some x"
        using gm_value [OF _ x] filterBuilds_ok fs by metis
      then have "gm_get builds k = Some x" "build_wanted (NewSetFromSlices [bv_Features bv]) x"
        unfolding fs filterBuilds_get [OF mergeBuilds_Done(1) [OF args]] by (auto split: option.splits if_splits)
      then show ?thesis
        using mergeBuilds_no_nil [OF args, of k] by (cases x) (auto simp: build_wanted_def build_fits_def us.has_new)
    qed
    then show ?thesis by (simp add: branch_ok_def bv members_sorted filterBuilds_ok)
  qed
  with keys(1) show ?thesis by (simp add: policy_ok_def)
qed

text \<open>Selecting a branch keeps the policy and takes the values of one of its branches.\<close>

lemma SetBranch_ok:
  assumes "SetBranch b rp = Some rp'"
  shows "rp_Branches rp' = rp_Branches rp \<and> (rp_Branch rp', rp_Branchvals rp') \<in> set (rp_Branches rp)"
proof (cases "gm_get (rp_Branches rp) b")
  case None
  with assms obtain k bv where "find_branch_ci (to_lower b) (rp_Branches rp) = Some (k, bv)"
    "rp' = rp\<lparr>rp_Branch := k, rp_Branchvals := bv\<rparr>"
    by (auto simp: SetBranch_def split: option.splits)
  then show ?thesis using find_branch_ci_Some by force
next
  case (Some bv)
  with assms show ?thesis by (auto simp: SetBranch_def dest: map_of_SomeD)
qed

text \<open>
  (C17) Every policy the program works with is well-formed.  Whatever the three levels of the configuration say, and
  whatever the copying and merging libraries do within their laws, the policy of a configured repository has
  one entry per branch, no nil build, no build whose feature its branch lacks, and sorted lists of features and
  deleted files without repetition; and selecting a branch keeps this, with the values selected being those of
  one of the branches.
\<close>

theorem policies_are_well_formed:
  assumes "copier_laws cp" "mergo_laws merge" "config_ok r" "find_group repo (pol_Groups p) = Some (grp, r)"
    and "GetRepoPolicy cp merge p repo = Done (Inr rp)"
  shows "policy_ok rp \<and> (\<forall>b rp'. SetBranch b rp = Some rp' \<longrightarrow>
     policy_ok rp' \<and> branch_ok (rp_Branchvals rp') \<and> (rp_Branch rp', rp_Branchvals rp') \<in> set (rp_Branches rp))"
proof -
  have ok: "policy_ok rp" by (rule GetRepoPolicy_ok [OF assms])
  then have "branch_ok bv" if "(k, bv) \<in> set (rp_Branches rp)" for k bv
    using that by (force simp: policy_ok_def)
  with ok SetBranch_ok show ?thesis unfolding policy_ok_def by metis
qed

theorem policies_are_well_formed_witness:
  "\<exists>rp rp'. GetRepoPolicy ref_copier ref_mergo wit_policies ''tyk'' = Done (Inr rp) \<and> policy_ok rp \<and>
     SetBranch ''MASTER'' rp = Some rp' \<and> branch_ok (rp_Branchvals rp')"
proof -
  obtain rp where rp: "GetRepoPolicy ref_copier ref_mergo wit_policies ''tyk'' = Done (Inr rp)"
    using wit_policy_Done by blast
  have "config_ok wit_repo" by (simp add: config_ok_def wit_repo_def wit_branch_def zero_branchvals_def gm_ok_def)
  note ok = policies_are_well_formed [OF ref_copier_laws ref_mergo_laws this wit_policy_found rp]
  have "''master'' \<in> set (gm_keys (rp_Branches rp))"
    using all_branches_keys [OF GetRepoPolicy_Inr [OF wit_policy_found rp] gm.ok_empty] by (simp add: wit_repo_def)
  moreover have "to_lower ''master'' = to_lower ''MASTER''" by code_simp
  ultimately have "find_branch_ci (to_lower ''MASTER'') (rp_Branches rp) \<noteq> None"
    by (metis find_branch_ci_None)
  then have "SetBranch ''MASTER'' rp \<noteq> None"
    by (cases "gm_get (rp_Branches rp) ''MASTER''") (auto simp: SetBranch_def split: option.splits)
  with ok rp show ?thesis by blast
qed

end
