(* ===== verification/Tfuncs.thy ===== *)
theory Tfuncs
  imports PolicyConfig
begin

text \<open>
  \<open>policy/tfuncs.go\<close>: the functions templates call while they are rendered.  They read a
  policy, a build or the plugin compiler's configuration and return strings or lists.
\<close>

text \<open>A configured value or its default.\<close>

definition or_else :: "string \<Rightarrow> string \<Rightarrow> string" where
  "or_else v def = (if v \<noteq> [] then v else def)"

section \<open>Builds\<close>

text \<open>\<open>func (rp RepoPolicy) GetCC(target, host string) string\<close>\<close>

definition GetCC :: "string \<Rightarrow> string \<Rightarrow> string" where
  "GetCC target host = (if target \<noteq> host then target @ ''-linux-gnu-gcc'' else ''gcc'')"

text \<open>
  \<open>func getBuildField(v *build, field string) string\<close>: \<open>reflect.Value.String\<close> of the
  field; it describes values that are no strings, and missing fields, in angle brackets.
\<close>

definition build_fields :: "build \<Rightarrow> (string \<times> string) list" where
  "build_fields b =
     [(''Dir'', b_Dir b), (''Main'', b_Main b), (''Binary'', b_Binary b),
      (''VersionPackage'', b_VersionPackage b), (''Flags'', ''<[]string Value>''),
      (''BuildPackageName'', b_BuildPackageName b), (''Description'', b_Description b),
      (''ImageTitle'', b_ImageTitle b), (''PCRepo'', b_PCRepo b), (''UpgradeRepo'', b_UpgradeRepo b),
      (''DHRepo'', b_DHRepo b), (''CSRepo'', b_CSRepo b), (''CIRepo'', b_CIRepo b),
      (''DockerBaseImage'', b_DockerBaseImage b), (''Feature'', b_Feature b),
      (''Env'', ''<[]string Value>''),
      (''Archs'', ''<[]struct { Docker string; Deb string; Go string; SkipDocker bool } Value>'')]"

definition getBuildField :: "build \<Rightarrow> string \<Rightarrow> string" where
  "getBuildField v field =
     (case map_of (build_fields v) field of Some s \<Rightarrow> s | None \<Rightarrow> ''<invalid Value>'')"

text \<open>\<open>func (b *build) GetImages(repos ...string) []string\<close>\<close>

definition GetImages :: "build \<Rightarrow> string list \<Rightarrow> string list" where
  "GetImages b repos =
     Members (fold (\<lambda>repo images.
       let image = getBuildField b repo in
       if length image > 0 then set_add [image] images else images) repos [])"

text \<open>\<open>func (b *build) GetDockerPlatforms() []string\<close>\<close>

definition GetDockerPlatforms :: "build \<Rightarrow> string list" where
  "GetDockerPlatforms b =
     Members (fold (\<lambda>a platforms.
       if length (ar_Docker a) > 0 \<and> \<not> ar_SkipDocker a then set_add [ar_Docker a] platforms
       else platforms) (b_Archs b) [])"

text \<open>\<open>func (rp RepoPolicy) GetDockerBuilds() buildMap\<close>: a nil build is dereferenced.\<close>

fun docker_builds :: "buildMap \<Rightarrow> buildMap \<Rightarrow> buildMap go" where
  "docker_builds [] dBuilds = Done dBuilds"
| "docker_builds ((b, bv) # bs) dBuilds =
     (case bv of None \<Rightarrow> Panic ''nil pointer dereference''
      | Some v \<Rightarrow>
          docker_builds bs (if b_CIRepo v \<noteq> [] \<or> b_DHRepo v \<noteq> [] \<or> b_CSRepo v \<noteq> []
                            then gm_put b bv dBuilds else dBuilds))"

definition GetDockerBuilds :: "RepoPolicy \<Rightarrow> buildMap go" where
  "GetDockerBuilds rp = docker_builds (bv_Builds (rp_Branchvals rp)) []"

definition HasBuild :: "RepoPolicy \<Rightarrow> string \<Rightarrow> bool" where
  "HasBuild rp b = (gm_get (bv_Builds (rp_Branchvals rp)) b \<noteq> None)"

section \<open>Plugin compiler variants\<close>

definition GetGoImage :: "pluginCompilerConfig \<Rightarrow> string \<Rightarrow> string" where
  "GetGoImage pc buildenv = (if pc_GoImage pc \<noteq> [] then pc_GoImage pc else buildenv)"

definition PullRequestTypesInline :: "pluginCompilerConfig \<Rightarrow> bool" where
  "PullRequestTypesInline pc = (pc_PullRequestTypesStyle pc = ''inline'')"

definition DockerBuildIfMultiline :: "pluginCompilerConfig \<Rightarrow> bool" where
  "DockerBuildIfMultiline pc = (CHR ''\<newline>'' \<in> set (pc_DockerBuildIf pc))"

definition std_variant :: "pluginCompilerVariant \<Rightarrow> bool" where
  "std_variant v = (pv_Name v = [] \<or> pv_Name v = ''std'')"

definition MetadataID :: "pluginCompilerVariant \<Rightarrow> string" where
  "MetadataID v = (if std_variant v then ''set-metadata'' else ''set-metadata-'' @ pv_Name v)"

definition PublishID :: "pluginCompilerVariant \<Rightarrow> string" where
  "PublishID v = (if std_variant v then ''build-push-ng'' else ''build-push-'' @ pv_Name v @ ''-ng'')"

definition StepSuffix :: "pluginCompilerVariant \<Rightarrow> string" where
  "StepSuffix v = (if std_variant v then [] else '' '' @ to_upper (pv_Name v))"

definition ImageName :: "pluginCompilerVariant \<Rightarrow> string" where
  "ImageName v = ''tyk-plugin-compiler'' @ pv_ImageSuffix v"

definition NextGenEdition :: "pluginCompilerVariant \<Rightarrow> string" where
  "NextGenEdition v =
     (if pv_Edition v \<noteq> [] then pv_Edition v
      else if pv_Name v = ''ee'' then ''ee''
      else if pv_Name v = ''fips'' then ''ee-fips'' else ''ce'')"

definition NextGenTitle :: "pluginCompilerVariant \<Rightarrow> string \<Rightarrow> string" where
  "NextGenTitle v tagSuffix =
     (if pv_Title v \<noteq> [] then pv_Title v @ tagSuffix else ImageName v @ tagSuffix)"

text \<open>An argument that is passed on only when its value is set.\<close>

definition arg_if :: "string \<Rightarrow> string \<Rightarrow> string list" where
  "arg_if name v = (if v \<noteq> [] then [name @ ''='' @ v] else [])"

definition args_sep :: string where "args_sep = CHR ''\<newline>'' # replicate 12 (CHR '' '')"

definition args_block :: "string list \<Rightarrow> string" where
  "args_block args = (if args = [] then [] else args_sep @ join_with args_sep args)"

definition BuildArgsBlock :: "pluginCompilerVariant \<Rightarrow> string" where
  "BuildArgsBlock v = args_block (arg_if ''BUILD_TAG'' (pv_BuildTag v)
     @ arg_if ''GOEXPERIMENT'' (pv_GoExperiment v) @ arg_if ''GOFIPS140'' (pv_GoFips140 v))"

definition NextGenVariants :: "pluginCompilerConfig \<Rightarrow> pluginCompilerVariant list" where
  "NextGenVariants pc = (if length (ng_Variants (pc_NextGen pc)) > 0 then ng_Variants (pc_NextGen pc) else pc_Variants pc)"

definition variant_args :: "pluginCompilerVariant \<Rightarrow> string list" where
  "variant_args v =
     (let edition = NextGenEdition v in
      [''DEFAULT_EDITION='' @ edition]
      @ (if edition = ''ee'' then [''EE_AVAILABLE=true''] @ arg_if ''EE_BUILD_TAG'' (pv_BuildTag v)
         else if edition = ''ee-fips'' then
           [''FIPS_AVAILABLE=true''] @ arg_if ''FIPS_BUILD_TAG'' (pv_BuildTag v)
           @ arg_if ''FIPS_GOFIPS140'' (pv_GoFips140 v) @ arg_if ''FIPS_GOEXPERIMENT'' (pv_GoExperiment v)
         else [])
      @ arg_if ''SELFTEST_BUILD_TAG'' (pv_BuildTag v)
      @ arg_if ''SELFTEST_GOEXPERIMENT'' (pv_GoExperiment v)
      @ arg_if ''SELFTEST_GOFIPS140'' (pv_GoFips140 v))"

definition VariantBuildArgsBlock :: "pluginCompilerVariant \<Rightarrow> string" where
  "VariantBuildArgsBlock v = args_block (variant_args v)"

section \<open>Next generation settings\<close>

text \<open>The settings with a fixed default.\<close>

definition TagSuffixValue :: "pluginCompilerNextGenConfig \<Rightarrow> string" where
  "TagSuffixValue ng = or_else (ng_TagSuffix ng) ''-ng''"

definition BaseImageNameValue :: "pluginCompilerNextGenConfig \<Rightarrow> string" where
  "BaseImageNameValue ng = or_else (ng_BaseImageName ng) ''tyk-plugin-compiler-ng-base''"

definition BaseImageTagValue :: "pluginCompilerNextGenConfig \<Rightarrow> string" where
  "BaseImageTagValue ng = or_else (ng_BaseImageTag ng) ''latest''"

definition WorkflowBaseImageNameValue :: "pluginCompilerNextGenConfig \<Rightarrow> string" where
  "WorkflowBaseImageNameValue ng = or_else (ng_WorkflowBaseImageName ng) ''tyk-plugin-compiler''"

definition WorkflowBaseImageTagValue :: "pluginCompilerNextGenConfig \<Rightarrow> string" where
  "WorkflowBaseImageTagValue ng = or_else (ng_WorkflowBaseImageTag ng) ''ng-base-${{ github.sha }}''"

definition BaseImageValue :: "pluginCompilerNextGenConfig \<Rightarrow> string" where
  "BaseImageValue ng = or_else (ng_BaseImage ng) ''dhi.io/busybox:1-debian-fips-dev''"

definition GlibcTargetValue :: "pluginCompilerNextGenConfig \<Rightarrow> string" where
  "GlibcTargetValue ng = or_else (ng_GlibcTarget ng) ''2.17''"

definition SlimValue :: "pluginCompilerNextGenConfig \<Rightarrow> string" where
  "SlimValue ng = or_else (ng_Slim ng) ''0''"

definition WithCxxValue :: "pluginCompilerNextGenConfig \<Rightarrow> string" where
  "WithCxxValue ng = or_else (ng_WithCxx ng) ''1''"

definition WithGitValue :: "pluginCompilerNextGenConfig \<Rightarrow> string" where
  "WithGitValue ng = or_else (ng_WithGit ng) ''1''"

definition CrossValue :: "pluginCompilerNextGenConfig \<Rightarrow> string" where
  "CrossValue ng = or_else (ng_Cross ng) ''1''"

definition GatewayTrimpathValue :: "pluginCompilerNextGenConfig \<Rightarrow> string" where
  "GatewayTrimpathValue ng = or_else (ng_GatewayTrimpath ng) ''true''"

definition CEArchsValue :: "pluginCompilerNextGenConfig \<Rightarrow> string" where
  "CEArchsValue ng = or_else (ng_CEArchs ng) ''amd64,arm64,s390x''"

definition ImagePlatformsValue :: "pluginCompilerNextGenConfig \<Rightarrow> string" where
  "ImagePlatformsValue ng = or_else (ng_ImagePlatforms ng) ''linux/amd64''"

definition GatePlatformValue :: "pluginCompilerNextGenConfig \<Rightarrow> string" where
  "GatePlatformValue ng = or_else (ng_GatePlatform ng) ''linux/amd64''"

text \<open>The settings whose default depends on another setting.\<close>

definition BaseImageRefValue :: "pluginCompilerNextGenConfig \<Rightarrow> string" where
  "BaseImageRefValue ng = (if ng_BaseImageRef ng \<noteq> [] then ng_BaseImageRef ng
     else ''tykio/'' @ BaseImageNameValue ng @ '':'' @ BaseImageTagValue ng)"

definition BaseSourceImageRefValue :: "pluginCompilerNextGenConfig \<Rightarrow> string" where
  "BaseSourceImageRefValue ng =
     (let ref = BaseImageValue ng in
      if ng_BaseImageDigest ng \<noteq> [] then ref @ ''@'' @ ng_BaseImageDigest ng else ref)"

definition EEArchsValue :: "pluginCompilerNextGenConfig \<Rightarrow> string" where
  "EEArchsValue ng = or_else (ng_EEArchs ng) (CEArchsValue ng)"

definition FIPSArchsValue :: "pluginCompilerNextGenConfig \<Rightarrow> string" where
  "FIPSArchsValue ng = or_else (ng_FIPSArchs ng) (EEArchsValue ng)"

definition CustomizationOrgValue :: "pluginCompilerNextGenConfig \<Rightarrow> string" where
  "CustomizationOrgValue ng =
     (if ng_CustomizationOrg ng \<noteq> [] then ng_CustomizationOrg ng
      else case cut_at (CHR ''/'') (BaseImageValue ng) of
          Some (org, _) \<Rightarrow> if CHR ''.'' \<notin> set org \<and> CHR '':'' \<notin> set org then org else []
        | None \<Rightarrow> [])"

section \<open>Image platforms\<close>

fun needs_tarball :: "string list \<Rightarrow> bool" where
  "needs_tarball [] = False"
| "needs_tarball (p # ps) =
     (let p = trim_space p in if p \<noteq> [] \<and> p \<noteq> ''linux/amd64'' then True else needs_tarball ps)"

definition ImageNeedsGoTarball :: "pluginCompilerNextGenConfig \<Rightarrow> bool" where
  "ImageNeedsGoTarball ng = needs_tarball (split_on (CHR '','') (ImagePlatformsValue ng))"

definition GatesExtraPlatforms :: "pluginCompilerNextGenConfig \<Rightarrow> pluginCompilerVariant \<Rightarrow> bool" where
  "GatesExtraPlatforms ng v =
     (if ng_ExtraGateVariant ng = [] then True
      else let name = (if pv_Name v = [] then ''std'' else pv_Name v) in name = ng_ExtraGateVariant ng)"

definition ExtraImagePlatforms :: "pluginCompilerNextGenConfig \<Rightarrow> string list" where
  "ExtraImagePlatforms ng =
     (let gate = GatePlatformValue ng in
      fold (\<lambda>p extra. let p = trim_space p in if p \<noteq> [] \<and> p \<noteq> gate then extra @ [p] else extra)
        (split_on (CHR '','') (ImagePlatformsValue ng)) [])"

section \<open>Lemmas\<close>

lemma fold_add_if:
  "gm_ok s \<Longrightarrow> gm_ok (fold (\<lambda>x s. if P x then set_add [f x] s else s) xs s) \<and>
     (\<forall>v. Has (fold (\<lambda>x s. if P x then set_add [f x] s else s) xs s) (v :: 'a :: linorder)
        \<longleftrightarrow> Has s v \<or> (\<exists>x\<in>set xs. P x \<and> v = f x))"
  by (induction xs arbitrary: s) (auto simp: us.has_add us.ok_add)

lemma Members_fold_add_if:
  "Members (fold (\<lambda>x s. if P x then set_add [f x] s else s) xs [])
     = sorted_list_of_set {f x |x. x \<in> set xs \<and> P (x :: 'b)}" for f :: "'b \<Rightarrow> 'a :: linorder"
proof -
  let ?s = "fold (\<lambda>x s. if P x then set_add [f x] s else s) xs []"
  have "gm_ok ?s" "\<And>v. Has ?s v \<longleftrightarrow> (\<exists>x\<in>set xs. P x \<and> v = f x)"
    using fold_add_if [OF gm.ok_empty, of P f xs] by (auto simp: Has_def)
  moreover from this have "set (Members ?s) = {f x |x. x \<in> set xs \<and> P x}"
    using us.set_members [of ?s] by auto
  ultimately show ?thesis
    using sorted_distinct_members [OF us.sorted_members us.distinct_members, of ?s] by simp
qed

text \<open>The platforms an image is published for.\<close>

definition published :: "pluginCompilerNextGenConfig \<Rightarrow> string list" where
  "published ng = List.filter (\<lambda>p. p \<noteq> []) (List.map trim_space (split_on (CHR '','') (ImagePlatformsValue ng)))"

lemma needs_tarball_iff:
  "needs_tarball ps \<longleftrightarrow> (\<exists>p\<in>set ps. trim_space p \<noteq> [] \<and> trim_space p \<noteq> ''linux/amd64'')"
  by (induction ps) (auto simp: Let_def)

lemma extra_fold:
  "fold (\<lambda>p extra. let p = trim_space p in if p \<noteq> [] \<and> p \<noteq> g then extra @ [p] else extra) ps acc
    = acc @ List.filter (\<lambda>p. p \<noteq> g) (List.filter (\<lambda>p. p \<noteq> []) (List.map trim_space ps))"
  by (induction ps arbitrary: acc) (auto simp: Let_def)

section \<open>Properties\<close>

text \<open>
  Every published platform is gated one way or the other: the platforms that get only
  the extra gate are the published ones other than the gate platform, in their order, so
  together with it (when it is published) they are all of them; and the Go tarball is fetched
  exactly when a platform other than linux/amd64 is published, which with the default gate
  platform means exactly when there is an extra platform.
\<close>

theorem platforms_are_gated:
  "ExtraImagePlatforms ng = List.filter (\<lambda>p. p \<noteq> GatePlatformValue ng) (published ng) \<and>
   (GatePlatformValue ng \<in> set (published ng) \<longrightarrow>
      insert (GatePlatformValue ng) (set (ExtraImagePlatforms ng)) = set (published ng)) \<and>
   (ImageNeedsGoTarball ng \<longleftrightarrow> (\<exists>p\<in>set (published ng). p \<noteq> ''linux/amd64'')) \<and>
   (ng_GatePlatform ng = [] \<longrightarrow> (ImageNeedsGoTarball ng \<longleftrightarrow> ExtraImagePlatforms ng \<noteq> []))"
proof -
  have e: "ExtraImagePlatforms ng = List.filter (\<lambda>p. p \<noteq> GatePlatformValue ng) (published ng)"
    by (simp only: ExtraImagePlatforms_def Let_def [of "GatePlatformValue ng"] extra_fold published_def append_Nil)
  have n: "ImageNeedsGoTarball ng \<longleftrightarrow> (\<exists>p\<in>set (published ng). p \<noteq> ''linux/amd64'')"
    by (auto simp: ImageNeedsGoTarball_def needs_tarball_iff published_def)
  have "ng_GatePlatform ng = [] \<Longrightarrow> GatePlatformValue ng = ''linux/amd64''"
    by (simp add: GatePlatformValue_def or_else_def)
  with e n show ?thesis by (auto simp: filter_empty_conv)
qed

text \<open>
  The images and the platforms of a build are listed sorted and without duplicates: the
  images are the nonempty values of the named fields, the platforms the nonempty docker
  platforms of the architectures that are not skipped.
\<close>

theorem images_and_platforms:
  "GetImages b repos = sorted_list_of_set {getBuildField b f |f. f \<in> set repos \<and> getBuildField b f \<noteq> []} \<and>
   GetDockerPlatforms b
     = sorted_list_of_set {ar_Docker a |a. a \<in> set (b_Archs b) \<and> ar_Docker a \<noteq> [] \<and> \<not> ar_SkipDocker a}"
  by (simp add: GetImages_def GetDockerPlatforms_def Let_def Members_fold_add_if)

text \<open>A platform list with the default gate.\<close>

definition wit_ng :: pluginCompilerNextGenConfig where
  "wit_ng = zero_nextgen\<lparr>ng_ImagePlatforms := ''linux/amd64, linux/arm64,''\<rparr>"

theorem platforms_are_gated_witness:
  "insert ''linux/amd64'' (set (ExtraImagePlatforms wit_ng)) = set (published wit_ng) \<and>
   ImageNeedsGoTarball wit_ng \<and> ExtraImagePlatforms wit_ng \<noteq> []"
proof -
  have "GatePlatformValue wit_ng = ''linux/amd64''" "ng_GatePlatform wit_ng = []"
    "published wit_ng = [''linux/amd64'', ''linux/arm64'']"
    by code_simp+
  with platforms_are_gated [of wit_ng] show ?thesis by simp
qed

text \<open>The organisation is never a registry host.\<close>

lemma customization_org_no_host:
  assumes "ng_CustomizationOrg ng = []"
  shows "set (CustomizationOrgValue ng) \<inter> {CHR ''.'', CHR '':'', CHR ''/''} = {}"
    and "CustomizationOrgValue ng \<noteq> [] \<Longrightarrow> prefix (CustomizationOrgValue ng @ ''/'') (BaseImageValue ng)"
proof -
  have d: "CustomizationOrgValue ng = [] \<or> (\<exists>rest. cut_at (CHR ''/'') (BaseImageValue ng) = Some (CustomizationOrgValue ng, rest)
      \<and> CHR ''.'' \<notin> set (CustomizationOrgValue ng) \<and> CHR '':'' \<notin> set (CustomizationOrgValue ng))"
    using assms by (cases "cut_at (CHR ''/'') (BaseImageValue ng)") (auto simp: CustomizationOrgValue_def)
  then show "set (CustomizationOrgValue ng) \<inter> {CHR ''.'', CHR '':'', CHR ''/''} = {}"
    using cut_at_Some [of "CHR ''/''" "BaseImageValue ng"] by auto
  show "CustomizationOrgValue ng \<noteq> [] \<Longrightarrow> prefix (CustomizationOrgValue ng @ ''/'') (BaseImageValue ng)"
    using d cut_at_Some [of "CHR ''/''" "BaseImageValue ng"] by (auto simp: prefix_def)
qed

end
