(* ===== verification/GoRegexp.thy ===== *)
theory GoRegexp
  imports GoStrings
begin

text \<open>
  The part of Go's \<open>regexp\<close> the repository uses: literals, repeated character classes, groups,
  alternatives and options, with the leftmost-first preference of the package.  \<open>runs\<close>
  lists the ways an expression matches a prefix, the preferred one first: the text consumed,
  the rest, and the captures.
\<close>

datatype rx =
    Lit string
  | Rep "char \<Rightarrow> bool" nat "nat option"
  | Seq rx rx
  | Alt rx rx
  | Opt rx
  | Grp nat rx
  | Eos

type_synonym capture = "nat \<times> string"

definition rep_splits :: "(char \<Rightarrow> bool) \<Rightarrow> nat \<Rightarrow> nat option \<Rightarrow> string \<Rightarrow> (string \<times> string) list" where
  "rep_splits P lo hi s =
     (let n = length (takeWhile P s); top = (case hi of None \<Rightarrow> n | Some h \<Rightarrow> min h n)
      in List.map (\<lambda>k. (take k s, drop k s)) (rev [lo..<Suc top]))"

fun runs :: "rx \<Rightarrow> string \<Rightarrow> (string \<times> string \<times> capture list) list" where
  "runs (Lit l) s = (if prefix l s then [(l, drop (length l) s, [])] else [])"
| "runs (Rep P lo hi) s = List.map (\<lambda>(a, b). (a, b, [])) (rep_splits P lo hi s)"
| "runs (Seq r q) s =
     concat (List.map (\<lambda>(a, rest, c). List.map (\<lambda>(b, rest', c'). (a @ b, rest', c @ c')) (runs q rest)) (runs r s))"
| "runs (Alt r q) s = runs r s @ runs q s"
| "runs (Opt r) s = runs r s @ [([], s, [])]"
| "runs (Grp i r) s = List.map (\<lambda>(a, rest, c). (a, rest, (i, a) # c)) (runs r s)"
| "runs Eos s = (if s = [] then [([], [], [])] else [])"

text \<open>\<open>FindStringSubmatch\<close> and \<open>MatchString\<close> of an expression anchored at the start.\<close>

definition submatch :: "rx \<Rightarrow> string \<Rightarrow> capture list option" where
  "submatch r s = (case runs r s of [] \<Rightarrow> None | (a, rest, c) # _ \<Rightarrow> Some c)"

definition matches_prefix :: "rx \<Rightarrow> string \<Rightarrow> bool" where
  "matches_prefix r s \<longleftrightarrow> runs r s \<noteq> []"

text \<open>\<open>(r)+\<close> and \<open>(r)?\<close> on classes, and sequences.\<close>

definition plus1 :: "(char \<Rightarrow> bool) \<Rightarrow> rx" where "plus1 P = Rep P 1 None"

fun rxseq :: "rx list \<Rightarrow> rx" where
  "rxseq [] = Lit []"
| "rxseq [r] = r"
| "rxseq (r # q # rs) = Seq r (rxseq (q # rs))"

section \<open>Laws\<close>

lemma length_takeWhile_ge:
  "k \<le> length (takeWhile P s) \<longleftrightarrow> k \<le> length s \<and> list_all P (take k s)"
proof (induction s arbitrary: k)
  case (Cons x s)
  then show ?case by (cases k) auto
qed simp

lemma rep_splits_iff:
  "(a, b) \<in> set (rep_splits P lo hi s) \<longleftrightarrow>
     s = a @ b \<and> list_all P a \<and> lo \<le> length a \<and> (\<forall>h. hi = Some h \<longrightarrow> length a \<le> h)"
proof -
  let ?n = "length (takeWhile P s)"
  have "(a, b) \<in> set (rep_splits P lo hi s) \<longleftrightarrow>
      (\<exists>k. lo \<le> k \<and> k \<le> ?n \<and> (\<forall>h. hi = Some h \<longrightarrow> k \<le> h) \<and> a = take k s \<and> b = drop k s)"
  proof (cases hi)
    case None
    then show ?thesis by (auto simp: rep_splits_def Let_def image_iff)
  next
    case (Some h)
    have "set (rev [lo..<Suc (min h ?n)]) = {k. lo \<le> k \<and> k \<le> ?n \<and> k \<le> h}" by auto
    with Some show ?thesis by (auto simp: rep_splits_def Let_def simp del: upt_Suc set_rev)
  qed
  also have "\<dots> \<longleftrightarrow> s = a @ b \<and> list_all P a \<and> lo \<le> length a \<and> (\<forall>h. hi = Some h \<longrightarrow> length a \<le> h)"
  proof
    assume "\<exists>k. lo \<le> k \<and> k \<le> ?n \<and> (\<forall>h. hi = Some h \<longrightarrow> k \<le> h) \<and> a = take k s \<and> b = drop k s"
    then show "s = a @ b \<and> list_all P a \<and> lo \<le> length a \<and> (\<forall>h. hi = Some h \<longrightarrow> length a \<le> h)"
      by (auto simp: length_takeWhile_ge)
  next
    assume r: "s = a @ b \<and> list_all P a \<and> lo \<le> length a \<and> (\<forall>h. hi = Some h \<longrightarrow> length a \<le> h)"
    then have "length a \<le> ?n" by (simp add: length_takeWhile_ge)
    with r show "\<exists>k. lo \<le> k \<and> k \<le> ?n \<and> (\<forall>h. hi = Some h \<longrightarrow> k \<le> h) \<and> a = take k s \<and> b = drop k s"
      by (intro exI [of _ "length a"]) simp
  qed
  finally show ?thesis .
qed

lemma runs_text: "(a, rest, c) \<in> set (runs r s) \<Longrightarrow> s = a @ rest"
  by (induction r s arbitrary: a rest c rule: runs.induct)
    (auto simp: prefix_def rep_splits_iff split: if_splits)

text \<open>What each form matches, as a relation.\<close>

lemma runs_Lit: "(a, rest, c) \<in> set (runs (Lit l) s) \<longleftrightarrow> a = l \<and> c = [] \<and> s = l @ rest"
  by (auto simp: prefix_def)

lemma runs_Rep: "(a, rest, c) \<in> set (runs (Rep P lo hi) s) \<longleftrightarrow>
    c = [] \<and> s = a @ rest \<and> list_all P a \<and> lo \<le> length a \<and> (\<forall>h. hi = Some h \<longrightarrow> length a \<le> h)"
proof -
  have "(a, rest, c) \<in> set (runs (Rep P lo hi) s) \<longleftrightarrow> c = [] \<and> (a, rest) \<in> set (rep_splits P lo hi s)" by force
  then show ?thesis by (simp only: rep_splits_iff)
qed

lemma runs_Seq: "(a, rest, c) \<in> set (runs (Seq r q) s) \<longleftrightarrow>
    (\<exists>a1 c1 a2 c2 mid. a = a1 @ a2 \<and> c = c1 @ c2 \<and> (a1, mid, c1) \<in> set (runs r s) \<and> (a2, rest, c2) \<in> set (runs q mid))"
proof
  assume "(a, rest, c) \<in> set (runs (Seq r q) s)"
  then obtain a1 c1 a2 c2 mid where "(a1, mid, c1) \<in> set (runs r s)" "(a2, rest, c2) \<in> set (runs q mid)"
    "a = a1 @ a2" "c = c1 @ c2" by auto
  then show "\<exists>a1 c1 a2 c2 mid. a = a1 @ a2 \<and> c = c1 @ c2 \<and> (a1, mid, c1) \<in> set (runs r s) \<and> (a2, rest, c2) \<in> set (runs q mid)"
    by blast
next
  assume "\<exists>a1 c1 a2 c2 mid. a = a1 @ a2 \<and> c = c1 @ c2 \<and> (a1, mid, c1) \<in> set (runs r s) \<and> (a2, rest, c2) \<in> set (runs q mid)"
  then obtain a1 c1 a2 c2 mid where m: "a = a1 @ a2" "c = c1 @ c2" "(a1, mid, c1) \<in> set (runs r s)"
    "(a2, rest, c2) \<in> set (runs q mid)" by blast
  then have "(a, rest, c) \<in> set (List.map (\<lambda>(b, rest', c'). (a1 @ b, rest', c1 @ c')) (runs q mid))" by force
  with m(3) show "(a, rest, c) \<in> set (runs (Seq r q) s)" by force
qed

lemma runs_Alt: "(a, rest, c) \<in> set (runs (Alt r q) s) \<longleftrightarrow>
    (a, rest, c) \<in> set (runs r s) \<or> (a, rest, c) \<in> set (runs q s)"
  by auto

lemma runs_Opt: "(a, rest, c) \<in> set (runs (Opt r) s) \<longleftrightarrow>
    (a, rest, c) \<in> set (runs r s) \<or> a = [] \<and> rest = s \<and> c = []"
  by auto

lemma runs_Grp: "(a, rest, c) \<in> set (runs (Grp i r) s) \<longleftrightarrow>
    (\<exists>c'. c = (i, a) # c' \<and> (a, rest, c') \<in> set (runs r s))"
  by force

lemma runs_Eos: "(a, rest, c) \<in> set (runs Eos s) \<longleftrightarrow> a = [] \<and> rest = [] \<and> c = [] \<and> s = []"
  by auto

lemmas runs_iff = runs_Lit runs_Rep runs_Seq runs_Alt runs_Opt runs_Grp runs_Eos

lemma submatch_Some: "submatch r s = Some c \<Longrightarrow> \<exists>a rest. (a, rest, c) \<in> set (runs r s)"
  by (cases "runs r s") (auto simp: submatch_def)

lemma submatch_None: "submatch r s = None \<longleftrightarrow> (\<forall>m. m \<notin> set (runs r s))"
  by (cases "runs r s") (auto simp: submatch_def)

end
