(* ===== verification/GoJson.thy ===== *)
theory GoJson
  imports GoStrings
begin

text \<open>
  What the repository uses of \<open>encoding/json\<close>: values as a datatype, and compact
  (\<open>Marshal\<close>) printing.  Objects are printed with their keys sorted, as for a Go map;
  strings are escaped as by default, including the characters HTML treats specially.
  Bytes outside ASCII are printed as they are.
\<close>

datatype json =
    JNull
  | JBool bool
  | JNum int
  | JStr string
  | JArr "json list"
  | JObj "(string \<times> json) list"

definition hex_digits :: string where "hex_digits = ''0123456789abcdef''"

definition hex_char :: "nat \<Rightarrow> string" where
  "hex_char n = CHR 0x5C # ''u00'' @ [hex_digits ! (n div 16), hex_digits ! (n mod 16)]"

definition json_char :: "char \<Rightarrow> string" where
  "json_char c =
     (if c = CHR 0x22 then [CHR 0x5C, CHR 0x22]
      else if c = CHR 0x5C then [CHR 0x5C, CHR 0x5C]
      else if c = CHR 0x08 then [CHR 0x5C, CHR ''b''] else if c = CHR 0x0C then [CHR 0x5C, CHR ''f'']
      else if c = CHR 0x0A then [CHR 0x5C, CHR ''n''] else if c = CHR 0x0D then [CHR 0x5C, CHR ''r'']
      else if c = CHR 0x09 then [CHR 0x5C, CHR ''t'']
      else if of_char c < (32 :: nat) \<or> c = CHR ''<'' \<or> c = CHR ''>'' \<or> c = CHR ''&'' then hex_char (of_char c)
      else [c])"

definition json_string :: "string \<Rightarrow> string" where
  "json_string s = [CHR 0x22] @ concat (List.map json_char s) @ [CHR 0x22]"

text \<open>Sorting the members of an object by key.\<close>

definition sort_members :: "(string \<times> 'a) list \<Rightarrow> (string \<times> 'a) list" where
  "sort_members = sort_key fst"

fun marshal :: "json \<Rightarrow> string" where
  "marshal JNull = ''null''"
| "marshal (JBool b) = (if b then ''true'' else ''false'')"
| "marshal (JNum n) = show_int n"
| "marshal (JStr s) = json_string s"
| "marshal (JArr xs) = ''['' @ join_with '','' (List.map marshal xs) @ '']''"
| "marshal (JObj ms) =
     ''{'' @ join_with '',''
       (List.map (\<lambda>(k, s). json_string k @ '':'' @ s) (sort_members (List.map (\<lambda>(k, v). (k, marshal v)) ms))) @ ''}''"

lemma json_string_nonempty: "json_string s \<noteq> []"
  by (simp add: json_string_def)

text \<open>No newline survives: a marshalled value is one line.\<close>

lemma json_char_no_newline: "CHR 0x0A \<notin> set (json_char c)"
proof -
  have "CHR 0x0A \<notin> set (hex_char n)" if "n < 256" for n
  proof -
    have "n div 16 < 16" "n mod 16 < 16" using that by auto
    then have "hex_digits ! (n div 16) \<in> set hex_digits" "hex_digits ! (n mod 16) \<in> set hex_digits"
      by (simp_all add: hex_digits_def del: list.set)
    moreover have "CHR 0x0A \<notin> set hex_digits" by (simp add: hex_digits_def)
    ultimately show ?thesis unfolding hex_char_def by auto
  qed
  moreover have "of_char c < (256 :: nat)" using nat_of_char_less_256 by simp
  ultimately show ?thesis by (simp add: json_char_def)
qed

lemma json_string_no_newline: "CHR 0x0A \<notin> set (json_string s)"
  using json_char_no_newline by (auto simp: json_string_def)

lemma show_int_chars: "c \<in> set (show_int n) \<Longrightarrow> c = CHR ''-'' \<or> is_digit c"
proof -
  have d: "c \<in> set (show_nat k) \<Longrightarrow> is_digit c" for k
    using show_nat_digits [of k] by (simp add: list_all_iff)
  show "c \<in> set (show_int n) \<Longrightarrow> c = CHR ''-'' \<or> is_digit c"
    by (auto simp: show_int_def split: if_splits dest: d)
qed

lemma set_join_with: "c \<in> set (join_with sep xs) \<Longrightarrow> c \<in> set sep \<or> (\<exists>x \<in> set xs. c \<in> set x)"
  by (induction xs rule: join_with.induct) auto

lemma marshal_no_newline: "CHR 0x0A \<notin> set (marshal j)"
proof (induction j)
  case (JNum n)
  then show ?case by (auto dest!: show_int_chars simp: is_digit_def digit_chars_def)
next
  case (JArr xs)
  then show ?case by (auto dest!: set_join_with)
next
  case (JObj ms)
  let ?ms = "sort_members (List.map (\<lambda>(k, v). (k, marshal v)) ms)"
  have "CHR 0x0A \<notin> set (json_string k @ '':'' @ s)" if "(k, s) \<in> set ?ms" for k s
    using that JObj json_string_no_newline [of k] by (auto simp: sort_members_def)
  then show ?case by (auto dest!: set_join_with)
qed (simp_all add: json_string_no_newline)

text \<open>Every value prints as something: \<open>marshal\<close> never yields the empty string or \<open>EOF\<close>.\<close>

lemma marshal_hd: "marshal j \<noteq> [] \<and> hd (marshal j) \<noteq> CHR ''E''"
proof (cases j)
  case (JNum n)
  have "marshal j \<noteq> []" using show_nat_digits JNum by (auto simp: show_int_def)
  moreover have "hd (show_int n) \<in> set (show_int n)" using calculation JNum by simp
  ultimately show ?thesis using JNum show_int_chars [of "hd (show_int n)" n]
    by (auto simp: is_digit_def digit_chars_def)
qed (auto simp: json_string_def)

end
