(* ===== verification/Controller.thy ===== *)
theory Controller
  imports GoRegexp GoJson USet
begin

text \<open>
  \<open>policy/controller.go\<close>: the parameters of a test run, computed from the environment, and
  the GitHub outputs derived from them.  The environment and the outcome of each write are
  arguments.
\<close>

section \<open>Parameters\<close>

type_synonym runParameters = "(string, string) gomap"

text \<open>The pattern of a release branch with long term support.\<close>

definition lts_rx :: rx where
  "lts_rx = rxseq
     [Lit ''release-'', Grp 1 (plus1 is_digit),
      Opt (rxseq [Lit ''.0'', Opt (rxseq [Lit ''.'', plus1 is_digit])]),
      Opt (rxseq [Lit ''-'', Grp 2 (Alt (Lit ''lts'') (rxseq [plus1 is_digit, Opt (Lit ''.0'')]))]),
      Eos]"

text \<open>The loop of \<open>NewParams\<close> over the names, with \<open>params\<close>, \<open>trigger\<close> and \<open>firstTag\<close> as its state.\<close>

definition read_param ::
  "(string \<Rightarrow> string) \<Rightarrow> string \<Rightarrow> runParameters \<times> string \<times> string \<Rightarrow> runParameters \<times> string \<times> string" where
  "read_param env pn = (\<lambda>(params, trigger, firstTag).
     let p = env pn;
         p' = (if pn \<in> {''REPO'', ''BASE_REF''} then after_last (CHR ''/'') p else p);
         firstTag = (if pn = ''TAGS'' then (case fields p of [] \<Rightarrow> firstTag | t # _ \<Rightarrow> t) else firstTag);
         trigger = (if pn \<in> {''IS_PR'', ''IS_TAG''} \<and> p = ''yes'' then to_lower pn else trigger)
     in (gm_put (to_lower pn) p' params, trigger, firstTag))"

text \<open>\<open>func NewParams(paramNames ...string) runParameters\<close>\<close>

definition NewParams :: "(string \<Rightarrow> string) \<Rightarrow> string list \<Rightarrow> runParameters" where
  "NewParams env paramNames =
     (let (params, trigger, firstTag) = fold (read_param env) paramNames ([], [], []);
          params = gm_put ''firstTag'' firstTag params;
          params = gm_put ''trigger'' trigger params;
          params = gm_put ''gdTag'' ''master'' params;
          repo = gm_get0 [] params ''repo''
      in case submatch lts_rx (gm_get0 [] params ''base_ref'') of
           Some c \<Rightarrow>
             if repo \<in> {''tyk'', ''tyk-analytics'', ''tyk-automated-tests''} then
               gm_put ''trigger'' ''is_lts''
                 (gm_put ''gdTag'' (''release-'' @ gm_get0 [] c 1 @ ''-lts'') params)
             else params
         | None \<Rightarrow> params)"

section \<open>Outputs\<close>

text \<open>Both fields can be nil: storing into a nil map panics, and nil is marshalled as \<open>null\<close>.\<close>

record GHoutput =
  gh_TestVariations :: "(string, string list) gomap option"
  gh_Exclusions :: "(string, string) gomap list option"

text \<open>\<open>func sortedKeys[K, V](m map[K]V) []K\<close>\<close>

definition sortedKeys :: "('k :: linorder, 'v) gomap \<Rightarrow> 'k list" where
  "sortedKeys m = sort (gm_keys m)"

definition store_all :: "(string \<times> string list) list \<Rightarrow> GHoutput \<Rightarrow> GHoutput go" where
  "store_all kvs gh =
     (if kvs = [] then Done gh
      else case gh_TestVariations gh of
        None \<Rightarrow> Panic ''assignment to entry in nil map''
      | Some m \<Rightarrow> Done (gh\<lparr>gh_TestVariations := Some (fold (\<lambda>(k, v). gm_put k v) kvs m)\<rparr>))"

definition base_variations :: "string \<Rightarrow> string \<Rightarrow> (string \<times> string list) list" where
  "base_variations job cache =
     [(job @ ''_conf'', [''sha256'', ''murmur128'']),
      (job @ ''_db'', [''mongo7'', ''postgres15'']),
      (job @ ''_cache_db'', [cache])]"

definition common_exclusions :: "(string, string) gomap list" where
  "common_exclusions =
     [[(''db'', ''mongo7''), (''conf'', ''murmur128'')], [(''db'', ''postgres15''), (''conf'', ''sha256'')]]"

text \<open>The switch on the trigger at the start of \<open>SetOutputs\<close>.\<close>

definition apply_trigger :: "runParameters \<Rightarrow> GHoutput \<Rightarrow> GHoutput go" where
  "apply_trigger p gh =
     (let job = gm_get0 [] p ''job''; trigger = gm_get0 [] p ''trigger'' in
      if trigger = ''is_pr'' then
        go_bind (store_all (base_variations job ''redis7''
            @ [(''pump'', [''$ECR/tyk-pump:master'']), (''sink'', [''$ECR/tyk-sink:master''])]) gh)
          (\<lambda>gh. Done (gh\<lparr>gh_Exclusions := Some common_exclusions\<rparr>))
      else if trigger = ''is_tag'' then store_all (base_variations job ''redis7'') gh
      else if trigger = ''is_lts'' then
        go_bind (store_all (base_variations job ''redis6''
            @ [(''pump'', [''tykio/tyk-pump-docker-pub:v1.8'', ''$ECR/tyk-pump:master'']),
               (''sink'', [''tykio/tyk-mdcb-docker:v2.4'', ''$ECR/tyk-sink:master''])]) gh)
          (\<lambda>gh. Done (gh\<lparr>gh_Exclusions := Some
            ([[(''pump'', ''tykio/tyk-pump-docker-pub:v1.8''), (''sink'', ''$ECR/tyk-sink:master'')],
              [(''pump'', ''$ECR/tyk-pump:master''), (''sink'', ''tykio/tyk-mdcb-docker:v2.4'')]]
             @ common_exclusions)\<rparr>))
      else Done gh)"

definition json_strings :: "string list \<Rightarrow> json" where
  "json_strings xs = JArr (List.map JStr xs)"

definition json_exclusions :: "(string, string) gomap list option \<Rightarrow> json" where
  "json_exclusions ex = (case ex of None \<Rightarrow> JNull
     | Some ms \<Rightarrow> JArr (List.map (\<lambda>m. JObj (List.map (\<lambda>(k, v). (k, JStr v)) m)) ms))"

text \<open>\<open>fmt.Sprintf("%s<<EOF\n%s\nEOF\n", name, json)\<close>\<close>

definition heredoc :: "string \<Rightarrow> string \<Rightarrow> string" where
  "heredoc name json = name @ ''<<EOF\<newline>'' @ json @ ''\<newline>EOF\<newline>''"

text \<open>Writing one chunk after the other until a write fails; \<open>write\<close> says which do.\<close>

fun write_chunks :: "(string \<Rightarrow> string \<Rightarrow> string option) \<Rightarrow> string list \<Rightarrow> string \<Rightarrow> string option \<times> string" where
  "write_chunks write [] op = (None, op)"
| "write_chunks write (c # cs) op =
     (case write op c of Some e \<Rightarrow> (Some e, op) | None \<Rightarrow> write_chunks write cs (op @ c))"

text \<open>\<open>func (p runParameters) SetOutputs(op io.Writer, gh GHoutput) error\<close>\<close>

definition output_chunks :: "GHoutput \<Rightarrow> string list" where
  "output_chunks gh =
     (let vs = (case gh_TestVariations gh of None \<Rightarrow> [] | Some m \<Rightarrow> m) in
      List.map (\<lambda>v. heredoc v (marshal (json_strings (gm_get0 [] vs v)))) (sortedKeys vs)
      @ [heredoc ''exclude'' (marshal (json_exclusions (gh_Exclusions gh)))])"

definition SetOutputs ::
  "runParameters \<Rightarrow> (string \<Rightarrow> string \<Rightarrow> string option) \<Rightarrow> GHoutput \<Rightarrow> (string option \<times> string) go" where
  "SetOutputs p write gh =
     go_bind (apply_trigger p gh) (\<lambda>gh. Done (write_chunks write (output_chunks gh) []))"

text \<open>
  \<open>func (p runParameters) SetVersions(op io.Writer) error\<close>: the template prints a missing
  parameter as \<open><no value>\<close>, and cannot pass one to \<open>replace\<close> (\<open>None\<close>).
\<close>

definition tparam :: "runParameters \<Rightarrow> string \<Rightarrow> string" where
  "tparam p k = (case gm_get p k of None \<Rightarrow> ''<no value>'' | Some v \<Rightarrow> v)"

definition versions_head :: "runParameters \<Rightarrow> string" where
  "versions_head p =
     ''versions<<EOF\<newline>tyk_image=$ECR/tyk-ee:'' @ tparam p ''gdTag''
     @ ''\<newline>tyk_analytics_image=$ECR/tyk-analytics:'' @ tparam p ''gdTag''
     @ ''\<newline>tyk_pump_image=$ECR/tyk-pump:master\<newline>tyk_sink_image=$ECR/tyk-sink:master''
     @ ''\<newline># override default above with just built tag\<newline>''"

text \<open>The outcome is whether it failed, and what was written.\<close>

definition SetVersions :: "runParameters \<Rightarrow> bool \<times> string" where
  "SetVersions p =
     (case gm_get p ''repo'' of
        None \<Rightarrow> (True, versions_head p)
      | Some repo \<Rightarrow> (False, versions_head p
          @ replace_char (CHR ''-'') (CHR ''_'') repo @ ''_image='' @ tparam p ''firstTag''
          @ ''\<newline># alfa and beta have to come after the override''
          @ ''\<newline>tyk_alfa_image=$tyk_image\<newline>tyk_beta_image=$tyk_image\<newline>EOF\<newline>gd_tag='' @ tparam p ''gdTag''))"

section \<open>The command\<close>

text \<open>\<open>gromit policy controller\<close> (\<open>cmd/policy.go\<close>): its writes to a buffer cannot fail.\<close>

definition controller_names :: "string list" where
  "controller_names = [''JOB'', ''REPO'', ''TAGS'', ''BASE_REF'', ''IS_PR'', ''IS_TAG'']"

definition controller_defaults :: "string \<Rightarrow> GHoutput" where
  "controller_defaults job = \<lparr>
     gh_TestVariations = Some
       [(job @ ''_conf'', [''sha256'', ''murmur128'']),
        (job @ ''_db'', [''mongo7'', ''postgres15'']),
        (job @ ''_cache_db'', [''redis7'']),
        (''pump'', [''tykio/tyk-pump-docker-pub:v1.8'', ''$ECR/tyk-pump:master'']),
        (''sink'', [''tykio/tyk-mdcb-docker:v2.4'', ''$ECR/tyk-sink:master''])],
     gh_Exclusions = Some
       ([[(''pump'', ''tykio/tyk-pump-docker-pub:v1.8''), (''sink'', ''$ECR/tyk-sink:master'')],
         [(''pump'', ''$ECR/tyk-pump:master''), (''sink'', ''tykio/tyk-mdcb-docker:v2.4'')]]
        @ common_exclusions)\<rparr>"

definition controller_cmd :: "(string \<Rightarrow> string) \<Rightarrow> (bool \<times> string) go" where
  "controller_cmd env =
     (let params = NewParams env controller_names; (failed, op) = SetVersions params in
      if failed then Done (True, [])
      else go_bind (SetOutputs params (\<lambda>_ _. None) (controller_defaults (gm_get0 [] params ''job'')))
        (\<lambda>(e, out). case e of Some _ \<Rightarrow> Done (True, []) | None \<Rightarrow> Done (False, op @ ''\<newline>'' @ out)))"

section \<open>The release pattern\<close>

text \<open>The branches it is meant for, with the number of the release.\<close>

definition digits1 :: "string \<Rightarrow> bool" where
  "digits1 k \<longleftrightarrow> k \<noteq> [] \<and> list_all is_digit k"

definition patch_part :: "string \<Rightarrow> bool" where
  "patch_part a \<longleftrightarrow> a = [] \<or> a = ''.0'' \<or> (\<exists>k. digits1 k \<and> a = ''.0.'' @ k)"

definition tail_part :: "string \<Rightarrow> bool" where
  "tail_part a \<longleftrightarrow> a = [] \<or> a = ''-lts'' \<or> (\<exists>k. digits1 k \<and> (a = ''-'' @ k \<or> a = ''-'' @ k @ ''.0''))"

definition lts_branch :: "string \<Rightarrow> string \<Rightarrow> bool" where
  "lts_branch n s \<longleftrightarrow> digits1 n \<and>
     (\<exists>patch tail. s = ''release-'' @ n @ patch @ tail \<and> patch_part patch \<and> tail_part tail)"

lemma runs_plus1: "(a, rest, c) \<in> set (runs (plus1 is_digit) s) \<longleftrightarrow> c = [] \<and> s = a @ rest \<and> digits1 a"
  unfolding plus1_def runs_Rep digits1_def by (cases a) auto

lemma patch_runs:
  "(a, rest, c) \<in> set (runs (Opt (rxseq [Lit ''.0'', Opt (rxseq [Lit ''.'', plus1 is_digit])])) s)
     \<longleftrightarrow> c = [] \<and> s = a @ rest \<and> patch_part a"
  unfolding rxseq.simps runs_Opt runs_Seq runs_Lit runs_plus1 patch_part_def
  by auto

lemma tail_runs:
  "(a, rest, c) \<in> set (runs (Opt (rxseq [Lit ''-'', Grp 2 (Alt (Lit ''lts'') (rxseq [plus1 is_digit, Opt (Lit ''.0'')]))])) s)
     \<longleftrightarrow> (c = [] \<and> a = [] \<and> s = rest \<or> c = [(2, tl a)] \<and> a \<noteq> [] \<and> s = a @ rest \<and> tail_part a)"
  (is "?m \<longleftrightarrow> _")
proof -
  have num: "(b, r, c') \<in> set (runs (rxseq [plus1 is_digit, Opt (Lit ''.0'')]) t) \<longleftrightarrow>
      c' = [] \<and> t = b @ r \<and> (\<exists>k. digits1 k \<and> (b = k \<or> b = k @ ''.0''))"
    (is "?l \<longleftrightarrow> ?r") for b r c' t
  proof
    show "?l \<Longrightarrow> ?r" unfolding rxseq.simps runs_Seq runs_plus1 runs_Opt runs_Lit by auto
    have "(k @ u, r, [] @ []) \<in> set (runs (Seq (plus1 is_digit) (Opt (Lit ''.0''))) (k @ u @ r))"
      if "digits1 k" "u = [] \<or> u = ''.0''" for k u
      unfolding runs_Seq runs_plus1 runs_Opt runs_Lit using that by blast
    from this [of _ "[]"] this [of _ "''.0''"] show "?r \<Longrightarrow> ?l" by auto
  qed
  have e: "rxseq [Lit ''-'', Grp 2 q] = Seq (Lit ''-'') (Grp 2 q)" for q by simp
  have "?m \<longleftrightarrow> (\<exists>b. a = ''-'' @ b \<and> c = [(2, b)] \<and> s = ''-'' @ b @ rest \<and>
      (b = ''lts'' \<or> (\<exists>k. digits1 k \<and> (b = k \<or> b = k @ ''.0'')))) \<or> a = [] \<and> rest = s \<and> c = []"
    unfolding e runs_Opt runs_Seq runs_Lit runs_Grp runs_Alt num by auto
  also have "\<dots> \<longleftrightarrow> (c = [] \<and> a = [] \<and> s = rest \<or> c = [(2, tl a)] \<and> a \<noteq> [] \<and> s = a @ rest \<and> tail_part a)"
  proof -
    have "(\<exists>b. a = ''-'' @ b \<and> c = [(2, b)] \<and> s = ''-'' @ b @ rest \<and> P b) \<longleftrightarrow>
        c = [(2, tl a)] \<and> a \<noteq> [] \<and> s = a @ rest \<and> (\<exists>b. a = ''-'' @ b \<and> P b)" for P
      by auto
    moreover have "tail_part a \<longleftrightarrow> (\<exists>b. a = ''-'' @ b \<and> (b = ''lts'' \<or> (\<exists>k. digits1 k \<and> (b = k \<or> b = k @ ''.0''))))"
      if "a \<noteq> []" using that unfolding tail_part_def by auto
    ultimately show ?thesis by (cases "a = []") (simp_all add: eq_commute [of s], blast)
  qed
  finally show ?thesis .
qed

lemma lts_runs:
  "(a, rest, c) \<in> set (runs lts_rx s) \<longleftrightarrow>
     rest = [] \<and> a = s \<and> (\<exists>n patch tail. s = ''release-'' @ n @ patch @ tail \<and> digits1 n \<and> patch_part patch \<and>
        tail_part tail \<and> c = (1, n) # (if tail = [] then [] else [(2, tl tail)]))"
proof -
  let ?t = "Opt (rxseq [Lit ''-'', Grp 2 (Alt (Lit ''lts'') (rxseq [plus1 is_digit, Opt (Lit ''.0'')]))])"
  let ?p = "Opt (rxseq [Lit ''.0'', Opt (rxseq [Lit ''.'', plus1 is_digit])])"
  have r: "lts_rx = Seq (Lit ''release-'') (Seq (Grp 1 (plus1 is_digit)) (Seq ?p (Seq ?t Eos)))"
    by (simp add: lts_rx_def)
  have t: "(a, rest, c) \<in> set (runs (Seq ?t Eos) s) \<longleftrightarrow>
      rest = [] \<and> a = s \<and> tail_part s \<and> c = (if s = [] then [] else [(2, tl s)])" for a rest c s
    unfolding runs_Seq tail_runs runs_Eos by (auto simp: tail_part_def)
  have p: "(a, rest, c) \<in> set (runs (Seq ?p (Seq ?t Eos)) s) \<longleftrightarrow>
      rest = [] \<and> a = s \<and> (\<exists>u v. s = u @ v \<and> patch_part u \<and> tail_part v \<and> c = (if v = [] then [] else [(2, tl v)]))"
    for a rest c s
    unfolding runs_Seq [of _ _ _ ?p] patch_runs t by auto
  let ?q = "Seq ?p (Seq ?t Eos)"
  have n: "(a, rest, c) \<in> set (runs (Seq (Grp 1 (plus1 is_digit)) ?q) s) \<longleftrightarrow>
      rest = [] \<and> a = s \<and> (\<exists>n u v. s = n @ u @ v \<and> digits1 n \<and> patch_part u \<and> tail_part v \<and>
        c = (1, n) # (if v = [] then [] else [(2, tl v)]))" (is "?l \<longleftrightarrow> ?r") for a rest c s
  proof
    show "?l \<Longrightarrow> ?r" unfolding runs_Seq [of _ _ _ _ ?q] runs_Grp runs_plus1 p by fastforce
  next
    assume ?r
    then obtain n u v where v: "rest = []" "a = s" "s = n @ u @ v" "digits1 n" "patch_part u" "tail_part v"
      "c = (1, n) # (if v = [] then [] else [(2, tl v)])" by blast
    have "(n, u @ v, [(1, n)]) \<in> set (runs (Grp 1 (plus1 is_digit)) s)"
      unfolding runs_Grp runs_plus1 using v by simp
    moreover have "(u @ v, [], if v = [] then [] else [(2, tl v)]) \<in> set (runs ?q (u @ v))"
      unfolding p using v by blast
    ultimately show ?l unfolding runs_Seq [of _ _ _ _ ?q] using v
      by (metis append.left_neutral append_Cons)
  qed
  show ?thesis
    unfolding r runs_Seq [of _ _ _ "Lit ''release-''"] runs_Lit n
    by (rule iffI; elim exE conjE; simp only: append_Nil append_assoc; blast)
qed

lemma lts_branch_unique: "lts_branch n s \<Longrightarrow> lts_branch m s \<Longrightarrow> n = m"
proof -
  have tw: "takeWhile is_digit (n @ patch @ tail) = n" if "digits1 n" "patch_part patch" "tail_part tail" for n patch tail
  proof -
    have "\<not> is_digit (CHR ''.'')" "\<not> is_digit (CHR ''-'')" by (simp_all add: is_digit_def digit_chars_def)
    then have "takeWhile is_digit (patch @ tail) = []"
      using that(2,3) by (auto simp: patch_part_def tail_part_def)
    moreover have "\<forall>x\<in>set n. is_digit x" using that(1) by (simp add: digits1_def list_all_iff)
    ultimately show ?thesis by (simp add: takeWhile_append2)
  qed
  have "lts_branch k s \<Longrightarrow> k = takeWhile is_digit (drop 8 s)" for k
    using tw [of k] by (auto simp: lts_branch_def)
  then show "lts_branch n s \<Longrightarrow> lts_branch m s \<Longrightarrow> n = m" by metis
qed

text \<open>The expression accepts exactly these branches, and its first group is the number.\<close>

lemma submatch_lts: "submatch lts_rx s = Some c \<Longrightarrow> lts_branch (gm_get0 [] c 1) s"
proof -
  assume "submatch lts_rx s = Some c"
  then obtain n u v where "s = ''release-'' @ n @ u @ v" "digits1 n" "patch_part u" "tail_part v"
    "c = (1, n) # (if v = [] then [] else [(2, tl v)])"
    using submatch_Some [of lts_rx s c] unfolding lts_runs by blast
  then show "lts_branch (gm_get0 [] c 1) s" unfolding lts_branch_def gm_get0_def by auto
qed

lemma submatch_lts_None: "submatch lts_rx s = None \<longleftrightarrow> (\<forall>n. \<not> lts_branch n s)"
proof
  assume none: "submatch lts_rx s = None"
  show "\<forall>n. \<not> lts_branch n s"
  proof (intro allI notI)
    fix n assume "lts_branch n s"
    then obtain u v where "s = ''release-'' @ n @ u @ v" "digits1 n" "patch_part u" "tail_part v"
      unfolding lts_branch_def by blast
    then have "(s, [], (1, n) # (if v = [] then [] else [(2, tl v)])) \<in> set (runs lts_rx s)"
      unfolding lts_runs by blast
    with none show False unfolding submatch_None by blast
  qed
next
  assume "\<forall>n. \<not> lts_branch n s"
  then show "submatch lts_rx s = None"
    by (cases "submatch lts_rx s") (auto dest: submatch_lts)
qed

section \<open>The test environment\<close>

lemma NewParams_controller:
  assumes p: "p = NewParams env controller_names"
    and repo: "repo = after_last (CHR ''/'') (env ''REPO'')"
    and base: "base = after_last (CHR ''/'') (env ''BASE_REF'')"
    and lts: "lts = (case submatch lts_rx base of None \<Rightarrow> None
      | Some c \<Rightarrow> if repo \<in> {''tyk'', ''tyk-analytics'', ''tyk-automated-tests''} then Some (gm_get0 [] c 1) else None)"
  shows "gm_get p ''repo'' = Some repo" "gm_get p ''base_ref'' = Some base"
    and "gm_get p ''job'' = Some (env ''JOB'')"
    and "gm_get p ''firstTag'' = Some (case GoStrings.fields (env ''TAGS'') of [] \<Rightarrow> [] | t # _ \<Rightarrow> t)"
    and "gm_get p ''gdTag'' = Some (case lts of None \<Rightarrow> ''master'' | Some n \<Rightarrow> ''release-'' @ n @ ''-lts'')"
    and "gm_get p ''trigger'' = Some (if lts \<noteq> None then ''is_lts'' else if env ''IS_TAG'' = ''yes'' then ''is_tag''
           else if env ''IS_PR'' = ''yes'' then ''is_pr'' else [])"
proof -
  have low: "to_lower ''JOB'' = ''job''" "to_lower ''REPO'' = ''repo''" "to_lower ''TAGS'' = ''tags''"
    "to_lower ''BASE_REF'' = ''base_ref''" "to_lower ''IS_PR'' = ''is_pr''" "to_lower ''IS_TAG'' = ''is_tag''"
    by code_simp+
  let ?trigger = "if env ''IS_TAG'' = ''yes'' then ''is_tag'' else if env ''IS_PR'' = ''yes'' then ''is_pr'' else []"
  let ?tag = "case GoStrings.fields (env ''TAGS'') of [] \<Rightarrow> [] | t # _ \<Rightarrow> t"
  have f: "fold (read_param env) controller_names ([], [], []) =
     ([(''job'', env ''JOB''), (''repo'', repo), (''tags'', env ''TAGS''), (''base_ref'', base),
       (''is_pr'', env ''IS_PR''), (''is_tag'', env ''IS_TAG'')], ?trigger, ?tag)"
    by (simp add: controller_names_def read_param_def low repo base Let_def)
  let ?p0 = "[(''job'', env ''JOB''), (''repo'', repo), (''tags'', env ''TAGS''), (''base_ref'', base),
       (''is_pr'', env ''IS_PR''), (''is_tag'', env ''IS_TAG''), (''firstTag'', ?tag)]"
  have "p = (case lts of None \<Rightarrow> ?p0 @ [(''trigger'', ?trigger), (''gdTag'', ''master'')]
      | Some n \<Rightarrow> ?p0 @ [(''trigger'', ''is_lts''), (''gdTag'', ''release-'' @ n @ ''-lts'')])"
    unfolding p NewParams_def f lts by (simp add: gm_get0_def split: option.splits)
  then show "gm_get p ''repo'' = Some repo" "gm_get p ''base_ref'' = Some base"
    and "gm_get p ''job'' = Some (env ''JOB'')" and "gm_get p ''firstTag'' = Some ?tag"
    and "gm_get p ''gdTag'' = Some (case lts of None \<Rightarrow> ''master'' | Some n \<Rightarrow> ''release-'' @ n @ ''-lts'')"
    and "gm_get p ''trigger'' = Some (if lts \<noteq> None then ''is_lts'' else ?trigger)"
    by (cases lts; simp)+
qed

text \<open>
  (C21) The controller tests release branches against their own long term release: for the three
  repositories that have one, a branch \<open>release-n\<close> (with the optional parts of such a name) selects
  the images tagged \<open>release-n-lts\<close> and the LTS test variations, whatever else is set; every other
  combination uses \<open>master\<close> and the trigger of the run, a tag before a pull request.
\<close>

theorem controller_selects_lts:
  assumes "p = NewParams env controller_names"
    and "repo = after_last (CHR ''/'') (env ''REPO'')"
    and "base = after_last (CHR ''/'') (env ''BASE_REF'')"
  shows "(lts_branch n base \<and> repo \<in> {''tyk'', ''tyk-analytics'', ''tyk-automated-tests''} \<longrightarrow>
      gm_get p ''gdTag'' = Some (''release-'' @ n @ ''-lts'') \<and> gm_get p ''trigger'' = Some ''is_lts'') \<and>
    ((\<forall>n. \<not> lts_branch n base) \<or> repo \<notin> {''tyk'', ''tyk-analytics'', ''tyk-automated-tests''} \<longrightarrow>
      gm_get p ''gdTag'' = Some ''master'' \<and>
      gm_get p ''trigger'' = Some (if env ''IS_TAG'' = ''yes'' then ''is_tag''
        else if env ''IS_PR'' = ''yes'' then ''is_pr'' else []))"
proof (intro conjI [of "_ \<longrightarrow> _"] impI)
  note c = NewParams_controller [OF assms refl]
  show "gm_get p ''gdTag'' = Some (''release-'' @ n @ ''-lts'') \<and> gm_get p ''trigger'' = Some ''is_lts''"
    if l: "lts_branch n base \<and> repo \<in> {''tyk'', ''tyk-analytics'', ''tyk-automated-tests''}"
  proof -
    obtain k where k: "submatch lts_rx base = Some k" using l submatch_lts_None by (cases "submatch lts_rx base") auto
    have "gm_get0 [] k 1 = n" using lts_branch_unique submatch_lts [OF k] l by blast
    with l show ?thesis unfolding c(5,6) k by simp
  qed
  show "gm_get p ''gdTag'' = Some ''master'' \<and>
      gm_get p ''trigger'' = Some (if env ''IS_TAG'' = ''yes'' then ''is_tag''
        else if env ''IS_PR'' = ''yes'' then ''is_pr'' else [])"
    if n: "(\<forall>n. \<not> lts_branch n base) \<or> repo \<notin> {''tyk'', ''tyk-analytics'', ''tyk-automated-tests''}"
  proof -
    have "(case submatch lts_rx base of None \<Rightarrow> None
      | Some c \<Rightarrow> if repo \<in> {''tyk'', ''tyk-analytics'', ''tyk-automated-tests''} then Some (gm_get0 [] c 1) else None) = None"
      using n submatch_lts by (auto split: option.splits)
    then show ?thesis unfolding c(5,6) by simp
  qed
qed

lemma controller_selects_lts_witness:
  "gm_get (NewParams (\<lambda>v. if v = ''REPO'' then ''TykTechnologies/tyk'' else if v = ''BASE_REF'' then ''refs/heads/release-5.0.13''
      else if v = ''IS_PR'' then ''yes'' else []) controller_names) ''gdTag'' = Some ''release-5-lts'' \<and>
   gm_get (NewParams (\<lambda>v. if v = ''REPO'' then ''tyk-pump'' else if v = ''IS_PR'' then ''yes'' else [])
      controller_names) ''trigger'' = Some ''is_pr''"
proof -
  have a: "after_last (CHR ''/'') ''TykTechnologies/tyk'' = ''tyk''"
    "after_last (CHR ''/'') ''refs/heads/release-5.0.13'' = ''release-5.0.13''"
    "after_last (CHR ''/'') ''tyk-pump'' = ''tyk-pump''" by code_simp+
  have d: "digits1 ''5''" "digits1 ''13''" by code_simp+
  have "patch_part ''.0.13''" unfolding patch_part_def using d(2) by auto
  then have l: "lts_branch ''5'' ''release-5.0.13''"
    unfolding lts_branch_def tail_part_def using d(1)
    by (intro conjI exI [of _ "''.0.13''"] exI [of _ "[]"]) simp_all
  have "gm_get (NewParams (\<lambda>v. if v = ''REPO'' then ''TykTechnologies/tyk'' else if v = ''BASE_REF'' then ''refs/heads/release-5.0.13''
      else if v = ''IS_PR'' then ''yes'' else []) controller_names) ''gdTag'' = Some ''release-5-lts''"
    using controller_selects_lts [OF refl refl refl, where n = "''5''" and
      env = "\<lambda>v. if v = ''REPO'' then ''TykTechnologies/tyk'' else if v = ''BASE_REF'' then ''refs/heads/release-5.0.13''
      else if v = ''IS_PR'' then ''yes'' else []"] l by (simp add: a)
  moreover have "gm_get (NewParams (\<lambda>v. if v = ''REPO'' then ''tyk-pump'' else if v = ''IS_PR'' then ''yes'' else [])
      controller_names) ''trigger'' = Some ''is_pr''"
    using controller_selects_lts [OF refl refl refl,
      where env = "\<lambda>v. if v = ''REPO'' then ''tyk-pump'' else if v = ''IS_PR'' then ''yes'' else []"] by (simp add: a)
  ultimately show ?thesis by (rule conjI)
qed


section \<open>Reading the outputs back\<close>

text \<open>
  GitHub reads an output file as blocks \<open>name<<EOF\<close>, lines, \<open>EOF\<close>; this reads blocks of one line.
\<close>

fun gh_read :: "string list \<Rightarrow> (string \<times> string) list option" where
  "gh_read [] = Some []"
| "gh_read (h # b # e # ls) =
     (if suffix ''<<EOF'' h \<and> b \<noteq> ''EOF'' \<and> e = ''EOF'' then
        map_option ((#) (trim_suffix h ''<<EOF'', b)) (gh_read ls) else None)"
| "gh_read ls = None"

definition gh_outputs :: "string \<Rightarrow> (string \<times> string) list option" where
  "gh_outputs s = gh_read (butlast (split_on (CHR 0x0A) s))"

lemma heredoc_lines:
  assumes "CHR 0x0A \<notin> set v" "CHR 0x0A \<notin> set j"
  shows "split_on (CHR 0x0A) (heredoc v j @ s) = (v @ ''<<EOF'') # j # ''EOF'' # split_on (CHR 0x0A) s"
proof -
  have h: "heredoc v j @ s = (v @ ''<<EOF'') @ CHR 0x0A # j @ CHR 0x0A # ''EOF'' @ CHR 0x0A # s"
    by (simp add: heredoc_def)
  have "CHR 0x0A \<notin> set (v @ ''<<EOF'')" "CHR 0x0A \<notin> set ''EOF''" using assms by auto
  then show ?thesis unfolding h using assms by (metis split_on_append_sep)
qed

lemma gh_read_heredocs:
  assumes "\<forall>(v, j) \<in> set kvs. CHR 0x0A \<notin> set v \<and> CHR 0x0A \<notin> set j \<and> j \<noteq> ''EOF''"
  shows "gh_outputs (concat (List.map (\<lambda>(v, j). heredoc v j) kvs)) = Some kvs"
  using assms
proof (induction kvs)
  case Nil
  then show ?case by (simp add: gh_outputs_def)
next
  case (Cons kv kvs)
  obtain v j where kv: "kv = (v, j)" by force
  let ?s = "concat (List.map (\<lambda>(v, j). heredoc v j) kvs)"
  have "split_on (CHR 0x0A) ?s \<noteq> []" by simp
  then have "gh_outputs (heredoc v j @ ?s)
      = gh_read ((v @ ''<<EOF'') # j # ''EOF'' # butlast (split_on (CHR 0x0A) ?s))"
    using Cons.prems by (simp add: gh_outputs_def heredoc_lines kv)
  also have "\<dots> = Some ((v, j) # kvs)"
    using Cons by (simp add: gh_outputs_def kv trim_suffix_append suffix_def)
  finally show ?case by (simp add: kv)
qed

lemma fold_put_keys:
  "set (gm_keys (fold (\<lambda>(k, v). gm_put k v) kvs m)) = set (gm_keys m) \<union> set (gm_keys kvs)"
proof (induction kvs arbitrary: m)
  case (Cons kv kvs)
  obtain k v where "kv = (k, v)" by force
  moreover have "set (gm_keys (gm_put k v m)) = insert k (set (gm_keys m))" by (simp add: dom_update)
  ultimately show ?case using Cons [of "gm_put k v m"] by (simp del: set_map)
qed simp

lemma store_keys:
  assumes "\<forall>m. gh_TestVariations gh = Some m \<longrightarrow> (\<forall>v \<in> set (gm_keys m). CHR 0x0A \<notin> set v)"
    and "CHR 0x0A \<notin> set (gm_get0 [] p ''job'')"
    and "apply_trigger p gh = Done gh'"
  shows "\<forall>m. gh_TestVariations gh' = Some m \<longrightarrow> (\<forall>v \<in> set (gm_keys m). CHR 0x0A \<notin> set v)"
proof -
  let ?ok = "\<lambda>g. \<forall>m. gh_TestVariations g = Some m \<longrightarrow> (\<forall>v \<in> set (gm_keys m). CHR 0x0A \<notin> set v)"
  have s: "?ok g'" if "store_all kvs gh = Done g'" "\<forall>v \<in> set (gm_keys kvs). CHR 0x0A \<notin> set v" for kvs g'
    using that assms(1) by (auto simp: store_all_def fold_put_keys simp del: set_map split: if_splits option.splits)
  have b: "\<forall>v \<in> set (gm_keys (base_variations (gm_get0 [] p ''job'') cache)). CHR 0x0A \<notin> set v" for cache
    using assms(2) by (auto simp: base_variations_def)
  show ?thesis
  proof (cases "gm_get0 [] p ''trigger'' \<in> {''is_pr'', ''is_lts''}")
    case True
    then obtain kvs g' where k: "store_all kvs gh = Done g'" "\<forall>v \<in> set (gm_keys kvs). CHR 0x0A \<notin> set v"
      and t: "gh_TestVariations gh' = gh_TestVariations g'"
      using assms(3) b by (auto simp: apply_trigger_def Let_def go_bind_Done_iff split: if_splits)
    from s [OF k] t show ?thesis by simp
  next
    case False
    then show ?thesis using assms(1,3) b s by (auto simp: apply_trigger_def Let_def split: if_splits)
  qed
qed

lemma apply_trigger_panics:
  "apply_trigger p gh = Panic e \<Longrightarrow> gh_TestVariations gh = None \<and> gm_get0 [] p ''trigger'' \<in> {''is_pr'', ''is_tag'', ''is_lts''}"
  "apply_trigger p gh = Fatal e \<Longrightarrow> False"
  by (auto simp: apply_trigger_def store_all_def base_variations_def Let_def split: if_splits option.splits)

lemma write_chunks_all: "write_chunks (\<lambda>_ _. None) cs op = (None, op @ concat cs)"
  by (induction cs arbitrary: op) auto



end
