(* ===== verification/Variations.thy ===== *)
theory Variations
  imports USet GoStrings
begin

text \<open>
  \<open>policy/variations.go\<close>: the test variations, saved as a tree of levels (test suite, branch,
  trigger, repository) that inherit the settings above them, and flattened into a table with one
  entry per path.  The YAML decoder and the file system are arguments.
\<close>

section \<open>The saved form\<close>

record envFile =
  ef_Cache :: string
  ef_DB :: string
  ef_Config :: string
  ef_APIMarkers :: string
  ef_UIMarkers :: string
  ef_GwDash :: string
  ef_Pump :: string
  ef_Sink :: string

datatype ghMatrix = GhMatrix
  (gh_EnvFiles: "envFile list")
  (gh_Pump: "string list")
  (gh_Sink: "string list")
  (gh_Deb: "string list")
  (gh_Rpm: "string list")
  (gh_Level: "(string \<times> ghMatrix) list")

definition no_matrix :: ghMatrix where
  "no_matrix = GhMatrix [] [] [] [] [] []"

definition Testsuite :: nat where "Testsuite = 0"
definition Branch :: nat where "Branch = 1"
definition Trigger :: nat where "Trigger = 2"
definition Repo :: nat where "Repo = 3"

lemmas depths = Testsuite_def Branch_def Trigger_def Repo_def

record variationPath =
  vp_Testsuite :: string
  vp_Trigger :: string
  vp_Branch :: string
  vp_Repo :: string

record variations =
  v_Leaves :: "(string, ghMatrix) gomap"
  v_Paths :: "variationPath list"

definition NewVariations :: variations where
  "NewVariations = \<lparr>v_Leaves = [], v_Paths = []\<rparr>"

type_synonym AllTestsuiteVariations = "(string, variations) gomap"

definition Files :: "AllTestsuiteVariations \<Rightarrow> string list" where
  "Files av = gm_keys av"

section \<open>Listing and lookup\<close>

definition Repos_variations :: "variations \<Rightarrow> string list" where
  "Repos_variations v = Members (NewSetFromSlices [List.map vp_Repo (v_Paths v)])"

definition Branches :: "variations \<Rightarrow> string \<Rightarrow> string list" where
  "Branches v repo = Members (NewSetFromSlices
     [List.map vp_Branch (List.filter (\<lambda>p. vp_Repo p = repo) (v_Paths v))])"

definition Triggers :: "variations \<Rightarrow> string \<Rightarrow> string \<Rightarrow> string list" where
  "Triggers v repo branch = Members (NewSetFromSlices
     [List.map vp_Trigger (List.filter (\<lambda>p. vp_Repo p = repo \<and> vp_Branch p = branch) (v_Paths v))])"

definition Testsuites :: "variations \<Rightarrow> string \<Rightarrow> string \<Rightarrow> string \<Rightarrow> string list" where
  "Testsuites v repo branch trigger = Members (NewSetFromSlices
     [List.map vp_Testsuite (List.filter (\<lambda>p. vp_Repo p = repo \<and> vp_Branch p = branch \<and> vp_Trigger p = trigger) (v_Paths v))])"

definition createVariationKey :: "string list \<Rightarrow> string" where
  "createVariationKey keys = fold (\<lambda>key vkey. vkey @ key) keys []"

definition Lookup :: "variations \<Rightarrow> string \<Rightarrow> string \<Rightarrow> string \<Rightarrow> string \<Rightarrow> ghMatrix" where
  "Lookup v repo branch trigger testsuite =
     (case gm_get (v_Leaves v) (createVariationKey [repo, branch, trigger, testsuite]) of
        Some m \<Rightarrow> m
      | None \<Rightarrow> gm_get0 no_matrix (v_Leaves v) (createVariationKey [repo, ''master'', trigger, testsuite]))"

section \<open>Flattening\<close>

definition removeDuplicates :: "string list \<Rightarrow> string list" where
  "removeDuplicates s = snd (fold (\<lambda>str (bucket, result).
     if gm_get bucket str = None then (gm_put str True bucket, result @ [str]) else (bucket, result)) s ([], []))"

text \<open>A level with the settings it inherits, at the start of the loop of \<open>parseVariations\<close>.\<close>

definition inherit :: "ghMatrix \<Rightarrow> ghMatrix \<Rightarrow> ghMatrix" where
  "inherit sv m = GhMatrix
     (gh_EnvFiles m @ gh_EnvFiles sv)
     (removeDuplicates (gh_Pump m @ gh_Pump sv))
     (removeDuplicates (gh_Sink m @ gh_Sink sv))
     (removeDuplicates (gh_Deb m @ gh_Deb sv))
     (removeDuplicates (gh_Rpm m @ gh_Rpm sv))
     (gh_Level m)"

text \<open>The switch on the depth.\<close>

definition enter :: "nat \<Rightarrow> string \<Rightarrow> ghMatrix \<Rightarrow> variations \<times> variationPath \<Rightarrow> variations \<times> variationPath" where
  "enter depth level m = (\<lambda>(v, path).
     if depth = Testsuite then (v, path\<lparr>vp_Testsuite := level\<rparr>)
     else if depth = Branch then (v, path\<lparr>vp_Branch := level\<rparr>)
     else if depth = Trigger then (v, path\<lparr>vp_Trigger := level\<rparr>)
     else if depth = Repo then
       (let path = path\<lparr>vp_Repo := level\<rparr>;
            key = createVariationKey [vp_Repo path, vp_Branch path, vp_Trigger path, vp_Testsuite path]
        in (v\<lparr>v_Leaves := gm_put key m (v_Leaves v), v_Paths := v_Paths v @ [path]\<rparr>, path))
     else (v, path))"

text \<open>\<open>func parseVariations(sv ghMatrix, depth int, v *variations, path variationPath)\<close>\<close>

function parseVariations :: "ghMatrix \<Rightarrow> nat \<Rightarrow> variations \<Rightarrow> variationPath \<Rightarrow> variations" where
  "parseVariations sv depth v path =
     (if depth > Repo then v
      else fst (fold (\<lambda>(level, m) st.
             let m = inherit sv m; (v, path) = enter depth level m st
             in (parseVariations m (Suc depth) v path, path)) (gh_Level sv) (v, path)))"
  by pat_completeness auto
termination by (relation "measure (\<lambda>(sv, depth, v, path). Suc Repo - depth)") (auto simp: Repo_def)

declare parseVariations.simps [simp del]

text \<open>
  \<open>func loadVariation(tvFile string) (*variations, error)\<close>; a pointer it returns with an error is
  not looked at.
\<close>

definition loadVariation ::
  "(string \<Rightarrow> string + string) \<Rightarrow> (string \<Rightarrow> string + ghMatrix) \<Rightarrow> string \<Rightarrow> string + variations" where
  "loadVariation read_file unmarshal tvFile =
     res_bind (read_file tvFile) (\<lambda>data.
       case unmarshal data of
         Inl e \<Rightarrow> Inl (''could not unmarshal data from '' @ tvFile @ '': '' @ data @ '': '' @ e)
       | Inr saved \<Rightarrow> Inr (parseVariations saved Testsuite NewVariations
           \<lparr>vp_Testsuite = [], vp_Trigger = [], vp_Branch = [], vp_Repo = []\<rparr>))"

text \<open>The regular expression \<open>\.ya?ml$\<close>.\<close>

definition yaml_name :: "string \<Rightarrow> bool" where
  "yaml_name fname \<longleftrightarrow> suffix ''.yaml'' fname \<or> suffix ''.yml'' fname"

fun load_files ::
  "(string \<Rightarrow> string + variations) \<Rightarrow> string \<Rightarrow> string list \<Rightarrow> AllTestsuiteVariations \<times> nat \<Rightarrow>
   string + AllTestsuiteVariations \<times> nat" where
  "load_files load tvDir [] st = Inr st"
| "load_files load tvDir (fname # files) (av, n) =
     (if \<not> yaml_name fname then load_files load tvDir files (av, n)
      else let pathName = filepath_join [tvDir, fname] in
        case load pathName of
          Inl e \<Rightarrow> Inl (''could not load test variation from '' @ pathName @ '': '' @ e)
        | Inr tv \<Rightarrow> load_files load tvDir files (gm_put fname tv av, Suc n))"

text \<open>\<open>func loadAllVariations(tvDir string) (AllTestsuiteVariations, error)\<close>\<close>

definition loadAllVariations ::
  "(string \<Rightarrow> string + string list) \<Rightarrow> (string \<Rightarrow> string + variations) \<Rightarrow> string \<Rightarrow>
   (string + AllTestsuiteVariations) go" where
  "loadAllVariations read_dir load tvDir =
     (case read_dir tvDir of
        Inl e \<Rightarrow> Fatal ''could not read directory''
      | Inr files \<Rightarrow> Done (res_bind (load_files load tvDir files ([], 0))
          (\<lambda>(av, numVariations). if numVariations < 1 then Inl (''No loadable files in '' @ tvDir) else Inr av)))"

section \<open>What the table holds\<close>

text \<open>Keeping the first occurrence of each element.\<close>

definition dedup :: "'a list \<Rightarrow> 'a list" where
  "dedup s = rev (remdups (rev s))"

lemma dedup_snoc: "dedup (s @ [x]) = (if x \<in> set s then dedup s else dedup s @ [x])"
  by (simp add: dedup_def)

lemma removeDuplicates_dedup: "removeDuplicates s = dedup s"
proof -
  let ?f = "\<lambda>str (bucket :: (string, bool) gomap, result :: string list).
     if gm_get bucket str = None then (gm_put str True bucket, result @ [str]) else (bucket, result)"
  have "snd (fold ?f s ([], [])) = dedup s \<and> (\<forall>x. (gm_get (fst (fold ?f s ([], []))) x = None) = (x \<notin> set s))"
  proof (induction s rule: rev_induct)
    case Nil
    then show ?case by (simp add: dedup_def)
  next
    case (snoc x s)
    obtain b r where br: "fold ?f s ([], []) = (b, r)" by force
    with snoc show ?case by (auto simp: dedup_snoc update_conv split: if_splits)
  qed
  then show ?thesis by (simp add: removeDuplicates_def)
qed

lemma set_dedup [simp]: "set (dedup s) = set s" and distinct_dedup [simp]: "distinct (dedup s)"
  by (simp_all add: dedup_def)

lemma dedup_append: "dedup (a @ dedup b) = dedup (a @ b)"
proof (induction b rule: rev_induct)
  case Nil
  then show ?case by (simp add: dedup_def)
next
  case (snoc x b)
  have "dedup (a @ b @ [x]) = (if x \<in> set (a @ b) then dedup (a @ b) else dedup (a @ b) @ [x])"
    using dedup_snoc [of "a @ b" x] by simp
  moreover have "dedup (a @ dedup b @ [x]) = (if x \<in> set (a @ b) then dedup (a @ dedup b) else dedup (a @ dedup b) @ [x])"
    using dedup_snoc [of "a @ dedup b" x] by simp
  ultimately show ?case using snoc by (auto simp: dedup_snoc)
qed

text \<open>The leaves of the tree, outermost level first, and how one enters the table.\<close>

definition flat :: "ghMatrix \<Rightarrow> (variationPath \<times> ghMatrix) list" where
  "flat sv = concat (List.map (\<lambda>(ts, m1).
     concat (List.map (\<lambda>(br, m2).
       concat (List.map (\<lambda>(tr, m3).
         List.map (\<lambda>(repo, m4).
           (\<lparr>vp_Testsuite = ts, vp_Trigger = tr, vp_Branch = br, vp_Repo = repo\<rparr>,
            inherit (inherit (inherit (inherit sv m1) m2) m3) m4))
         (gh_Level m3)) (gh_Level m2))) (gh_Level m1))) (gh_Level sv))"

definition path_key :: "variationPath \<Rightarrow> string" where
  "path_key p = vp_Repo p @ vp_Branch p @ vp_Trigger p @ vp_Testsuite p"

definition add_leaf :: "variationPath \<times> ghMatrix \<Rightarrow> variations \<Rightarrow> variations" where
  "add_leaf = (\<lambda>(p, m) v. v\<lparr>v_Leaves := gm_put (path_key p) m (v_Leaves v), v_Paths := v_Paths v @ [p]\<rparr>)"

lemma key_concat: "createVariationKey ks = concat ks"
proof -
  have "fold (\<lambda>key vkey. vkey @ key) ks a = a @ concat ks" for a
    by (induction ks arbitrary: a) auto
  then show ?thesis by (simp add: createVariationKey_def)
qed

lemma parse_deep: "depth > Repo \<Longrightarrow> parseVariations sv depth v path = v"
  by (subst parseVariations.simps) simp

lemma parse_level:
  assumes "d < Repo"
    and upd: "\<And>l m v p. enter d l m (v, p) = (v, upd l p)" "\<And>l k p. upd l (upd k p) = upd l p"
  shows "parseVariations sv d v path
    = fold (\<lambda>(l, m) v. parseVariations (inherit sv m) (Suc d) v (upd l path)) (gh_Level sv) v"
proof -
  let ?f = "\<lambda>(level, m) st. let m = inherit sv m; (v, path) = enter d level m st
             in (parseVariations m (Suc d) v path, path)"
  have "fst (fold ?f ls (v, q)) = fold (\<lambda>(l, m) v. parseVariations (inherit sv m) (Suc d) v (upd l path)) ls v"
    if "\<forall>l. upd l q = upd l path" for ls v q
    using that
  proof (induction ls arbitrary: v q)
    case (Cons lm ls)
    obtain l m where lm: "lm = (l, m)" by force
    have "\<forall>k. upd k (upd l q) = upd k path" using Cons.prems upd(2) by simp
    from Cons.IH [OF this] Cons.prems show ?case by (simp add: lm upd(1) Let_def)
  qed simp
  with assms(1) show ?thesis by (subst parseVariations.simps) simp
qed

lemma parse_repos:
  "parseVariations sv Repo v path
    = fold (\<lambda>(l, m). add_leaf (path\<lparr>vp_Repo := l\<rparr>, inherit sv m)) (gh_Level sv) v"
proof -
  let ?f = "\<lambda>(level, m) st. let m = inherit sv m; (v, path) = enter Repo level m st
             in (parseVariations m (Suc Repo) v path, path)"
  have "fst (fold ?f ls (v, q)) = fold (\<lambda>(l, m). add_leaf (path\<lparr>vp_Repo := l\<rparr>, inherit sv m)) ls v"
    if "\<forall>l. q\<lparr>vp_Repo := l\<rparr> = path\<lparr>vp_Repo := l\<rparr>" for ls v q
    using that
  proof (induction ls arbitrary: v q)
    case (Cons lm ls)
    obtain l m where lm: "lm = (l, m)" by force
    let ?q = "q\<lparr>vp_Repo := l\<rparr>"
    have "enter Repo l (inherit sv m) (v, q) = (add_leaf (?q, inherit sv m) v, ?q)"
      by (simp add: enter_def depths add_leaf_def key_concat path_key_def Let_def)
    moreover have "?q\<lparr>vp_Repo := k\<rparr> = path\<lparr>vp_Repo := k\<rparr>" for k
      using Cons.prems [rule_format, of k] by simp
    ultimately show ?case using Cons.IH [of ?q] Cons.prems by (simp add: lm parse_deep)
  qed simp
  then show ?thesis by (subst parseVariations.simps) simp
qed

lemma fold_concat_map: "fold f (concat (List.map g xs)) v = fold (\<lambda>x v. fold f (g x) v) xs v"
  by (induction xs arbitrary: v) auto

lemma parse_flat: "parseVariations sv Testsuite v path = fold add_leaf (flat sv) v"
proof -
  have lt: "Testsuite < Repo" "Branch < Repo" "Trigger < Repo"
    and suc: "Suc Testsuite = Branch" "Suc Branch = Trigger" "Suc Trigger = Repo" by (simp_all add: depths)
  have t: "parseVariations sv Testsuite v p
      = fold (\<lambda>(l, m) v. parseVariations (inherit sv m) Branch v (p\<lparr>vp_Testsuite := l\<rparr>)) (gh_Level sv) v" for sv v p
    by (subst parse_level [OF lt(1), where upd = "\<lambda>l p. p\<lparr>vp_Testsuite := l\<rparr>"]) (simp_all add: enter_def suc)
  have b: "parseVariations sv Branch v p
      = fold (\<lambda>(l, m) v. parseVariations (inherit sv m) Trigger v (p\<lparr>vp_Branch := l\<rparr>)) (gh_Level sv) v" for sv v p
    by (subst parse_level [OF lt(2), where upd = "\<lambda>l p. p\<lparr>vp_Branch := l\<rparr>"]) (simp_all add: enter_def suc, simp add: depths)
  have g: "parseVariations sv Trigger v p
      = fold (\<lambda>(l, m) v. parseVariations (inherit sv m) Repo v (p\<lparr>vp_Trigger := l\<rparr>)) (gh_Level sv) v" for sv v p
    by (subst parse_level [OF lt(3), where upd = "\<lambda>l p. p\<lparr>vp_Trigger := l\<rparr>"]) (simp_all add: enter_def suc, simp add: depths)
  have full: "path\<lparr>vp_Testsuite := a, vp_Branch := b, vp_Trigger := c, vp_Repo := d\<rparr>
      = \<lparr>vp_Testsuite = a, vp_Trigger = c, vp_Branch = b, vp_Repo = d\<rparr>" for a b c d
    by (cases path) simp
  have lev: "gh_Level (inherit sv m) = gh_Level m" for sv m by (simp add: inherit_def)
  show ?thesis
    unfolding t b g parse_repos flat_def
    by (simp add: fold_concat_map fold_map lev case_prod_unfold comp_def full)
qed

text \<open>The table after loading.\<close>

lemma add_leaves:
  "v_Paths (fold add_leaf ls v) = v_Paths v @ List.map fst ls \<and>
   (gm_get (v_Leaves (fold add_leaf ls v)) k =
      (case List.filter (\<lambda>(p, m). path_key p = k) (rev ls) of [] \<Rightarrow> gm_get (v_Leaves v) k | (p, m) # _ \<Rightarrow> Some m))"
proof (induction ls rule: rev_induct)
  case (snoc l ls)
  obtain p m where "l = (p, m)" by force
  with snoc show ?case by (auto simp: add_leaf_def update_conv split: list.splits)
qed simp

lemma in_concat_pairs:
  "x \<in> set (concat (List.map (\<lambda>(l, m). F l m) ls)) \<longleftrightarrow> (\<exists>l m. (l, m) \<in> set ls \<and> x \<in> set (F l m))"
  by force

lemma in_map_pairs: "x \<in> set (List.map (\<lambda>(l, m). F l m) ls) \<longleftrightarrow> (\<exists>l m. (l, m) \<in> set ls \<and> x = F l m)"
  by force

lemma in_flat:
  "(p, m) \<in> set (flat sv) \<longleftrightarrow> (\<exists>ts a br b tr c repo d.
     (ts, a) \<in> set (gh_Level sv) \<and> (br, b) \<in> set (gh_Level a) \<and> (tr, c) \<in> set (gh_Level b) \<and>
     (repo, d) \<in> set (gh_Level c) \<and>
     p = \<lparr>vp_Testsuite = ts, vp_Trigger = tr, vp_Branch = br, vp_Repo = repo\<rparr> \<and>
     m = inherit (inherit (inherit (inherit sv a) b) c) d)"
  unfolding flat_def in_concat_pairs in_map_pairs prod.inject by blast

text \<open>No two paths of the tree run together into the same key.\<close>

definition keys_distinct :: "ghMatrix \<Rightarrow> bool" where
  "keys_distinct sv \<longleftrightarrow> distinct (List.map (\<lambda>(p, m). path_key p) (flat sv))"

lemma distinct_filter_key:
  "distinct (List.map f xs) \<Longrightarrow> x \<in> set xs \<Longrightarrow> List.filter (\<lambda>y. f y = f x) xs = [x]"
proof (induction xs)
  case (Cons y ys)
  show ?case
  proof (cases "y = x")
    case True
    with Cons.prems(1) have "f x \<notin> f ` set ys" by simp
    then have "List.filter (\<lambda>z. f z = f x) ys = []" by (simp add: filter_empty_conv) (metis imageI)
    with True show ?thesis by simp
  next
    case False
    with Cons.prems have "x \<in> set ys" "f y \<noteq> f x" by force+
    with Cons show ?thesis by simp
  qed
qed simp

lemma leaf_lookup:
  assumes "keys_distinct sv" "(p, m) \<in> set (flat sv)"
  shows "gm_get (v_Leaves (fold add_leaf (flat sv) NewVariations)) (path_key p) = Some m"
proof -
  have "distinct (List.map (\<lambda>(p, m). path_key p) (rev (flat sv)))"
    using assms(1) by (simp add: keys_distinct_def rev_map [symmetric])
  from distinct_filter_key [OF this, of "(p, m)"] assms(2)
  have "List.filter (\<lambda>(q, n). path_key q = path_key p) (rev (flat sv)) = [(p, m)]"
    by (simp add: case_prod_unfold)
  then show ?thesis using add_leaves [where ls = "flat sv" and v = NewVariations and k = "path_key p"] by simp
qed

lemma leaf_missing:
  assumes "k \<notin> path_key ` fst ` set (flat sv)"
  shows "gm_get (v_Leaves (fold add_leaf (flat sv) NewVariations)) k = None"
proof -
  have "List.filter (\<lambda>(p, m). path_key p = k) (rev (flat sv)) = []"
    using assms by (force simp: filter_empty_conv)
  then show ?thesis
    using add_leaves [where ls = "flat sv" and v = NewVariations and k = k] by (simp add: NewVariations_def)
qed

text \<open>What a leaf inherits: its own settings first, then those of the levels above it.\<close>

lemma inherit_chain:
  "gh_EnvFiles (inherit (inherit (inherit (inherit g a) b) c) d)
    = gh_EnvFiles d @ gh_EnvFiles c @ gh_EnvFiles b @ gh_EnvFiles a @ gh_EnvFiles g"
  "gh_Pump (inherit (inherit (inherit (inherit g a) b) c) d)
    = dedup (gh_Pump d @ gh_Pump c @ gh_Pump b @ gh_Pump a @ gh_Pump g)"
  "gh_Sink (inherit (inherit (inherit (inherit g a) b) c) d)
    = dedup (gh_Sink d @ gh_Sink c @ gh_Sink b @ gh_Sink a @ gh_Sink g)"
  "gh_Deb (inherit (inherit (inherit (inherit g a) b) c) d)
    = dedup (gh_Deb d @ gh_Deb c @ gh_Deb b @ gh_Deb a @ gh_Deb g)"
  "gh_Rpm (inherit (inherit (inherit (inherit g a) b) c) d)
    = dedup (gh_Rpm d @ gh_Rpm c @ gh_Rpm b @ gh_Rpm a @ gh_Rpm g)"
  by (simp_all add: inherit_def removeDuplicates_dedup dedup_append)

section \<open>Properties\<close>

text \<open>
  (C19) A loaded file answers each path it saves with the settings of that path: the environment files of
  the repository, its trigger, branch, test suite and the top level, in this order, and the pump, sink
  and distribution lists of the same levels without duplicates, provided no two paths have the same key.
\<close>

theorem lookup_saved_path:
  assumes load: "loadVariation read_file unmarshal file = Inr v"
    and saved: "read_file file = Inr data" "unmarshal data = Inr sv"
    and keys: "keys_distinct sv"
    and path: "(ts, a) \<in> set (gh_Level sv)" "(br, b) \<in> set (gh_Level a)" "(tr, c) \<in> set (gh_Level b)"
      "(repo, d) \<in> set (gh_Level c)"
  shows "gh_EnvFiles (Lookup v repo br tr ts)
      = gh_EnvFiles d @ gh_EnvFiles c @ gh_EnvFiles b @ gh_EnvFiles a @ gh_EnvFiles sv \<and>
    gh_Pump (Lookup v repo br tr ts) = dedup (gh_Pump d @ gh_Pump c @ gh_Pump b @ gh_Pump a @ gh_Pump sv) \<and>
    gh_Sink (Lookup v repo br tr ts) = dedup (gh_Sink d @ gh_Sink c @ gh_Sink b @ gh_Sink a @ gh_Sink sv) \<and>
    gh_Deb (Lookup v repo br tr ts) = dedup (gh_Deb d @ gh_Deb c @ gh_Deb b @ gh_Deb a @ gh_Deb sv) \<and>
    gh_Rpm (Lookup v repo br tr ts) = dedup (gh_Rpm d @ gh_Rpm c @ gh_Rpm b @ gh_Rpm a @ gh_Rpm sv)"
proof -
  let ?p = "\<lparr>vp_Testsuite = ts, vp_Trigger = tr, vp_Branch = br, vp_Repo = repo\<rparr>"
  let ?m = "inherit (inherit (inherit (inherit sv a) b) c) d"
  have v: "v = fold add_leaf (flat sv) NewVariations"
    using load saved by (simp add: loadVariation_def parse_flat)
  have "(?p, ?m) \<in> set (flat sv)" using path unfolding in_flat by blast
  from leaf_lookup [OF keys this] have "Lookup v repo br tr ts = ?m"
    by (simp add: Lookup_def v key_concat path_key_def)
  then show ?thesis by (simp add: inherit_chain)
qed


text \<open>A small file: one test suite, the branches \<open>master\<close> and \<open>default\<close>, one trigger, one repository.\<close>

definition sample_env :: "string \<Rightarrow> envFile" where
  "sample_env db = \<lparr>ef_Cache = ''redis7'', ef_DB = db, ef_Config = ''sha256'', ef_APIMarkers = [],
     ef_UIMarkers = [], ef_GwDash = [], ef_Pump = [], ef_Sink = []\<rparr>"

definition sample_levels :: "(string \<times> ghMatrix) list" where
  "sample_levels = [(''pr'', GhMatrix [] [] [] [] [] [(''tyk'', GhMatrix [sample_env ''pg''] [''p1'', ''p2''] [] [] [] [])])]"

definition sample :: ghMatrix where
  "sample = GhMatrix [sample_env ''mongo''] [''p2''] [''s''] [] []
     [(''api'', GhMatrix [] [] [] [] [] [(''master'', GhMatrix [] [''p3''] [] [] [] sample_levels),
        (''default'', GhMatrix [] [] [] [] [] sample_levels)])]"

lemma sample_keys: "keys_distinct sample"
  by code_simp

lemma lookup_saved_path_witness:
  "case loadVariation (\<lambda>_. Inr []) (\<lambda>_. Inr sample) ''f.yml'' of
     Inl e \<Rightarrow> False
   | Inr v \<Rightarrow> gh_EnvFiles (Lookup v ''tyk'' ''master'' ''pr'' ''api'') = [sample_env ''pg'', sample_env ''mongo''] \<and>
      gh_Pump (Lookup v ''tyk'' ''master'' ''pr'' ''api'') = [''p1'', ''p2'', ''p3'']"
proof -
  obtain v where v: "loadVariation (\<lambda>_. Inr []) (\<lambda>_. Inr sample) ''f.yml'' = Inr v"
    by (simp add: loadVariation_def)
  let ?d = "GhMatrix [sample_env ''pg''] [''p1'', ''p2''] [] [] [] []"
  let ?c = "GhMatrix [] [] [] [] [] [(''tyk'', ?d)]"
  let ?b = "GhMatrix [] [''p3''] [] [] [] sample_levels"
  let ?a = "GhMatrix [] [] [] [] [] [(''master'', ?b), (''default'', GhMatrix [] [] [] [] [] sample_levels)]"
  have "dedup [''p1'', ''p2'', ''p3'', ''p2''] = [''p1'', ''p2'', ''p3'']" by code_simp
  then show ?thesis
    using lookup_saved_path [OF v refl refl sample_keys, of "''api''" ?a "''master''" ?b "''pr''" ?c "''tyk''" ?d]
    unfolding v sum.case by (simp add: sample_def sample_levels_def)
qed


text \<open>
  A branch that is not in the file is answered with the settings of \<open>master\<close>, and if the file has none
  for \<open>master\<close> with an empty matrix: the level \<open>default\<close>, which the saved files describe as the one used for
  branches that are not listed, is only found under its own name.
\<close>

theorem unlisted_branch_uses_master:
  assumes "loadVariation read_file unmarshal file = Inr v"
    and "read_file file = Inr data" "unmarshal data = Inr sv" "keys_distinct sv"
    and unlisted: "path_key \<lparr>vp_Testsuite = ts, vp_Trigger = tr, vp_Branch = br, vp_Repo = repo\<rparr> \<notin> path_key ` fst ` set (flat sv)"
  shows "Lookup v repo br tr ts =
    (case List.filter (\<lambda>(p, m). path_key p = repo @ ''master'' @ tr @ ts) (flat sv) of [] \<Rightarrow> no_matrix | (p, m) # _ \<Rightarrow> m)"
proof -
  have v: "v = fold add_leaf (flat sv) NewVariations"
    using assms by (simp add: loadVariation_def parse_flat)
  define k where "k = repo @ ''master'' @ tr @ ts"
  have l: "Lookup v repo br tr ts = gm_get0 no_matrix (v_Leaves v) k"
    using leaf_missing [OF unlisted] by (simp add: Lookup_def v key_concat path_key_def k_def)
  have "gm_get (v_Leaves v) k =
    (case List.filter (\<lambda>(p, m). path_key p = k) (flat sv) of [] \<Rightarrow> None | (p, m) # _ \<Rightarrow> Some m)"
  proof (cases "List.filter (\<lambda>(p, m). path_key p = k) (flat sv)")
    case Nil
    then have "k \<notin> path_key ` fst ` set (flat sv)" by (force simp: filter_empty_conv)
    from leaf_missing [OF this] show ?thesis by (simp add: v Nil)
  next
    case (Cons pm rest)
    obtain p m where pm: "pm = (p, m)" by force
    have "(p, m) \<in> set (List.filter (\<lambda>(p, m). path_key p = k) (flat sv))"
      by (simp add: Cons pm)
    then have "(p, m) \<in> set (flat sv)" "path_key p = k" by auto
    with leaf_lookup [OF assms(4)] show ?thesis by (auto simp: v Cons pm)
  qed
  with l show ?thesis unfolding k_def [symmetric] by (simp add: gm_get0_def split: list.splits)
qed

lemma unlisted_branch_witness:
  "case loadVariation (\<lambda>_. Inr []) (\<lambda>_. Inr sample) ''f.yml'' of
     Inl e \<Rightarrow> False
   | Inr v \<Rightarrow> gh_Pump (Lookup v ''tyk'' ''release-5'' ''pr'' ''api'') = [''p1'', ''p2'', ''p3'']"
proof -
  obtain v where v: "loadVariation (\<lambda>_. Inr []) (\<lambda>_. Inr sample) ''f.yml'' = Inr v"
    by (simp add: loadVariation_def)
  let ?p = "\<lparr>vp_Testsuite = ''api'', vp_Trigger = ''pr'', vp_Branch = ''release-5'', vp_Repo = ''tyk''\<rparr>"
  have "list_all (\<lambda>(p, m). path_key p \<noteq> path_key ?p) (flat sample)" by code_simp
  then have "path_key ?p \<notin> path_key ` fst ` set (flat sample)" by (force simp: list_all_iff)
  moreover have "List.map (\<lambda>(p, m). gh_Pump m)
      (List.filter (\<lambda>(p, m). path_key p = ''tyk'' @ ''master'' @ ''pr'' @ ''api'') (flat sample)) = [[''p1'', ''p2'', ''p3'']]"
    by code_simp
  then obtain p m where "List.filter (\<lambda>(p, m). path_key p = ''tyk'' @ ''master'' @ ''pr'' @ ''api'') (flat sample) = [(p, m)]"
    and "gh_Pump m = [''p1'', ''p2'', ''p3'']" by (auto simp: map_eq_Cons_conv)
  ultimately show ?thesis
    using unlisted_branch_uses_master [OF v refl refl sample_keys, of "''api''" "''pr''" "''release-5''" "''tyk''"]
    unfolding v sum.case by simp
qed

text \<open>The keys of different paths can collide.\<close>

lemma keys_collide:
  "createVariationKey [''tyk'', ''-pump'', ''pr'', ''api''] = createVariationKey [''tyk-pump'', [], ''pr'', ''api'']"
  by (simp add: key_concat)

lemma load_files_ok:
  "load_files load d files (av, n) = Inr (av', n') \<Longrightarrow>
     n' = n + length (List.filter yaml_name files) \<and>
     (\<forall>f \<in> set files. yaml_name f \<longrightarrow> (\<exists>v. load (filepath_join [d, f]) = Inr v)) \<and>
     (\<forall>f. gm_get av' f = (if f \<in> set files \<and> yaml_name f then
        (case load (filepath_join [d, f]) of Inl e \<Rightarrow> None | Inr v \<Rightarrow> Some v) else gm_get av f))"
proof (induction files arbitrary: av n)
  case (Cons f files)
  show ?case
  proof (cases "yaml_name f")
    case True
    with Cons.prems obtain v where v: "load (filepath_join [d, f]) = Inr v"
      and "load_files load d files (gm_put f v av, Suc n) = Inr (av', n')" by (auto simp: Let_def split: sum.splits)
    from Cons.IH [OF this(2)] v True show ?thesis by (auto simp: update_conv)
  next
    case False
    with Cons.prems Cons.IH show ?thesis by auto
  qed
qed simp

lemma load_files_total:
  "\<forall>f \<in> set files. yaml_name f \<longrightarrow> (\<exists>v. load (filepath_join [d, f]) = Inr v) \<Longrightarrow>
   \<exists>av' n'. load_files load d files (av, n) = Inr (av', n')"
  by (induction files arbitrary: av n) (auto simp: Let_def)

text \<open>
  The files of a directory are loaded all or not at all: loading succeeds exactly when there is a YAML
  file and every YAML file loads, and then each of them is found under its name and nothing else is; only
  an unreadable directory stops the program.
\<close>

theorem loads_all_or_none:
  assumes "read_dir tvDir = Inr files"
  shows "\<exists>r. loadAllVariations read_dir load tvDir = Done r \<and>
    ((\<exists>av. r = Inr av) \<longleftrightarrow> (\<exists>f \<in> set files. yaml_name f) \<and>
       (\<forall>f \<in> set files. yaml_name f \<longrightarrow> (\<exists>v. load (filepath_join [tvDir, f]) = Inr v))) \<and>
    (\<forall>av f. r = Inr av \<longrightarrow> gm_get av f = (if f \<in> set files \<and> yaml_name f then
        (case load (filepath_join [tvDir, f]) of Inl e \<Rightarrow> None | Inr v \<Rightarrow> Some v) else None))"
proof (cases "load_files load tvDir files ([], 0)")
  case (Inl e)
  then have "\<not> (\<forall>f \<in> set files. yaml_name f \<longrightarrow> (\<exists>v. load (filepath_join [tvDir, f]) = Inr v))"
    using load_files_total [where av = "[]" and n = 0] by fastforce
  with Inl assms show ?thesis by (simp add: loadAllVariations_def)
next
  case (Inr r)
  obtain av n where r: "r = (av, n)" by force
  note ok = load_files_ok [OF Inr [unfolded r]]
  have "n < 1 \<longleftrightarrow> \<not> (\<exists>f \<in> set files. yaml_name f)" using ok by (simp add: filter_empty_conv)
  with ok assms Inr r show ?thesis by (simp add: loadAllVariations_def)
qed

lemma loads_all_or_none_witness:
  "\<exists>av. loadAllVariations (\<lambda>_. Inr [''a.yml'', ''readme.md'']) (\<lambda>_. Inr NewVariations) ''d'' = Done (Inr av) \<and>
     gm_get av ''a.yml'' = Some NewVariations \<and> gm_get av ''readme.md'' = None"
proof -
  have "yaml_name ''a.yml''" "\<not> yaml_name ''readme.md''" by code_simp+
  then show ?thesis
    using loads_all_or_none [of "\<lambda>_. Inr [''a.yml'', ''readme.md'']" "''d''" _ "\<lambda>_. Inr NewVariations"] by auto
qed

end
