(* ===== verification/Tui.thy ===== *)
theory Tui
  imports Variations Controller
begin

text \<open>
  \<open>policy/tui.go\<close>: the static files that answer the test-suite queries, written for every path of every
  loaded variation: JSON, and the outputs form GitHub reads.  Whether a file can be written, the rendered
  index page and the embedded assets are arguments.
\<close>

section \<open>Values as JSON\<close>

text \<open>
  Structs print their fields in declaration order; an empty slice of the loader is nil and prints as null,
  as does an absent level.
\<close>

definition obj_text :: "(string \<times> string) list \<Rightarrow> string" where
  "obj_text ms = ''{'' @ join_with '','' (List.map (\<lambda>(k, t). json_string k @ '':'' @ t) ms) @ ''}''"

definition arr_text :: "string list \<Rightarrow> string" where
  "arr_text ts = (if ts = [] then ''null'' else ''['' @ join_with '','' ts @ '']'')"

definition strs_text :: "string list \<Rightarrow> string" where
  "strs_text xs = arr_text (List.map json_string xs)"

definition omitempty :: "string \<Rightarrow> string \<Rightarrow> (string \<times> string) list" where
  "omitempty k v = (if v = [] then [] else [(k, json_string v)])"

definition envFile_text :: "envFile \<Rightarrow> string" where
  "envFile_text e = obj_text
     ([(''cache'', json_string (ef_Cache e)), (''db'', json_string (ef_DB e)), (''config'', json_string (ef_Config e)),
       (''apimarkers'', json_string (ef_APIMarkers e)), (''uimarkers'', json_string (ef_UIMarkers e)),
       (''gwdash'', json_string (ef_GwDash e))]
      @ omitempty ''pump'' (ef_Pump e) @ omitempty ''sink'' (ef_Sink e))"

definition distros_fields :: "ghMatrix \<Rightarrow> (string \<times> string) list" where
  "distros_fields m = [(''deb'', strs_text (gh_Deb m)), (''rpm'', strs_text (gh_Rpm m))]"

definition envfiles_text :: "ghMatrix \<Rightarrow> string" where
  "envfiles_text m = arr_text (List.map envFile_text (gh_EnvFiles m))"

fun matrix_text :: "ghMatrix \<Rightarrow> string" where
  "matrix_text (GhMatrix efs ps ss ds rs ls) =
     (let m = GhMatrix efs ps ss ds rs [] in
      obj_text [(''envfiles'', envfiles_text m), (''pump'', strs_text ps), (''sink'', strs_text ss),
        (''distros'', obj_text (distros_fields m)),
        (''Level'', if ls = [] then ''null'' else obj_text (sort_members (List.map (\<lambda>(k, l). (k, matrix_text l)) ls)))])"

definition path_text :: "variationPath \<Rightarrow> string" where
  "path_text p = obj_text [(''Testsuite'', json_string (vp_Testsuite p)), (''Trigger'', json_string (vp_Trigger p)),
     (''Branch'', json_string (vp_Branch p)), (''Repo'', json_string (vp_Repo p))]"

definition variations_text :: "variations \<Rightarrow> string" where
  "variations_text v = obj_text
     [(''Leaves'', obj_text (sort_members (List.map (\<lambda>(k, m). (k, matrix_text m)) (v_Leaves v)))),
      (''Paths'', arr_text (List.map path_text (v_Paths v)))]"

text \<open>
  A field of \<open>ghMatrix\<close> as reflection shows it: its name, its JSON tag, its value as JSON, and the tagged
  fields of the value when that is a struct.
\<close>

record field =
  fd_Name :: string
  fd_tag :: string
  fd_json :: string
  fd_struct :: "(string \<times> string) list option"

definition matrix_fields :: "ghMatrix \<Rightarrow> field list" where
  "matrix_fields m =
     [\<lparr>fd_Name = ''EnvFiles'', fd_tag = ''envfiles'', fd_json = envfiles_text m, fd_struct = None\<rparr>,
      \<lparr>fd_Name = ''Pump'', fd_tag = ''pump'', fd_json = strs_text (gh_Pump m), fd_struct = None\<rparr>,
      \<lparr>fd_Name = ''Sink'', fd_tag = ''sink'', fd_json = strs_text (gh_Sink m), fd_struct = None\<rparr>,
      \<lparr>fd_Name = ''Distros'', fd_tag = ''distros'', fd_json = obj_text (distros_fields m), fd_struct = Some (distros_fields m)\<rparr>,
      \<lparr>fd_Name = ''Level'', fd_tag = [],
        fd_json = (if gh_Level m = [] then ''null''
          else obj_text (sort_members (List.map (\<lambda>(k, l). (k, matrix_text l)) (gh_Level m)))), fd_struct = None\<rparr>]"

definition untagged :: "field \<Rightarrow> bool" where
  "untagged f \<longleftrightarrow> fd_tag f = [] \<or> fd_tag f = ''-''"

section \<open>Writing files\<close>

text \<open>The error of writing a path (its directory included), and the files written, by path.\<close>

type_synonym write_fails = "string \<Rightarrow> string option"
type_synonym step = "(string, string) gomap \<Rightarrow> string option \<times> (string, string) gomap"

definition write_static :: "write_fails \<Rightarrow> string \<Rightarrow> string \<Rightarrow> step" where
  "write_static fail path data files = (case fail path of Some e \<Rightarrow> (Some e, files) | None \<Rightarrow> (None, gm_put path data files))"

definition nothing :: step where "nothing files = (None, files)"

definition and_then :: "step \<Rightarrow> step \<Rightarrow> step" where
  "and_then a b files = (case a files of (Some e, files') \<Rightarrow> (Some e, files') | (None, files') \<Rightarrow> b files')"

fun for_each :: "('a \<Rightarrow> step) \<Rightarrow> 'a list \<Rightarrow> step" where
  "for_each f [] = nothing"
| "for_each f (x # xs) = and_then (f x) (for_each f xs)"

text \<open>\<open>func writeJSON(path string, obj any) error\<close>; the values have a JSON form.\<close>

definition writeJSON :: "write_fails \<Rightarrow> string \<Rightarrow> string \<Rightarrow> step" where
  "writeJSON fail path json = write_static fail path json"

text \<open>\<open>func writeGHO(path string, obj any) error\<close>\<close>

definition writeGHO :: "write_fails \<Rightarrow> string \<Rightarrow> ghMatrix \<Rightarrow> step" where
  "writeGHO fail path m = write_static fail path
     (concat (List.map (\<lambda>f. if untagged f then [] else heredoc (fd_tag f) (fd_json f)) (matrix_fields m)))"

text \<open>\<open>func writeFieldGHO(path string, fieldName string, obj any) error\<close>\<close>

definition writeFieldGHO :: "write_fails \<Rightarrow> string \<Rightarrow> string \<Rightarrow> field \<Rightarrow> step" where
  "writeFieldGHO fail path fieldName f = write_static fail path
     (case fd_struct f of
        Some fs \<Rightarrow> concat (List.map (\<lambda>(fn, fj). if fn = [] \<or> fn = ''-'' then [] else heredoc fn fj) fs)
      | None \<Rightarrow> heredoc fieldName (fd_json f))"

section \<open>GenerateStatic\<close>

definition tsv_name :: "string \<Rightarrow> string" where
  "tsv_name filename = trim_suffix (trim_suffix (trim_suffix filename ''.yaml'') ''.yml'') ''s''"

text \<open>The files of a field.\<close>

definition write_field :: "write_fails \<Rightarrow> string \<Rightarrow> string \<Rightarrow> variationPath \<Rightarrow> field \<Rightarrow> step" where
  "write_field fail outDir tsv p f =
     (if untagged f then nothing
      else
        let base = [outDir, ''v2'', tsv, vp_Repo p, vp_Branch p, vp_Trigger p, vp_Testsuite p]
        in and_then (writeJSON fail (filepath_join (base @ [fd_tag f @ ''.json''])) (fd_json f))
          (and_then (writeJSON fail (filepath_join (base @ [fd_Name f @ ''.json''])) (fd_json f))
          (and_then (writeFieldGHO fail (filepath_join (base @ [fd_tag f @ ''.gho''])) (fd_tag f) f)
          (and_then (writeFieldGHO fail (filepath_join (base @ [fd_Name f @ ''.gho''])) (fd_tag f) f)
          (if tsv = ''prod-variation'' then
             writeJSON fail (filepath_join [outDir, ''api'', vp_Repo p, vp_Branch p, vp_Trigger p, vp_Testsuite p, fd_Name f]) (fd_json f)
           else nothing)))))"

text \<open>The files of a path.\<close>

definition write_path :: "write_fails \<Rightarrow> string \<Rightarrow> string \<Rightarrow> variations \<Rightarrow> variationPath \<Rightarrow> step" where
  "write_path fail outDir tsv v p =
     (let m = Lookup v (vp_Repo p) (vp_Branch p) (vp_Trigger p) (vp_Testsuite p)
      in and_then
        (writeGHO fail (filepath_join [outDir, ''v2'', tsv, vp_Repo p, vp_Branch p, vp_Trigger p, vp_Testsuite p @ ''.gho'']) m)
        (for_each (write_field fail outDir tsv p) (matrix_fields m)))"

definition write_variations :: "write_fails \<Rightarrow> string \<Rightarrow> string \<times> variations \<Rightarrow> step" where
  "write_variations fail outDir = (\<lambda>(filename, v).
     let tsv = tsv_name filename in
     and_then (writeJSON fail (filepath_join [outDir, ''v2'', ''dump'', tsv]) (variations_text v))
       (for_each (write_path fail outDir tsv v) (v_Paths v)))"

text \<open>\<open>generateIndex\<close>: the page rendered from the template, or the error of that.\<close>

definition generateIndex :: "write_fails \<Rightarrow> (AllTestsuiteVariations \<Rightarrow> string + string) \<Rightarrow> AllTestsuiteVariations \<Rightarrow> string \<Rightarrow> step" where
  "generateIndex fail render av outDir =
     (case render av of Inl e \<Rightarrow> (\<lambda>files. (Some e, files)) | Inr page \<Rightarrow> write_static fail (filepath_join [outDir, ''index.html'']) page)"

definition copyStaticAssets :: "write_fails \<Rightarrow> (string \<times> string) list \<Rightarrow> string \<Rightarrow> step" where
  "copyStaticAssets fail assets outDir =
     for_each (\<lambda>(path, data). write_static fail (filepath_join [filepath_join [outDir, ''static''], path]) data) assets"

text \<open>\<open>func GenerateStatic(configDir, outDir string) error\<close>\<close>

definition GenerateStatic ::
  "write_fails \<Rightarrow> (AllTestsuiteVariations \<Rightarrow> string + string) \<Rightarrow> (string \<times> string) list \<Rightarrow>
   (string + AllTestsuiteVariations) go \<Rightarrow> string \<Rightarrow> string \<Rightarrow> (string, string) gomap \<Rightarrow>
   (string option \<times> (string, string) gomap) go" where
  "GenerateStatic fail render assets loaded configDir outDir files = go_bind loaded (\<lambda>r.
     case r of
       Inl e \<Rightarrow> Done (Some (''loading variations from '' @ configDir @ '': '' @ e), files)
     | Inr av \<Rightarrow> Done (and_then (for_each (write_variations fail outDir) av)
         (and_then (generateIndex fail render av outDir) (copyStaticAssets fail assets outDir)) files))"

section \<open>The files that are written\<close>

text \<open>The specification: a flat list of files, by the components of their path below the output directory.\<close>

definition exec :: "write_fails \<Rightarrow> (string \<times> string) list \<Rightarrow> step" where
  "exec fail = for_each (\<lambda>(path, data). write_static fail path data)"

definition at :: "string \<Rightarrow> string list \<times> string \<Rightarrow> string \<times> string" where
  "at outDir = (\<lambda>(cs, data). (filepath_join (outDir # cs), data))"

definition field_gho :: "field \<Rightarrow> string" where
  "field_gho f = (case fd_struct f of Some fs \<Rightarrow> concat (List.map (\<lambda>(fn, fj). heredoc fn fj) fs) | None \<Rightarrow> heredoc (fd_tag f) (fd_json f))"

definition field_leaves :: "field \<Rightarrow> (string \<times> string) list" where
  "field_leaves f = [(fd_tag f @ ''.json'', fd_json f), (fd_Name f @ ''.json'', fd_json f),
     (fd_tag f @ ''.gho'', field_gho f), (fd_Name f @ ''.gho'', field_gho f)]"

definition path_comps :: "variationPath \<Rightarrow> string list" where
  "path_comps p = [vp_Repo p, vp_Branch p, vp_Trigger p, vp_Testsuite p]"

definition tagged_fields :: "ghMatrix \<Rightarrow> field list" where
  "tagged_fields m = List.filter (\<lambda>f. \<not> untagged f) (matrix_fields m)"

definition matrix_gho :: "ghMatrix \<Rightarrow> string" where
  "matrix_gho m = concat (List.map (\<lambda>f. heredoc (fd_tag f) (fd_json f)) (tagged_fields m))"

definition field_files :: "string \<Rightarrow> variationPath \<Rightarrow> field \<Rightarrow> (string list \<times> string) list" where
  "field_files tsv p f =
     List.map (\<lambda>(leaf, d). (''v2'' # tsv # path_comps p @ [leaf], d)) (field_leaves f)
     @ (if tsv = ''prod-variation'' then [(''api'' # path_comps p @ [fd_Name f], fd_json f)] else [])"

definition found :: "variations \<Rightarrow> variationPath \<Rightarrow> ghMatrix" where
  "found v p = Lookup v (vp_Repo p) (vp_Branch p) (vp_Trigger p) (vp_Testsuite p)"

definition path_files :: "string \<Rightarrow> variations \<Rightarrow> variationPath \<Rightarrow> (string list \<times> string) list" where
  "path_files tsv v p =
     ([''v2'', tsv, vp_Repo p, vp_Branch p, vp_Trigger p, vp_Testsuite p @ ''.gho''], matrix_gho (found v p))
     # concat (List.map (field_files tsv p) (tagged_fields (found v p)))"

definition variation_files :: "string \<times> variations \<Rightarrow> (string list \<times> string) list" where
  "variation_files = (\<lambda>(f, v). ([''v2'', ''dump'', tsv_name f], variations_text v)
     # concat (List.map (path_files (tsv_name f) v) (v_Paths v)))"

definition static_files :: "AllTestsuiteVariations \<Rightarrow> (string list \<times> string) list" where
  "static_files av = concat (List.map variation_files av)"

named_theorems exec_rules "steps as lists of files"

lemma exec_nil [exec_rules]: "exec fail [] = nothing"
  by (simp add: exec_def)

lemma and_then_nothing [exec_rules]: "and_then a nothing = a"
  by (rule ext) (auto simp: and_then_def nothing_def split: prod.splits option.splits)

lemma exec_file [exec_rules]: "write_static fail path data = exec fail [(path, data)]"
  by (rule ext) (auto simp: exec_def and_then_def nothing_def split: prod.splits option.splits)

lemma and_then_assoc: "and_then (and_then a b) c = and_then a (and_then b c)"
  by (rule ext) (auto simp: and_then_def split: prod.splits option.splits)

lemma exec_append [exec_rules]: "and_then (exec fail xs) (exec fail ys) = exec fail (xs @ ys)"
proof (induction xs)
  case Nil
  then show ?case by (rule ext) (simp add: exec_def and_then_def nothing_def)
next
  case (Cons x xs)
  then show ?case by (simp add: exec_def and_then_assoc)
qed

lemma exec_each: "(\<And>x. x \<in> set xs \<Longrightarrow> g x = exec fail (h x)) \<Longrightarrow> for_each g xs = exec fail (concat (List.map h xs))"
  by (induction xs) (simp_all add: exec_rules)

lemma exec_skip:
  assumes "\<And>x. P x \<Longrightarrow> g x = nothing"
  shows "for_each g xs = for_each g (List.filter (\<lambda>x. \<not> P x) xs)"
proof (induction xs)
  case (Cons x xs)
  have "and_then nothing a = a" for a by (rule ext) (simp add: and_then_def nothing_def)
  then show ?case using Cons assms by simp
qed simp

lemma write_field_exec:
  "\<not> untagged f \<Longrightarrow> (\<forall>fs. fd_struct f = Some fs \<longrightarrow> (\<forall>(fn, fj) \<in> set fs. fn \<noteq> [] \<and> fn \<noteq> ''-'')) \<Longrightarrow>
   write_field fail outDir tsv p f = exec fail (List.map (at outDir) (field_files tsv p f))"
proof -
  assume "\<not> untagged f" and fs: "\<forall>fs. fd_struct f = Some fs \<longrightarrow> (\<forall>(fn, fj) \<in> set fs. fn \<noteq> [] \<and> fn \<noteq> ''-'')"
  have "writeFieldGHO fail path (fd_tag f) f = write_static fail path (field_gho f)" for path
  proof (cases "fd_struct f")
    case (Some xs)
    with fs have "List.map (\<lambda>(fn, fj). if fn = [] \<or> fn = ''-'' then [] else heredoc fn fj) xs
        = List.map (\<lambda>(fn, fj). heredoc fn fj) xs" by auto
    with Some show ?thesis by (simp add: writeFieldGHO_def field_gho_def del: map_eq_conv)
  qed (simp add: writeFieldGHO_def field_gho_def)
  with \<open>\<not> untagged f\<close> show ?thesis
    by (cases "tsv = ''prod-variation''")
      (simp_all add: write_field_def Let_def writeJSON_def exec_rules field_files_def field_leaves_def path_comps_def at_def)
qed

lemma tagged_structs:
  "f \<in> set (tagged_fields m) \<Longrightarrow> \<not> untagged f \<and> (\<forall>fs. fd_struct f = Some fs \<longrightarrow> (\<forall>(fn, fj) \<in> set fs. fn \<noteq> [] \<and> fn \<noteq> ''-''))"
  by (auto simp: tagged_fields_def matrix_fields_def distros_fields_def untagged_def)

lemma writeGHO_exec: "writeGHO fail path m = exec fail [(path, matrix_gho m)]"
proof -
  have "concat (List.map (\<lambda>f. if untagged f then [] else heredoc (fd_tag f) (fd_json f)) fs)
      = concat (List.map (\<lambda>f. heredoc (fd_tag f) (fd_json f)) (List.filter (\<lambda>f. \<not> untagged f) fs))" for fs
    by (induction fs) auto
  then show ?thesis by (simp add: writeGHO_def matrix_gho_def tagged_fields_def exec_file)
qed

lemma write_path_exec: "write_path fail outDir tsv v p = exec fail (List.map (at outDir) (path_files tsv v p))"
proof -
  have "for_each (write_field fail outDir tsv p) (matrix_fields m)
      = for_each (write_field fail outDir tsv p) (tagged_fields m)" for m
    unfolding tagged_fields_def by (rule exec_skip) (simp add: write_field_def)
  also have "\<dots> m = exec fail (concat (List.map (\<lambda>f. List.map (at outDir) (field_files tsv p f)) (tagged_fields m)))" for m
    using tagged_structs by (intro exec_each write_field_exec) blast+
  finally have "for_each (write_field fail outDir tsv p) (matrix_fields m)
      = exec fail (List.map (at outDir) (concat (List.map (field_files tsv p) (tagged_fields m))))" for m
    by (simp add: map_concat comp_def)
  then show ?thesis
    by (simp add: write_path_def Let_def writeGHO_exec exec_append path_files_def found_def at_def)
qed

lemma write_variations_exec:
  "write_variations fail outDir fv = exec fail (List.map (at outDir) (variation_files fv))"
proof -
  obtain f v where fv: "fv = (f, v)" by force
  have "for_each (write_path fail outDir (tsv_name f) v) (v_Paths v)
      = exec fail (concat (List.map (\<lambda>p. List.map (at outDir) (path_files (tsv_name f) v p)) (v_Paths v)))"
    by (intro exec_each write_path_exec)
  then show ?thesis
    by (simp add: fv write_variations_def Let_def writeJSON_def exec_rules variation_files_def map_concat comp_def at_def)
qed

text \<open>
  The nested loops of \<open>GenerateStatic\<close> write exactly the files of the flat specification, in this order,
  and stop at the first that fails.
\<close>

theorem static_loop_refines:
  "for_each (write_variations fail outDir) av = exec fail (List.map (at outDir) (static_files av))"
  by (subst exec_each [OF write_variations_exec]) (simp add: static_files_def map_concat comp_def)

section \<open>What each file holds\<close>

definition leaves :: "ghMatrix \<Rightarrow> (string \<times> string) list" where
  "leaves m = concat (List.map field_leaves (tagged_fields m))"

definition legacy :: "ghMatrix \<Rightarrow> (string \<times> string) list" where
  "legacy m = List.map (\<lambda>f. (fd_Name f, fd_json f)) (tagged_fields m)"

lemma leaf_names:
  "List.map fst (leaves m) = [''envfiles.json'', ''EnvFiles.json'', ''envfiles.gho'', ''EnvFiles.gho'',
     ''pump.json'', ''Pump.json'', ''pump.gho'', ''Pump.gho'', ''sink.json'', ''Sink.json'', ''sink.gho'', ''Sink.gho'',
     ''distros.json'', ''Distros.json'', ''distros.gho'', ''Distros.gho'']"
  "List.map fst (legacy m) = [''EnvFiles'', ''Pump'', ''Sink'', ''Distros'']"
  by (simp_all add: leaves_def legacy_def tagged_fields_def matrix_fields_def untagged_def field_leaves_def)

lemma leaves_functional:
  "(l, d) \<in> set (leaves m) \<Longrightarrow> (l, d') \<in> set (leaves m) \<Longrightarrow> d = d'"
  "(l, d) \<in> set (legacy m) \<Longrightarrow> (l, d') \<in> set (legacy m) \<Longrightarrow> d = d'"
proof -
  have "distinct (List.map fst (leaves m))" unfolding leaf_names by code_simp
  then show "(l, d) \<in> set (leaves m) \<Longrightarrow> (l, d') \<in> set (leaves m) \<Longrightarrow> d = d'" by (metis map_of_eq_Some_iff option.inject)
  have "distinct (List.map fst (legacy m))" unfolding leaf_names by code_simp
  then show "(l, d) \<in> set (legacy m) \<Longrightarrow> (l, d') \<in> set (legacy m) \<Longrightarrow> d = d'" by (metis map_of_eq_Some_iff option.inject)
qed

text \<open>The four kinds of files: a dump, the outputs of a path, the files of its fields, and the legacy ones.\<close>

inductive static_file :: "AllTestsuiteVariations \<Rightarrow> string list \<Rightarrow> string \<Rightarrow> bool" for av where
  dump: "(f, v) \<in> set av \<Longrightarrow> static_file av [''v2'', ''dump'', tsv_name f] (variations_text v)"
| gho: "(f, v) \<in> set av \<Longrightarrow> p \<in> set (v_Paths v) \<Longrightarrow>
    static_file av [''v2'', tsv_name f, vp_Repo p, vp_Branch p, vp_Trigger p, vp_Testsuite p @ ''.gho''] (matrix_gho (found v p))"
| leaf: "(f, v) \<in> set av \<Longrightarrow> p \<in> set (v_Paths v) \<Longrightarrow> (l, d) \<in> set (leaves (found v p)) \<Longrightarrow>
    static_file av (''v2'' # tsv_name f # path_comps p @ [l]) d"
| legacy: "(f, v) \<in> set av \<Longrightarrow> p \<in> set (v_Paths v) \<Longrightarrow> tsv_name f = ''prod-variation'' \<Longrightarrow>
    (l, d) \<in> set (legacy (found v p)) \<Longrightarrow> static_file av (''api'' # path_comps p @ [l]) d"

lemma field_file:
  assumes "(cs, d) \<in> set (field_files tsv p f)"
  shows "(\<exists>l. cs = ''v2'' # tsv # path_comps p @ [l] \<and> (l, d) \<in> set (field_leaves f))
    \<or> (tsv = ''prod-variation'' \<and> cs = ''api'' # path_comps p @ [fd_Name f] \<and> d = fd_json f)"
  using assms unfolding field_files_def by (fastforce split: if_splits)

lemma static_file_mem:
  assumes "(cs, d) \<in> set (static_files av)"
  shows "static_file av cs d"
proof -
  obtain f v where fv: "(f, v) \<in> set av" "(cs, d) \<in> set (variation_files (f, v))"
    using assms by (auto simp: static_files_def)
  consider "(cs, d) = ([''v2'', ''dump'', tsv_name f], variations_text v)"
    | p where "p \<in> set (v_Paths v)" "(cs, d) \<in> set (path_files (tsv_name f) v p)"
    using fv(2) unfolding variation_files_def by auto
  then show ?thesis
  proof cases
    case 1
    then show ?thesis using dump [OF fv(1)] by blast
  next
    case (2 p)
    consider "(cs, d) = ([''v2'', tsv_name f, vp_Repo p, vp_Branch p, vp_Trigger p, vp_Testsuite p @ ''.gho''], matrix_gho (found v p))"
      | x where "x \<in> set (tagged_fields (found v p))" "(cs, d) \<in> set (field_files (tsv_name f) p x)"
      using 2(2) unfolding path_files_def by auto
    then show ?thesis
    proof cases
      case 1
      then show ?thesis using gho [OF fv(1) 2(1)] by blast
    next
      case x: 2
      have "l \<in> set (field_leaves x) \<Longrightarrow> l \<in> set (leaves (found v p))" for l
        using x(1) unfolding leaves_def by auto
      moreover have "(fd_Name x, fd_json x) \<in> set (legacy (found v p))" using x(1) unfolding legacy_def by auto
      ultimately show ?thesis
        using field_file [OF x(2)] leaf [OF fv(1) 2(1)] static_file.legacy [OF fv(1) 2(1)] by blast
    qed
  qed
qed

text \<open>Names that are plain file names, and no two files of variations with the same short name.\<close>

definition static_ok :: "AllTestsuiteVariations \<Rightarrow> bool" where
  "static_ok av \<longleftrightarrow> gm_ok av \<and> inj_on tsv_name (set (gm_keys av)) \<and>
     (\<forall>(f, v) \<in> set av. plain_comp (tsv_name f) \<and> (\<forall>p \<in> set (v_Paths v). list_all plain_comp (path_comps p)))"

lemma same_variation:
  assumes "static_ok av" "(f, v) \<in> set av" "(f', v') \<in> set av" "tsv_name f = tsv_name f'"
  shows "v = v'"
proof -
  have "f \<in> set (gm_keys av)" "f' \<in> set (gm_keys av)" using assms(2,3) by force+
  with assms(1,4) have "f = f'" by (meson inj_onD static_ok_def)
  with assms(1-3) show ?thesis by (metis gm_ok_def map_of_eq_Some_iff option.inject static_ok_def)
qed

lemma found_comps: "path_comps p = path_comps q \<Longrightarrow> found v p = found v q"
  by (simp add: found_def path_comps_def)

inductive_cases static_fileE: "static_file av cs d"

lemma static_functional:
  assumes "static_ok av" "static_file av cs d" "static_file av cs d'"
  shows "d = d'"
  using assms(2)
proof cases
  case (dump f v)
  with assms(3) show ?thesis by (auto elim!: static_fileE simp: path_comps_def dest: same_variation [OF assms(1)])
next
  case (gho f v p)
  from assms(3) show ?thesis unfolding gho(1)
  proof cases
    case (gho f' v' p')
    then have "v = v'" using same_variation [OF assms(1)] \<open>(f, v) \<in> set av\<close> by blast
    moreover have "path_comps p = path_comps p'" using gho by (simp add: path_comps_def)
    then have "found v p = found v p'" by (rule found_comps)
    ultimately show ?thesis using \<open>d' = matrix_gho (found v' p')\<close> \<open>d = matrix_gho (found v p)\<close> by simp
  qed (simp_all add: path_comps_def)
next
  case (leaf f v p l)
  from assms(3) show ?thesis unfolding leaf(1)
  proof cases
    case (leaf f' v' p' l')
    then have "v = v'" using same_variation [OF assms(1)] \<open>(f, v) \<in> set av\<close> by blast
    moreover have "path_comps p = path_comps p'" "l = l'" using leaf by (simp_all add: path_comps_def)
    moreover have "found v p = found v p'" by (rule found_comps) fact
    ultimately show ?thesis
      using leaf \<open>(l, d) \<in> set (leaves (found v p))\<close> leaves_functional(1) [of l d "found v p" d'] by simp
  qed (simp_all add: path_comps_def)
next
  case (legacy f v p l)
  from assms(3) show ?thesis unfolding legacy(1)
  proof cases
    case (legacy f' v' p' l')
    then have "v = v'" using same_variation [OF assms(1)] \<open>(f, v) \<in> set av\<close> \<open>tsv_name f = ''prod-variation''\<close> by metis
    moreover have "path_comps p = path_comps p'" "l = l'" using legacy by (simp_all add: path_comps_def)
    moreover have "found v p = found v p'" by (rule found_comps) fact
    ultimately show ?thesis
      using legacy \<open>(l, d) \<in> set (Tui.legacy (found v p))\<close> leaves_functional(2) [of l d "found v p" d'] by simp
  qed
qed

lemma static_plain:
  assumes "static_ok av" "static_file av cs d"
  shows "cs \<noteq> [] \<and> list_all plain_comp cs"
proof -
  have lit: "plain_comp ''v2''" "plain_comp ''dump''" "plain_comp ''api''" by code_simp+
  have names: "list_all plain_comp (List.map fst (leaves m))" "list_all plain_comp (List.map fst (legacy m))" for m
    unfolding leaf_names by code_simp+
  have n: "(l, d) \<in> set (leaves m) \<or> (l, d) \<in> set (legacy m) \<Longrightarrow> plain_comp l" for l m
    using names [of m] by (fastforce simp: list_all_iff)
  have ext: "plain_comp ts \<Longrightarrow> plain_comp (ts @ ''.gho'')" for ts
    by (auto simp: plain_comp_def append_eq_Cons_conv)
  have av: "plain_comp (tsv_name f)" "p \<in> set (v_Paths v) \<Longrightarrow> list_all plain_comp (path_comps p)"
    if "(f, v) \<in> set av" for f v p
    using assms(1) that by (auto simp: static_ok_def)
  show ?thesis
    using assms(2)
  proof cases
    case (gho f v p)
    then show ?thesis using av(1) [OF gho(3)] av(2) [OF gho(3,4)] by (simp add: lit ext path_comps_def)
  next
    case (leaf f v p l)
    then show ?thesis using av(1) [OF leaf(2)] av(2) [OF leaf(2,3)] n [OF disjI1 [OF leaf(4)]] leaf(1) by (simp add: lit)
  next
    case (legacy f v p l)
    then show ?thesis using av(1) [OF legacy(2)] av(2) [OF legacy(2,3)] n [OF disjI2 [OF legacy(5)]] legacy(1) by (simp add: lit)
  qed (use av(1) lit in simp)
qed

lemma at_inj:
  assumes "filepath_join (out # cs) = filepath_join (out # ds)"
    "cs \<noteq> []" "list_all plain_comp cs" "ds \<noteq> []" "list_all plain_comp ds"
  shows "cs = ds"
proof -
  have "filepath_join (out # xs) = filepath_join [out, join_with ''/'' xs]"
    if "xs \<noteq> []" "list_all plain_comp xs" for xs
  proof -
    have f: "List.filter (\<lambda>p. p \<noteq> []) xs = xs" using that(2) by (auto simp: list_all_iff plain_comp_def intro: filter_True)
    have "join_with ''/'' xs \<noteq> []" by (rule join_plain_nonempty [OF that])
    then show ?thesis using that(1) f join_with_Cons [of xs "''/''" out]
      by (cases xs) (simp_all add: filepath_join_def)
  qed
  with assms filepath_join_inj show ?thesis by metis
qed

text \<open>Running through: every file is written, and a file written once or always alike holds its data.\<close>

lemma exec_ok:
  "\<forall>(p, d) \<in> set ws. fail p = None \<Longrightarrow> exec fail ws files = (None, fold (\<lambda>(p, d). gm_put p d) ws files)"
  by (induction ws arbitrary: files) (auto simp: exec_def and_then_def nothing_def write_static_def)

lemma exec_error:
  "exec fail ws files = (Some e, files') \<Longrightarrow> \<exists>before p d after. ws = before @ (p, d) # after \<and> fail p = Some e \<and>
     (\<forall>(q, _) \<in> set before. fail q = None) \<and> files' = fold (\<lambda>(p, d). gm_put p d) before files"
proof (induction ws arbitrary: files)
  case (Cons w ws)
  obtain p d where w: "w = (p, d)" by force
  show ?case
  proof (cases "fail p")
    case None
    with Cons.prems have "exec fail ws (gm_put p d files) = (Some e, files')"
      by (simp add: w exec_def and_then_def write_static_def)
    from Cons.IH [OF this] obtain before q c after where "ws = before @ (q, c) # after" "fail q = Some e"
      "\<forall>(q, _) \<in> set before. fail q = None" "files' = fold (\<lambda>(p, d). gm_put p d) before (gm_put p d files)" by blast
    with None show ?thesis by (intro exI [of _ "w # before"] exI [of _ q] exI [of _ c] exI [of _ after]) (simp add: w)
  next
    case (Some x)
    with Cons.prems show ?thesis
      by (intro exI [of _ "[]"] exI [of _ p] exI [of _ d] exI [of _ ws]) (simp add: w exec_def and_then_def write_static_def)
  qed
qed (simp add: exec_def nothing_def)

lemma fold_put_last:
  "gm_get (fold (\<lambda>(p, d). gm_put p d) ws files) p
    = (case List.filter (\<lambda>(q, d). q = p) (rev ws) of [] \<Rightarrow> gm_get files p | (q, d) # _ \<Rightarrow> Some d)"
  by (induction ws arbitrary: files rule: rev_induct) (auto simp: update_conv split: prod.splits list.splits)

lemma fold_put_same:
  assumes "(p, d) \<in> set ws" "\<And>d'. (p, d') \<in> set ws \<Longrightarrow> d' = d"
  shows "gm_get (fold (\<lambda>(p, d). gm_put p d) ws files) p = Some d"
proof (cases "List.filter (\<lambda>(q, d). q = p) (rev ws)")
  case Nil
  with assms(1) show ?thesis by (auto simp: filter_empty_conv)
next
  case (Cons a as)
  then have "a \<in> set (List.filter (\<lambda>(q, d). q = p) (rev ws))" by simp
  with assms(2) have "a = (p, d)" by auto
  with Cons show ?thesis by (simp add: fold_put_last)
qed

text \<open>The index page and the assets do not touch the files below \<open>v2\<close> and \<open>api\<close>.\<close>

definition assets_ok :: "(string \<times> string) list \<Rightarrow> bool" where
  "assets_ok assets \<longleftrightarrow> list_all (\<lambda>(path, _). plain_comp path) assets"

definition later_files :: "string \<Rightarrow> (string \<times> string) list \<Rightarrow> (string list \<times> string) list" where
  "later_files page assets = ([''index.html''], page) # List.map (\<lambda>(path, d). ([''static'', path], d)) assets"

lemma later_exec:
  assumes "render av = Inr page" "assets_ok assets"
  shows "and_then (generateIndex fail render av outDir) (copyStaticAssets fail assets outDir)
    = exec fail (List.map (at outDir) (later_files page assets))"
proof -
  have "plain_comp ''static''" by code_simp
  then have "filepath_join [filepath_join [outDir, ''static''], path] = filepath_join [outDir, ''static'', path]"
    if "(path, d) \<in> set assets" for path d
    using assms(2) that by (intro filepath_join_nest) (auto simp: assets_ok_def list_all_iff)
  then have "copyStaticAssets fail assets outDir
      = exec fail (concat (List.map (\<lambda>(path, d). [(filepath_join [outDir, ''static'', path], d)]) assets))"
    unfolding copyStaticAssets_def by (intro exec_each) (auto simp: exec_file)
  also have "concat (List.map (\<lambda>(path, d). [(filepath_join [outDir, ''static'', path], d)]) assets)
      = List.map (at outDir) (List.map (\<lambda>(path, d). ([''static'', path], d)) assets)"
    by (induction assets) (auto simp: at_def)
  finally have c: "copyStaticAssets fail assets outDir
      = exec fail (List.map (at outDir) (List.map (\<lambda>(path, d). ([''static'', path], d)) assets))" .
  show ?thesis
    unfolding generateIndex_def assms(1) sum.case exec_file c exec_append by (simp add: later_files_def at_def)
qed

lemma later_other:
  assumes "static_ok av" "assets_ok assets" "(cs, d) \<in> set (static_files av)" "(ds, e) \<in> set (later_files page assets)"
  shows "filepath_join (outDir # ds) \<noteq> filepath_join (outDir # cs)"
proof
  assume eq: "filepath_join (outDir # ds) = filepath_join (outDir # cs)"
  have "plain_comp ''static''" "plain_comp ''index.html''" by code_simp+
  then have ds: "ds \<noteq> []" "list_all plain_comp ds" "hd ds = ''static'' \<or> hd ds = ''index.html''"
    using assms(2,4) by (auto simp: later_files_def assets_ok_def list_all_iff)
  note s = static_file_mem [OF assms(3)]
  have "ds = cs" using at_inj [OF eq ds(1,2)] static_plain [OF assms(1) s] by blast
  moreover have "hd cs = ''v2'' \<or> hd cs = ''api''" using s by cases simp_all
  ultimately show False using ds(3) by auto
qed

lemma all_written:
  assumes "static_ok av" "assets_ok assets" "(cs, d) \<in> set (static_files av)"
  shows "gm_get (fold (\<lambda>(p, d). gm_put p d) (List.map (at outDir) (static_files av @ later_files page assets)) files)
    (filepath_join (outDir # cs)) = Some d"
proof (rule fold_put_same)
  show "(filepath_join (outDir # cs), d) \<in> set (List.map (at outDir) (static_files av @ later_files page assets))"
    using assms(3) by (force simp: at_def)
  fix d'
  assume "(filepath_join (outDir # cs), d') \<in> set (List.map (at outDir) (static_files av @ later_files page assets))"
  then obtain ds where ds: "(ds, d') \<in> set (static_files av) \<or> (ds, d') \<in> set (later_files page assets)"
    and eq: "filepath_join (outDir # cs) = filepath_join (outDir # ds)"
    by (auto simp: at_def)
  with later_other [OF assms] have ds: "(ds, d') \<in> set (static_files av)" by metis
  note s = static_file_mem [OF assms(3)] static_file_mem [OF ds]
  have "cs = ds" using at_inj [OF eq] static_plain [OF assms(1)] s by blast
  with s show "d' = d" using static_functional [OF assms(1)] by blast
qed

lemma generate_exec:
  assumes "assets_ok assets" "render av = Inr page"
  shows "GenerateStatic fail render assets (Done (Inr av)) dir outDir files
    = Done (exec fail (List.map (at outDir) (static_files av @ later_files page assets)) files)"
proof -
  have l: "for_each (write_variations fail outDir) av = exec fail (List.map (at outDir) (static_files av))"
    by (subst exec_each [OF write_variations_exec]) (simp add: static_files_def map_concat comp_def)
  show ?thesis
    by (simp add: GenerateStatic_def l later_exec [where render = render and av = av, OF assms(2,1)] exec_append)
qed

text \<open>The texts are single lines and never the end marker.\<close>

definition line_text :: "string \<Rightarrow> bool" where
  "line_text j \<longleftrightarrow> CHR 0x0A \<notin> set j \<and> j \<noteq> [] \<and> hd j \<noteq> CHR ''E''"

lemma line_obj: "(\<And>k t. (k, t) \<in> set ms \<Longrightarrow> CHR 0x0A \<notin> set t) \<Longrightarrow> line_text (obj_text ms)"
  using json_string_no_newline by (fastforce simp: line_text_def obj_text_def dest!: set_join_with)

lemma line_arr: "(\<And>t. t \<in> set ts \<Longrightarrow> CHR 0x0A \<notin> set t) \<Longrightarrow> line_text (arr_text ts)"
  by (fastforce simp: line_text_def arr_text_def dest!: set_join_with)

lemma line_strs: "line_text (strs_text xs)"
  unfolding strs_text_def using json_string_no_newline by (intro line_arr) auto

lemma line_env: "line_text (envFile_text e)"
  unfolding envFile_text_def using json_string_no_newline by (intro line_obj) (auto simp: omitempty_def split: if_splits)

lemma line_fields: "line_text (envfiles_text m)" "line_text (obj_text (distros_fields m))"
  using line_env line_strs
  by (auto simp: envfiles_text_def distros_fields_def line_text_def [of "envFile_text _"] line_text_def [of "strs_text _"]
      intro!: line_arr line_obj)

definition answers :: "ghMatrix \<Rightarrow> (string \<times> string) list" where
  "answers m = [(''envfiles'', envfiles_text m), (''pump'', strs_text (gh_Pump m)), (''sink'', strs_text (gh_Sink m)),
     (''distros'', obj_text (distros_fields m))]"

lemma read_matrix: "gh_outputs (matrix_gho m) = Some (answers m)"
proof -
  have "matrix_gho m = concat (List.map (\<lambda>(v, j). heredoc v j) (answers m))"
    by (simp add: matrix_gho_def answers_def tagged_fields_def matrix_fields_def untagged_def)
  moreover have "\<forall>(v, j) \<in> set (answers m). CHR 0x0A \<notin> set v \<and> CHR 0x0A \<notin> set j \<and> j \<noteq> ''EOF''"
    using line_fields [of m] line_strs [of "gh_Pump m"] line_strs [of "gh_Sink m"] by (auto simp: answers_def line_text_def)
  ultimately show ?thesis by (simp only: gh_read_heredocs)
qed


text \<open>
  The first file that cannot be written ends the run with its error: the files before it, in the order of
  the loops, are there, and nothing after it is attempted.
\<close>

theorem static_stops_at_error:
  assumes "assets_ok assets" "render av = Inr page"
    "GenerateStatic fail render assets (Done (Inr av)) dir outDir files = Done (Some e, files')"
  shows "\<exists>before q data after. List.map (at outDir) (static_files av @ later_files page assets) = before @ (q, data) # after
    \<and> fail q = Some e \<and> (\<forall>(p, _) \<in> set before. fail p = None) \<and> files' = fold (\<lambda>(p, d). gm_put p d) before files"
  using exec_error [of fail "List.map (at outDir) (static_files av @ later_files page assets)" files e files'] assms(3)
  unfolding generate_exec [where render = render and av = av, OF assms(1,2)] by simp

section \<open>Examples\<close>

definition sample_path :: variationPath where
  "sample_path = \<lparr>vp_Testsuite = ''api'', vp_Trigger = ''pr'', vp_Branch = ''master'', vp_Repo = ''tyk''\<rparr>"

definition sample_variation :: variations where
  "sample_variation = \<lparr>v_Leaves = [(''tykmasterprapi'', GhMatrix [Variations.sample_env ''pg''] [''p1''] [] [''bookworm''] [] [])],
     v_Paths = [sample_path]\<rparr>"

definition sample_av :: AllTestsuiteVariations where
  "sample_av = [(''prod-variations.yml'', sample_variation)]"

lemma sample_av_ok: "static_ok sample_av"
proof -
  have "plain_comp (tsv_name ''prod-variations.yml'')" "list_all plain_comp (path_comps sample_path)" by code_simp+
  then show ?thesis by (simp add: static_ok_def sample_av_def gm_ok_def sample_variation_def)
qed


theorem static_stops_at_error_witness:
  "\<exists>before q data after. List.map (at ''out'') (static_files sample_av @ later_files [] []) = before @ (q, data) # after
    \<and> q = ''out/v2/dump/prod-variation'' \<and> before = []"
proof -
  define fail where "fail = (\<lambda>q. if q = ''out/v2/dump/prod-variation'' then Some ''disk full'' else None)"
  have p: "filepath_join [''out'', ''v2'', ''dump'', ''prod-variation''] = ''out/v2/dump/prod-variation''"
    "tsv_name ''prod-variations.yml'' = ''prod-variation''" by code_simp+
  have run: "GenerateStatic fail (\<lambda>_. Inr []) [] (Done (Inr sample_av)) ''cfg'' ''out'' [] = Done (Some ''disk full'', [])"
    by (simp add: GenerateStatic_def sample_av_def write_variations_def Let_def p writeJSON_def write_static_def fail_def
        and_then_def)
  have ok: "assets_ok []" by (simp add: assets_ok_def)
  obtain before q data after where
    w: "List.map (at ''out'') (static_files sample_av @ later_files [] []) = before @ (q, data) # after"
      "fail q = Some ''disk full''" "\<forall>(p, _) \<in> set before. fail p = None"
    using static_stops_at_error [OF ok refl run] by auto
  have q: "q = ''out/v2/dump/prod-variation''" using w(2) by (simp add: fail_def split: if_splits)
  have first: "\<exists>d xs. List.map (at ''out'') (static_files sample_av @ later_files [] []) = (''out/v2/dump/prod-variation'', d) # xs"
    by (simp add: static_files_def sample_av_def variation_files_def at_def p)
  have "before = []"
  proof (cases before)
    case (Cons b bs)
    with w(1) first have "fst b = ''out/v2/dump/prod-variation''" by auto
    with w(3) Cons show ?thesis by (cases b) (simp add: fail_def)
  qed simp
  with w(1) q show ?thesis by blast
qed

end
