(* ===== verification/Manifests.thy ===== *)
theory Manifests
  imports GoStrings
begin

text \<open>
  \<open>policy/manifests.go\<close> and the command \<open>policy match\<close>: names of container images, the credentials of a
  registry, and the search for a tag in several repositories.  The registry is an argument, the base64
  code of the standard library is modelled.
\<close>

section \<open>Base64\<close>

definition b64_chars :: string where
  "b64_chars = ''ABCDEFGHIJKLMNOPQRSTUVWXYZabcdefghijklmnopqrstuvwxyz0123456789+/''"

definition b64_digit :: "nat \<Rightarrow> char" where "b64_digit n = b64_chars ! (n mod 64)"

definition b64_val :: "char \<Rightarrow> nat option" where
  "b64_val c = (let n = length (takeWhile (\<lambda>d. d \<noteq> c) b64_chars) in if n < 64 then Some n else None)"

text \<open>The six bits of each digit, from the bytes they come from.\<close>

definition b64_first :: "nat \<Rightarrow> char" where "b64_first a = b64_digit (a div 4)"
definition b64_second :: "nat \<Rightarrow> nat \<Rightarrow> char" where "b64_second a b = b64_digit (a mod 4 * 16 + b div 16)"
definition b64_third :: "nat \<Rightarrow> nat \<Rightarrow> char" where "b64_third b c = b64_digit (b mod 16 * 4 + c div 64)"

fun base64_encode :: "string \<Rightarrow> string" where
  "base64_encode [] = []"
| "base64_encode [a] = [b64_first (of_char a), b64_second (of_char a) 0, CHR ''='', CHR ''='']"
| "base64_encode [a, b] =
     [b64_first (of_char a), b64_second (of_char a) (of_char b), b64_third (of_char b) 0, CHR ''='']"
| "base64_encode (a # b # c # s) =
     b64_first (of_char a) # b64_second (of_char a) (of_char b) # b64_third (of_char b) (of_char c)
       # b64_digit (of_char c) # base64_encode s"

text \<open>Bits after the last byte are ignored, as \<open>StdEncoding\<close> does.\<close>

fun b64_groups :: "string \<Rightarrow> string option" where
  "b64_groups [] = Some []"
| "b64_groups (a # b # c # d # s) =
     (case (b64_val a, b64_val b) of
        (Some w, Some x) \<Rightarrow>
          if c = CHR ''='' \<and> d = CHR ''='' \<and> s = [] then Some [char_of (w * 4 + x div 16)]
          else (case b64_val c of
            None \<Rightarrow> None
          | Some y \<Rightarrow>
              if d = CHR ''='' \<and> s = [] then Some [char_of (w * 4 + x div 16), char_of ((x * 16 + y div 4) mod 256)]
              else (case b64_val d of
                None \<Rightarrow> None
              | Some z \<Rightarrow> map_option
                  (\<lambda>r. char_of (w * 4 + x div 16) # char_of ((x * 16 + y div 4) mod 256) # char_of ((y * 64 + z) mod 256) # r)
                  (b64_groups s)))
      | _ \<Rightarrow> None)"
| "b64_groups s = None"

definition base64_decode :: "string \<Rightarrow> string option" where
  "base64_decode s = b64_groups (List.filter (\<lambda>c. c \<noteq> CHR 0x0A \<and> c \<noteq> CHR 0x0D) s)"

section \<open>Image names\<close>

record ParsedImageName =
  pi_Registry :: string
  pi_Repo :: string
  pi_Tag :: string

text \<open>\<open>func ParseImageName(imageName string) *ParsedImageName\<close>\<close>

definition ParseImageName :: "string \<Rightarrow> ParsedImageName" where
  "ParseImageName imageName =
     (let parts = split_on (CHR ''/'') imageName;
          (registry, parts) = (if length parts = 1 then (''docker.io'', parts) else (hd parts, tl parts));
          repo = join_with ''/'' parts
      in case cut_last (CHR '':'') repo of
           Some (r, tag) \<Rightarrow> \<lparr>pi_Registry = registry, pi_Repo = r, pi_Tag = tag\<rparr>
         | None \<Rightarrow> \<lparr>pi_Registry = registry, pi_Repo = repo, pi_Tag = ''latest''\<rparr>)"

section \<open>Matches\<close>

text \<open>A nil map of repositories is \<open>None\<close>: reading it finds nothing, storing into it panics.\<close>

record Matches =
  mt_Repos :: "(string, string) gomap option"
  mt_Registry :: string

definition Match :: "Matches \<Rightarrow> string \<Rightarrow> string" where
  "Match m repo =
     (let varName = replace_char (CHR ''-'') (CHR ''_'') repo @ ''_image''
      in case (case mt_Repos m of None \<Rightarrow> None | Some rs \<Rightarrow> gm_get rs repo) of
           Some match \<Rightarrow> varName @ ''='' @ match
         | None \<Rightarrow> varName @ ''='' @ mt_Registry m @ ''/'' @ repo @ '':master'')"

definition Len :: "Matches \<Rightarrow> nat" where
  "Len m = (case mt_Repos m of None \<Rightarrow> 0 | Some rs \<Rightarrow> length rs)"

text \<open>The reply of the registry to a HEAD request is an error or a status and a body.\<close>

type_synonym registry_head = "string \<Rightarrow> string \<Rightarrow> string + nat \<times> string"

definition checkTagExists :: "registry_head \<Rightarrow> string \<Rightarrow> string \<Rightarrow> string \<Rightarrow> string \<Rightarrow> string + bool" where
  "checkTagExists head registry repo tag authHeader =
     res_bind (head (''https://'' @ registry @ ''/v2/'' @ repo @ ''/manifests/'' @ tag) authHeader)
       (\<lambda>(status, body).
          if status = 200 then Inr True
          else if status = 404 then Inr False
          else Inl (''unexpected status code: '' @ show_nat status @ '', body: '' @ body))"

type_synonym DockerConfig = "(string, string) gomap"

text \<open>The file is read after \<open>os.ExpandEnv\<close>, and unmarshalled from JSON.\<close>

definition NewDockerAuths ::
  "(string \<Rightarrow> string) \<Rightarrow> (string \<Rightarrow> string + string) \<Rightarrow> (string \<Rightarrow> string + DockerConfig) \<Rightarrow> string \<Rightarrow> string + DockerConfig" where
  "NewDockerAuths expand_env read_file unmarshal fname = res_bind (read_file (expand_env fname)) unmarshal"

definition getAuthHeader :: "DockerConfig \<Rightarrow> string \<Rightarrow> string + string" where
  "getAuthHeader d registry =
     (case gm_get d registry of
        None \<Rightarrow> Inl (''no auth config found for registry: '' @ registry)
      | Some auth \<Rightarrow>
          (case base64_decode auth of
             None \<Rightarrow> Inl ''illegal base64 data''
           | Some authDecoded \<Rightarrow> Inr (''Basic '' @ base64_encode authDecoded)))"

definition match_step :: "registry_head \<Rightarrow> string \<Rightarrow> string \<Rightarrow> string \<Rightarrow> string \<Rightarrow> (string, string) gomap \<Rightarrow> (string, string) gomap" where
  "match_step head registry tag auth repo matches =
     (case checkTagExists head registry repo tag auth of
        Inl e \<Rightarrow> matches
      | Inr exists \<Rightarrow> if exists then gm_put repo (registry @ ''/'' @ repo @ '':'' @ tag) matches else matches)"

text \<open>\<open>func (d *DockerConfig) GetMatches\<close>, which returns a value with its error.\<close>

definition GetMatches ::
  "registry_head \<Rightarrow> DockerConfig \<Rightarrow> string \<Rightarrow> string \<Rightarrow> string list \<Rightarrow> Matches \<times> string option" where
  "GetMatches head d registry tag repos =
     (case getAuthHeader d registry of
        Inl e \<Rightarrow> (\<lparr>mt_Repos = None, mt_Registry = []\<rparr>, Some e)
      | Inr auth \<Rightarrow> (\<lparr>mt_Repos = Some (fold (match_step head registry tag auth) repos []), mt_Registry = registry\<rparr>, None))"

text \<open>\<open>gromit policy match\<close> (\<open>cmd/policy.go\<close>): the lines it prints, or the error of reading the file.\<close>

definition match_cmd ::
  "registry_head \<Rightarrow> string + DockerConfig \<Rightarrow> string \<Rightarrow> string \<Rightarrow> string \<Rightarrow> (string + string list) go" where
  "match_cmd head auths rs tagOverride tagMatch =
     (case auths of
        Inl e \<Rightarrow> Done (Inl e)
      | Inr config \<Rightarrow>
          (let repos = split_on (CHR '','') rs;
               p = ParseImageName tagMatch; q = ParseImageName tagOverride;
               matches = fst (GetMatches head config (pi_Registry p) (pi_Tag p) repos)
           in case mt_Repos matches of
                None \<Rightarrow> Panic ''assignment to entry in nil map''
              | Some m \<Rightarrow> Done (Inr (List.map (Match (matches\<lparr>mt_Repos := Some (gm_put (pi_Repo q) tagOverride m)\<rparr>)) repos))))"

section \<open>Laws\<close>

lemma b64_val_digit: "b64_val (b64_digit n) = Some (n mod 64)"
proof -
  have a: "list_all (\<lambda>n. b64_val (b64_chars ! n) = Some n) [0..<64]" by code_simp
  have "n mod 64 < 64" by simp
  then have "n mod 64 \<in> set [0..<64]" by (simp only: set_upt atLeastLessThan_iff le0 simp_thms)
  with a show ?thesis unfolding b64_digit_def list_all_iff by blast
qed

lemma b64_digit_plain: "b64_digit n \<notin> {CHR ''='', CHR 0x0A, CHR 0x0D}"
proof -
  have a: "list_all (\<lambda>n. b64_chars ! n \<notin> {CHR ''='', CHR 0x0A, CHR 0x0D}) [0..<64]" by code_simp
  have "n mod 64 < 64" by simp
  then have "n mod 64 \<in> set [0..<64]" by (simp only: set_upt atLeastLessThan_iff le0 simp_thms)
  with a show ?thesis unfolding b64_digit_def list_all_iff by blast
qed

lemma b64_bytes:
  fixes a b c :: nat
  assumes "a < 256" "b < 256" "c < 256"
  shows "a div 4 mod 64 * 4 + (a mod 4 * 16 + b div 16) mod 64 div 16 = a"
    and "((a mod 4 * 16 + b div 16) mod 64 * 16 + (b mod 16 * 4 + c div 64) mod 64 div 4) mod 256 = b"
    and "((b mod 16 * 4 + c div 64) mod 64 * 64 + c mod 64) mod 256 = c"
proof -
  have l: "c div 64 < 4" "b div 16 < 16" "a div 4 < 64" "a mod 4 < 4" "b mod 16 < 16" using assms by auto
  then have r: "(b mod 16 * 4 + c div 64) mod 64 = b mod 16 * 4 + c div 64"
    and q: "(a mod 4 * 16 + b div 16) mod 64 = a mod 4 * 16 + b div 16"
    and m: "a div 4 mod 64 = a div 4" by simp_all
  have d: "(a mod 4 * 16 + b div 16) div 16 = a mod 4" "(b mod 16 * 4 + c div 64) div 4 = b mod 16"
    using l by simp_all
  show "a div 4 mod 64 * 4 + (a mod 4 * 16 + b div 16) mod 64 div 16 = a"
    unfolding m q d by simp
  have "((a mod 4 * 16 + b div 16) * 16 + b mod 16) = a mod 4 * 256 + b"
    using div_mult_mod_eq [of b 16] by (simp add: algebra_simps)
  then show "((a mod 4 * 16 + b div 16) mod 64 * 16 + (b mod 16 * 4 + c div 64) mod 64 div 4) mod 256 = b"
    unfolding r q d using assms(2) by simp
  have "(b mod 16 * 4 + c div 64) * 64 + c mod 64 = b mod 16 * 256 + c"
    using div_mult_mod_eq [of c 64] by (simp add: algebra_simps)
  then show "((b mod 16 * 4 + c div 64) mod 64 * 64 + c mod 64) mod 256 = c"
    unfolding r using assms(3) by simp
qed

lemma of_char_less: "(of_char c :: nat) < 256"
  using nat_of_char_less_256 by simp

lemma b64_chars_back:
  fixes a b c :: char
  shows "char_of (of_char a div 4 mod 64 * 4 + (of_char a mod 4 * 16 + of_char b div 16) mod 64 div 16 :: nat) = a"
    and "char_of (((of_char a mod 4 * 16 + of_char b div 16) mod 64 * 16
           + (of_char b mod 16 * 4 + of_char c div 64) mod 64 div 4) mod 256 :: nat) = b"
    and "char_of (((of_char b mod 16 * 4 + of_char c div 64) mod 64 * 64 + of_char c mod 64) mod 256 :: nat) = c"
  unfolding b64_bytes [OF of_char_less of_char_less of_char_less] by (rule char_of_char)+

lemma of_null: "of_char (CHR 0x00) = (0 :: nat)" by simp

lemmas b64_eval = base64_encode.simps b64_groups.simps b64_first_def b64_second_def b64_third_def
  b64_val_digit option.case prod.case

lemma b64_groups_encode: "b64_groups (base64_encode s) = Some s"
proof (induction s rule: base64_encode.induct)
  case (2 a)
  then show ?case
    unfolding b64_eval using b64_chars_back(1) [where b = "CHR 0x00", unfolded of_null, of a] by simp
next
  case (3 a b)
  have n: "b64_third (of_char b) 0 \<noteq> CHR ''=''" using b64_digit_plain by (simp add: b64_third_def)
  show ?case
    using n b64_chars_back(1) [of a b] b64_chars_back(2) [where c = "CHR 0x00", unfolded of_null, of a b]
    unfolding b64_eval by (simp only: if_False simp_thms if_True div_0)
next
  case (4 a b c s)
  have n: "b64_third (of_char b) (of_char c) \<noteq> CHR ''=''" "b64_digit (of_char c) \<noteq> CHR ''=''"
    using b64_digit_plain by (simp_all add: b64_third_def)
  show ?case
    using n b64_chars_back(1) [of a b] b64_chars_back(2) [of a b c] b64_chars_back(3) [of b c] 4
    unfolding b64_eval by (simp only: if_False simp_thms if_True option.map)
qed simp

lemma encode_chars: "c \<in> set (base64_encode s) \<Longrightarrow> c \<noteq> CHR 0x0A \<and> c \<noteq> CHR 0x0D"
  by (induction s rule: base64_encode.induct)
    (use b64_digit_plain in \<open>auto simp: b64_first_def b64_second_def b64_third_def\<close>)

lemma decode_encode: "base64_decode (base64_encode s) = Some s"
proof -
  have "List.filter (\<lambda>c. c \<noteq> CHR 0x0A \<and> c \<noteq> CHR 0x0D) (base64_encode s) = base64_encode s"
    using encode_chars by (intro filter_True) blast
  then show ?thesis by (simp only: base64_decode_def b64_groups_encode)
qed

section \<open>Properties\<close>

lemma match_fold:
  "gm_get (fold (match_step head registry tag auth) repos m) repo =
     (if repo \<in> set repos \<and> checkTagExists head registry repo tag auth = Inr True
      then Some (registry @ ''/'' @ repo @ '':'' @ tag) else gm_get m repo)"
  by (induction repos arbitrary: m) (auto simp: match_step_def update_conv split: sum.splits)

lemma tag_exists_iff:
  "checkTagExists head registry repo tag auth = Inr True \<longleftrightarrow>
     (\<exists>body. head (''https://'' @ registry @ ''/v2/'' @ repo @ ''/manifests/'' @ tag) auth = Inr (200, body))"
  by (cases "head (''https://'' @ registry @ ''/v2/'' @ repo @ ''/manifests/'' @ tag) auth")
    (auto simp: checkTagExists_def split: if_splits)

text \<open>
  An image name has one reading: a registry before the first slash, a tag after the last colon; without
  a slash the registry is \<open>docker.io\<close>, without a colon after it the tag is \<open>latest\<close>.
\<close>

theorem image_name_parts:
  assumes "CHR ''/'' \<notin> set reg" "CHR '':'' \<notin> set tag"
  shows "ParseImageName (reg @ ''/'' @ repo @ '':'' @ tag) = \<lparr>pi_Registry = reg, pi_Repo = repo, pi_Tag = tag\<rparr> \<and>
    (CHR '':'' \<notin> set repo \<longrightarrow>
       ParseImageName (reg @ ''/'' @ repo) = \<lparr>pi_Registry = reg, pi_Repo = repo, pi_Tag = ''latest''\<rparr>) \<and>
    (CHR ''/'' \<notin> set (repo @ tag) \<longrightarrow>
       ParseImageName (repo @ '':'' @ tag) = \<lparr>pi_Registry = ''docker.io'', pi_Repo = repo, pi_Tag = tag\<rparr>)"
proof -
  have s: "split_on (CHR ''/'') (reg @ CHR ''/'' # r) = reg # split_on (CHR ''/'') r" for r
    by (rule split_on_append_sep [OF assms(1)])
  have l: "length (reg # split_on (CHR ''/'') r) \<noteq> 1" for r by simp
  have c: "cut_last (CHR '':'') (repo @ '':'' @ tag) = Some (repo, tag)"
    using cut_last_SomeI [OF assms(2), of repo] by simp
  have "ParseImageName (reg @ ''/'' @ repo @ '':'' @ tag) = \<lparr>pi_Registry = reg, pi_Repo = repo, pi_Tag = tag\<rparr>"
    using c by (simp add: ParseImageName_def s join_split Let_def)
  moreover have "ParseImageName (reg @ ''/'' @ repo) = \<lparr>pi_Registry = reg, pi_Repo = repo, pi_Tag = ''latest''\<rparr>"
    if "CHR '':'' \<notin> set repo"
    using that cut_last_None [of "CHR '':''" repo] by (simp add: ParseImageName_def s join_split Let_def)
  moreover have "ParseImageName (repo @ '':'' @ tag) = \<lparr>pi_Registry = ''docker.io'', pi_Repo = repo, pi_Tag = tag\<rparr>"
    if "CHR ''/'' \<notin> set (repo @ tag)"
  proof -
    have "split_on (CHR ''/'') (repo @ '':'' @ tag) = [repo @ '':'' @ tag]"
      using that by (intro split_on_none) simp
    then show ?thesis using c by (simp add: ParseImageName_def Let_def)
  qed
  ultimately show ?thesis by blast
qed

lemma image_name_parts_witness:
  "ParseImageName ''ecr.aws/tyk-ee:v5.3'' = \<lparr>pi_Registry = ''ecr.aws'', pi_Repo = ''tyk-ee'', pi_Tag = ''v5.3''\<rparr> \<and>
   ParseImageName ''tyk-ee:v5.3'' = \<lparr>pi_Registry = ''docker.io'', pi_Repo = ''tyk-ee'', pi_Tag = ''v5.3''\<rparr>"
  using image_name_parts [of "''ecr.aws''" "''v5.3''" "''tyk-ee''"] by simp

text \<open>
  (C32) With credentials for the registry of the target, \<open>policy match\<close> prints one line per repository: the
  given image for its own repository, the target's tag wherever the registry has it, \<open>master\<close> elsewhere;
  the registry is asked with the stored credentials, however their base64 form was wrapped.
\<close>

theorem match_resolves:
  assumes "gm_get config (pi_Registry (ParseImageName tagMatch)) = Some auth"
    and "base64_decode auth = Some creds"
    and "registry = pi_Registry (ParseImageName tagMatch)" "tag = pi_Tag (ParseImageName tagMatch)"
  shows "match_cmd head (Inr config) rs tagOverride tagMatch = Done (Inr (List.map (\<lambda>repo.
     replace_char (CHR ''-'') (CHR ''_'') repo @ ''_image='' @
       (if repo = pi_Repo (ParseImageName tagOverride) then tagOverride
        else if \<exists>body. head (''https://'' @ registry @ ''/v2/'' @ repo @ ''/manifests/'' @ tag)
               (''Basic '' @ base64_encode creds) = Inr (200, body)
        then registry @ ''/'' @ repo @ '':'' @ tag
        else registry @ ''/'' @ repo @ '':master'')) (split_on (CHR '','') rs)))"
proof -
  have a: "getAuthHeader config registry = Inr (''Basic '' @ base64_encode creds)"
    using assms by (simp add: getAuthHeader_def)
  show ?thesis
    unfolding match_cmd_def Let_def sum.case assms(3,4) [symmetric]
    by (auto simp: GetMatches_def a Match_def match_fold tag_exists_iff update_conv Let_def)
qed

lemma match_resolves_witness:
  "match_cmd (\<lambda>url auth. if url = ''https://ecr/v2/tyk-pump/manifests/v1'' then Inr (200, []) else Inr (404, []))
     (Inr [(''ecr'', base64_encode ''me:secret'')]) ''tyk,tyk-pump,tyk-sink'' ''ecr/tyk:pr'' ''ecr/tyk:v1''
   = Done (Inr [''tyk_image=ecr/tyk:pr'', ''tyk_pump_image=ecr/tyk-pump:v1'', ''tyk_sink_image=ecr/tyk-sink:master''])"
proof -
  have p: "ParseImageName ''ecr/tyk:pr'' = \<lparr>pi_Registry = ''ecr'', pi_Repo = ''tyk'', pi_Tag = ''pr''\<rparr>"
    "ParseImageName ''ecr/tyk:v1'' = \<lparr>pi_Registry = ''ecr'', pi_Repo = ''tyk'', pi_Tag = ''v1''\<rparr>"
    "split_on (CHR '','') ''tyk,tyk-pump,tyk-sink'' = [''tyk'', ''tyk-pump'', ''tyk-sink'']"
    "replace_char (CHR ''-'') (CHR ''_'') ''tyk'' = ''tyk''"
    "replace_char (CHR ''-'') (CHR ''_'') ''tyk-pump'' = ''tyk_pump''"
    "replace_char (CHR ''-'') (CHR ''_'') ''tyk-sink'' = ''tyk_sink''"
    by code_simp+
  have g: "gm_get [(''ecr'', x)] (pi_Registry (ParseImageName ''ecr/tyk:v1'')) = Some x"
    "''ecr'' = pi_Registry (ParseImageName ''ecr/tyk:v1'')" "''v1'' = pi_Tag (ParseImageName ''ecr/tyk:v1'')" for x :: string
    by (simp_all add: p)
  define enc where "enc = base64_encode"
  have d: "base64_decode (enc ''me:secret'') = Some ''me:secret''" unfolding enc_def by (rule decode_encode)
  show ?thesis
    unfolding enc_def [symmetric] match_resolves [OF g(1) d g(2,3)] p(1,2,3) by (simp add: p)
qed

text \<open>
  Without usable credentials for that registry the command does not fail with the error it logs: it
  stores into the nil map of the empty result and panics.
\<close>

theorem match_needs_credentials:
  assumes "gm_get config (pi_Registry (ParseImageName tagMatch)) = None \<or>
    (\<exists>auth. gm_get config (pi_Registry (ParseImageName tagMatch)) = Some auth \<and> base64_decode auth = None)"
  shows "match_cmd head (Inr config) rs tagOverride tagMatch = Panic ''assignment to entry in nil map''"
  using assms by (auto simp: match_cmd_def GetMatches_def getAuthHeader_def Let_def)

lemma match_needs_credentials_witness:
  "match_cmd (\<lambda>_ _. Inr (200, [])) (Inr []) ''tyk'' ''a/b:c'' ''d/e:f'' = Panic ''assignment to entry in nil map''"
  using match_needs_credentials [of "[]" "''d/e:f''"] by simp

text \<open>
  Base64 decoding undoes encoding, so the header of a registry is its stored secret whenever that
  is the encoding of some credentials.
\<close>

theorem base64_roundtrip:
  "base64_decode (base64_encode s) = Some s \<and>
   getAuthHeader [(registry, base64_encode s)] registry = Inr (''Basic '' @ base64_encode s)"
  by (simp add: decode_encode getAuthHeader_def)

end
