(* ===== verification/Diff.thy ===== *)
theory Diff
  imports GoRegexp
begin

text \<open>
  \<open>policy/diff.go\<close> and the command \<open>policy diff\<close>: the coloured listing of a diff, and the gate that fails
  when a diff is not trivial.  Running git and the diff parser are arguments.
\<close>

section \<open>Colours\<close>

definition esc :: "string \<Rightarrow> string" where "esc s = CHR 0x1B # s"

definition Reset :: string where "Reset = esc ''[0m''"
definition Red :: string where "Red = esc ''[31m''"
definition Green :: string where "Green = esc ''[32m''"
definition Yellow :: string where "Yellow = esc ''[33m''"
definition LBlue :: string where "LBlue = esc ''[94m''"
definition White :: string where "White = esc ''[97m''"

text \<open>The expressions, without the \<open>.*\<close> they end in, which matches any rest of a line.\<close>

definition red_rx :: rx where "red_rx = rxseq [Lit ''-'', Rep (\<lambda>c. c \<noteq> CHR ''-'') 2 (Some 2)]"
definition green_rx :: rx where "green_rx = rxseq [Lit ''+'', Rep (\<lambda>c. c \<noteq> CHR ''+'') 2 (Some 2)]"
definition lblue_rx :: rx where "lblue_rx = Lit ''@@ ''"

definition word_or_bar :: "char \<Rightarrow> bool" where
  "word_or_bar c \<longleftrightarrow> is_digit c \<or> c \<in> set upper_letters \<or> c \<in> set lower_letters \<or> c = CHR ''_'' \<or> c = CHR ''|''"

definition index_rx :: rx where
  "index_rx = rxseq [Lit ''index '', Rep word_or_bar 7 (Some 8), Rep (\<lambda>c. c \<noteq> CHR 0x0A) 2 (Some 2),
     Rep word_or_bar 7 (Some 8)]"

definition yellow_rx :: rx where
  "yellow_rx = Alt (Lit ''--- '') (Alt (Lit ''+++ '') (Alt (Lit ''diff --git '') index_rx))"

definition line_colour :: "string \<Rightarrow> string" where
  "line_colour l =
     (if matches_prefix green_rx l then Green
      else if matches_prefix red_rx l then Red
      else if matches_prefix lblue_rx l then LBlue
      else if matches_prefix yellow_rx l then Yellow
      else Reset)"

text \<open>\<open>func colourPrint(out string)\<close>: the lines it prints.\<close>

definition colourPrint :: "string \<Rightarrow> string list" where
  "colourPrint s = List.map (\<lambda>l. line_colour l @ l) (scan_lines s)"

section \<open>The gate\<close>

definition gitDiff_args :: "string list" where
  "gitDiff_args = [''diff'', ''-w'', ''-U1'', ''--ignore-cr-at-eol'', ''-I^# Generated by:.*$'', ''--ignore-blank-lines'', ''HEAD'']"

text \<open>The outcome of running git in a directory: an error, or its output.\<close>

type_synonym git_run = "string \<Rightarrow> string list \<Rightarrow> string + string"

definition gitDiff :: "git_run \<Rightarrow> string \<Rightarrow> string + string" where
  "gitDiff run dir = (case run dir gitDiff_args of Inl e \<Rightarrow> Inl (''diff in '' @ dir @ '': '' @ e) | Inr output \<Rightarrow> Inr output)"

record DiffFile =
  df_OrigName :: string
  df_NewName :: string

definition parseDiff :: "(string \<Rightarrow> string + DiffFile list) \<Rightarrow> string \<Rightarrow> string + string list" where
  "parseDiff parse ds = res_bind (parse ds)
     (\<lambda>files. Inr (List.map (\<lambda>df. if df_OrigName df = [] then df_NewName df else df_OrigName df) files))"

text \<open>\<open>func NonTrivialDiff(dir string, op, colours bool) ([]string, error)\<close>, with what it prints.\<close>

definition NonTrivialDiff ::
  "git_run \<Rightarrow> (string \<Rightarrow> string + DiffFile list) \<Rightarrow> string \<Rightarrow> bool \<Rightarrow> bool \<Rightarrow> (string + string list) \<times> string list" where
  "NonTrivialDiff run parse dir op colours =
     (case gitDiff run dir of
        Inl e \<Rightarrow> (Inl e, [])
      | Inr ds \<Rightarrow> (parseDiff parse ds, if op then (if colours then colourPrint ds else [ds]) else []))"

text \<open>\<open>gromit policy diff\<close> (\<open>cmd/policy.go\<close>): the error it returns, and what it prints.\<close>

definition diff_cmd ::
  "git_run \<Rightarrow> (string \<Rightarrow> string + DiffFile list) \<Rightarrow> string \<Rightarrow> bool \<Rightarrow> string option \<times> string list" where
  "diff_cmd run parse dir colours =
     (case NonTrivialDiff run parse dir True colours of
        (Inl e, out) \<Rightarrow> (Some e, out)
      | (Inr dfs, out) \<Rightarrow>
          (if dfs \<noteq> [] then Some (''non-trivial diffs in '' @ dir @ '': ['' @ join_with '' '' dfs @ '']'') else None, out))"

section \<open>Properties\<close>

lemma rep_exactly:
  "runs (Rep P n (Some n)) s \<noteq> [] \<longleftrightarrow> n \<le> length s \<and> list_all P (take n s)"
proof -
  have "runs (Rep P n (Some n)) s \<noteq> [] \<longleftrightarrow> (\<exists>a rest c. (a, rest, c) \<in> set (runs (Rep P n (Some n)) s))"
    by (metis list.set_intros(1) list.exhaust list.set(1) empty_iff prod_cases3)
  also have "\<dots> \<longleftrightarrow> (\<exists>a rest. s = a @ rest \<and> list_all P a \<and> length a = n)"
    unfolding runs_Rep by (auto intro: le_antisym)
  also have "\<dots> \<longleftrightarrow> n \<le> length s \<and> list_all P (take n s)"
    by (metis append_eq_conv_conj append_take_drop_id le_add1 length_append length_take min.absorb2)
  finally show ?thesis .
qed

lemma seq_lit_prefix:
  "matches_prefix (Seq (Lit l) q) s \<longleftrightarrow> prefix l s \<and> matches_prefix q (drop (length l) s)"
  by (auto simp: matches_prefix_def)

lemma changed_lines:
  "matches_prefix green_rx l \<longleftrightarrow> (\<exists>a b r. l = CHR ''+'' # a # b # r \<and> a \<noteq> CHR ''+'' \<and> b \<noteq> CHR ''+'')"
  "matches_prefix red_rx l \<longleftrightarrow> (\<exists>a b r. l = CHR ''-'' # a # b # r \<and> a \<noteq> CHR ''-'' \<and> b \<noteq> CHR ''-'')"
proof -
  have two: "matches_prefix (Rep P 2 (Some 2)) s \<longleftrightarrow> (\<exists>a b r. s = a # b # r \<and> P a \<and> P b)" for P s
    unfolding matches_prefix_def rep_exactly
    by (cases s; cases "tl s") (auto simp: numeral_2_eq_2)
  show "matches_prefix green_rx l \<longleftrightarrow> (\<exists>a b r. l = CHR ''+'' # a # b # r \<and> a \<noteq> CHR ''+'' \<and> b \<noteq> CHR ''+'')"
    unfolding green_rx_def rxseq.simps seq_lit_prefix two by (auto simp: prefix_def)
  show "matches_prefix red_rx l \<longleftrightarrow> (\<exists>a b r. l = CHR ''-'' # a # b # r \<and> a \<noteq> CHR ''-'' \<and> b \<noteq> CHR ''-'')"
    unfolding red_rx_def rxseq.simps seq_lit_prefix two by (auto simp: prefix_def)
qed

text \<open>
  The gate passes exactly when git could compute the diff, its output could be parsed and names no file.
\<close>

theorem diff_gate:
  "fst (diff_cmd run parse dir colours) = None \<longleftrightarrow> (\<exists>ds. run dir gitDiff_args = Inr ds \<and> parse ds = Inr [])"
  by (auto simp: diff_cmd_def NonTrivialDiff_def gitDiff_def parseDiff_def res_bind_Inr_iff
      split: sum.splits prod.splits if_splits)

text \<open>
  Colours tell added and removed lines apart: a line is green or red exactly if its first character is
  the sign and the two after it exist and are not signs, so the headers \<open>+++\<close> and \<open>---\<close> are never taken for
  changes and have their own colour.
\<close>

theorem colours_of_changes:
  "(line_colour l = Green \<longleftrightarrow> (\<exists>a b r. l = CHR ''+'' # a # b # r \<and> a \<noteq> CHR ''+'' \<and> b \<noteq> CHR ''+'')) \<and>
   (line_colour l = Red \<longleftrightarrow> (\<exists>a b r. l = CHR ''-'' # a # b # r \<and> a \<noteq> CHR ''-'' \<and> b \<noteq> CHR ''-'')) \<and>
   (line_colour (''+++ '' @ r) = Yellow \<and> line_colour (''--- '' @ r) = Yellow \<and> line_colour (''@@ '' @ r) = LBlue)"
proof -
  have d: "Green \<noteq> Red" "Green \<noteq> LBlue" "Green \<noteq> Yellow" "Green \<noteq> Reset" "Red \<noteq> LBlue" "Red \<noteq> Yellow" "Red \<noteq> Reset"
    by (simp_all add: Green_def Red_def LBlue_def Yellow_def Reset_def esc_def)
  have "\<not> matches_prefix red_rx l" if "matches_prefix green_rx l"
    using that unfolding changed_lines by auto
  then have "(line_colour l = Green \<longleftrightarrow> matches_prefix green_rx l) \<and> (line_colour l = Red \<longleftrightarrow> matches_prefix red_rx l)"
    using d by (auto simp: line_colour_def)
  moreover have "line_colour (''+++ '' @ r) = Yellow" "line_colour (''--- '' @ r) = Yellow" "line_colour (''@@ '' @ r) = LBlue"
    unfolding line_colour_def changed_lines
    by (simp_all add: matches_prefix_def lblue_rx_def yellow_rx_def)
  ultimately show ?thesis unfolding changed_lines by blast
qed

end
