(* ===== verification/BundleTree.thy ===== *)
theory BundleTree
  imports GoStrings
begin

text \<open>
  The tree half of \<open>policy/bundle.go\<close>: bundles of templates as directory trees, and
  their construction by walking the embedded file system, one feature after the other.
  Parsing a template is a parameter (text/template and sprig).  The abstract view of a tree
  is \<open>all_leaves\<close>, the list of its leaves with their paths; the templates of one path keep
  the order in which they were added, so a later feature comes after an earlier one.
\<close>

section \<open>Trees\<close>

text \<open>\<open>type bundleNode struct\<close>; the root has no name, no path and no template.\<close>

datatype 't bundleNode =
  Node (bn_Name: string) (bn_path: string) (bn_template: "'t option") (bn_Children: "'t bundleNode list")

record 't Bundle =
  bd_Name :: string
  bd_tree :: "'t bundleNode"

text \<open>
  The search for the parent in \<open>Add\<close> and the append below it, on the children of the
  current parent: the first child with the name of the component is entered, and a missing
  one is created with the path and the template of the file being added.
\<close>

fun add_to :: "string \<Rightarrow> 't \<Rightarrow> string list \<Rightarrow> 't bundleNode list \<Rightarrow> 't bundleNode list" where
  "add_to path t [] ns = ns"
| "add_to path t [c] ns = ns @ [Node c path (Some t) []]"
| "add_to path t (c # d # cs) [] = [Node c path (Some t) (add_to path t (d # cs) [])]"
| "add_to path t (c # d # cs) (n # ns) =
     (if bn_Name n = c then
        Node (bn_Name n) (bn_path n) (bn_template n) (add_to path t (d # cs) (bn_Children n)) # ns
      else n # add_to path t (c # d # cs) ns)"

text \<open>\<open>func (b *Bundle) Add(path string, template *template.Template)\<close>\<close>

definition Add :: "string \<Rightarrow> 't \<Rightarrow> 't Bundle \<Rightarrow> 't Bundle go" where
  "Add path t b =
     (let parts = split_on (CHR ''/'') path in
      if length parts < 2 then Panic ''slice bounds out of range''
      else let components = drop 2 parts in
        if components = [] then Panic ''index out of range''
        else let path = filepath_join components; root = bd_tree b in
          Done (b\<lparr>bd_tree := Node (bn_Name root) (bn_path root) (bn_template root)
                    (add_to path t components (bn_Children root))\<rparr>))"

text \<open>\<open>func (n *bundleNode) Count(bn *bundleNode) int\<close> and \<open>func (b *Bundle) Count() int\<close>\<close>

fun node_count :: "'t bundleNode \<Rightarrow> nat" where
  "node_count (Node c p t ch) = (if ch = [] then 1 else sum_list (List.map node_count ch))"

definition Count :: "'t Bundle \<Rightarrow> nat" where
  "Count b = node_count (bd_tree b)"

text \<open>\<open>func (n *bundleNode) String(indent int) string\<close> and \<open>func (b *Bundle) String() string\<close>\<close>

fun node_string :: "nat \<Rightarrow> 't bundleNode \<Rightarrow> string" where
  "node_string indent (Node c p t ch) =
     repeat_str ''  '' indent @ c @ ''\<newline>'' @ concat (List.map (node_string (Suc indent)) ch)"

definition BundleString :: "'t Bundle \<Rightarrow> string" where
  "BundleString b = bd_Name b @ node_string 0 (bd_tree b)"

section \<open>The embedded file system\<close>

text \<open>Directory entries are listed in the order of \<open>fs.ReadDir\<close>.\<close>

datatype fsnode = FFile | FDir "(string \<times> fsnode) list"

fun fs_at :: "fsnode \<Rightarrow> string list \<Rightarrow> fsnode option" where
  "fs_at f [] = Some f"
| "fs_at FFile (c # cs) = None"
| "fs_at (FDir es) (c # cs) = (case map_of es c of None \<Rightarrow> None | Some f \<Rightarrow> fs_at f cs)"

text \<open>\<open>fs.ValidPath\<close> and the lookup of a path; an invalid path is no \<open>NotExist\<close> error.\<close>

datatype fs_lookup = FsInvalid | FsMissing | FsFound fsnode

definition fs_open :: "fsnode \<Rightarrow> string \<Rightarrow> fs_lookup" where
  "fs_open fs path =
     (if path = ''.'' then FsFound fs
      else if \<not> list_all plain_comp (split_on (CHR ''/'') path) then FsInvalid
      else case fs_at fs (split_on (CHR ''/'') path) of None \<Rightarrow> FsMissing | Some f \<Rightarrow> FsFound f)"

definition child_path :: "string \<Rightarrow> string \<Rightarrow> string" where
  "child_path path name = (if path = ''.'' then name else path @ ''/'' @ name)"

text \<open>\<open>func getSubTemplates(subfs fs.FS, root string) ([]string, error)\<close>: the files below the root.\<close>

fun sub_files :: "string \<Rightarrow> fsnode \<Rightarrow> string list"
  and sub_entries :: "string \<Rightarrow> (string \<times> fsnode) list \<Rightarrow> string list" where
  "sub_files path FFile = [path]"
| "sub_files path (FDir es) = sub_entries path es"
| "sub_entries path [] = []"
| "sub_entries path ((n, f) # es) = sub_files (child_path path n) f @ sub_entries path es"

definition getSubTemplates :: "fsnode \<Rightarrow> string \<Rightarrow> string list option" where
  "getSubTemplates fs root =
     (case fs_open fs root of FsFound f \<Rightarrow> Some (sub_files root f) | _ \<Rightarrow> None)"

text \<open>
  The files a template is parsed from in \<open>fsTreeWalk\<close>: itself, the subtemplates of the
  bundle and the entries of the directory of the same name with \<open>.d\<close> appended.
\<close>

definition template_files :: "string list \<Rightarrow> (string \<times> fsnode) list \<Rightarrow> string \<Rightarrow> string \<Rightarrow> string list" where
  "template_files subTemps siblings path name =
     path # subTemps @
       (case map_of siblings (name @ ''.d'') of
          Some (FDir des) \<Rightarrow> List.map (\<lambda>de. filepath_join [path @ ''.d'', fst de]) des
        | _ \<Rightarrow> [])"

text \<open>The files visited by \<open>fsTreeWalk\<close> below a directory, each with the files to parse.\<close>

fun walk_dir :: "string list \<Rightarrow> string \<Rightarrow> fsnode \<Rightarrow> (string \<times> string \<times> string list) list"
  and walk_entries :: "string list \<Rightarrow> (string \<times> fsnode) list \<Rightarrow> string \<Rightarrow> (string \<times> fsnode) list
        \<Rightarrow> (string \<times> string \<times> string list) list" where
  "walk_dir subTemps path FFile = []"
| "walk_dir subTemps path (FDir es) =
     (if suffix ''.d'' path then [] else walk_entries subTemps es path es)"
| "walk_entries subTemps siblings path [] = []"
| "walk_entries subTemps siblings path ((n, f) # es) =
     (if f = FFile then [(n, child_path path n, template_files subTemps siblings (child_path path n) n)]
      else walk_dir subTemps (child_path path n) f)
     @ walk_entries subTemps siblings path es"

text \<open>Parsing (with \<open>template.Must\<close>) and adding each of them.\<close>

fun add_files :: "(string \<Rightarrow> string list \<Rightarrow> 't option) \<Rightarrow> (string \<times> string \<times> string list) list
     \<Rightarrow> 't Bundle \<Rightarrow> 't Bundle go" where
  "add_files parse [] b = Done b"
| "add_files parse ((name, path, files) # fs) b =
     (case parse name files of
        None \<Rightarrow> Panic ''template: Must''
      | Some t \<Rightarrow> go_bind (Add path t b) (add_files parse fs))"

text \<open>
  \<open>func fsTreeWalk(b *Bundle, tfs fs.FS, root string, subTemps []string) error\<close> with the
  treatment of its error in \<open>NewBundle\<close>: a missing root is passed over, any other is fatal.
\<close>

definition fsTreeWalk ::
  "(string \<Rightarrow> string list \<Rightarrow> 't option) \<Rightarrow> fsnode \<Rightarrow> string \<Rightarrow> string list \<Rightarrow> 't Bundle \<Rightarrow> 't Bundle go" where
  "fsTreeWalk parse fs root subTemps b =
     (case fs_open fs root of
        FsInvalid \<Rightarrow> Fatal ''walking feature''
      | FsMissing \<Rightarrow> Done b
      | FsFound FFile \<Rightarrow> add_files parse [(after_last (CHR ''/'') root, root, root # subTemps)] b
      | FsFound (FDir es) \<Rightarrow> add_files parse (walk_dir subTemps root (FDir es)) b)"

text \<open>\<open>func NewBundle(features []string) (*Bundle, error)\<close>\<close>

fun walk_features ::
  "(string \<Rightarrow> string list \<Rightarrow> 't option) \<Rightarrow> fsnode \<Rightarrow> string list \<Rightarrow> string list \<Rightarrow> 't Bundle \<Rightarrow> 't Bundle go" where
  "walk_features parse fs stList [] b = Done b"
| "walk_features parse fs stList (feat # features) b =
     go_bind (fsTreeWalk parse fs (filepath_join [''templates'', feat]) stList b)
       (walk_features parse fs stList features)"

definition NewBundle ::
  "(string \<Rightarrow> string list \<Rightarrow> 't option) \<Rightarrow> fsnode \<Rightarrow> string list \<Rightarrow> 't Bundle go" where
  "NewBundle parse fs features =
     (case getSubTemplates fs (filepath_join [''templates'', ''subtemplates'']) of
        None \<Rightarrow> Fatal ''walking subtemplates''
      | Some stList \<Rightarrow>
          walk_features parse fs stList features
            \<lparr>bd_Name = join_with ''-'' features, bd_tree = Node [] [] None []\<rparr>)"

section \<open>Leaves\<close>

fun leaves :: "'t bundleNode \<Rightarrow> (string list \<times> string \<times> 't option) list" where
  "leaves (Node c p t ch) =
     (if ch = [] then [([c], p, t)]
      else List.map (\<lambda>(cs, l). (c # cs, l)) (concat (List.map leaves ch)))"

definition all_leaves :: "'t bundleNode list \<Rightarrow> (string list \<times> string \<times> 't option) list" where
  "all_leaves ns = concat (List.map leaves ns)"

lemma all_leaves_simps [simp]:
  "all_leaves [] = []" "all_leaves (n # ns) = leaves n @ all_leaves ns"
  "all_leaves (ms @ ns) = all_leaves ms @ all_leaves ns"
  by (simp_all add: all_leaves_def)

lemma leaves_Node:
  "leaves (Node c p t ch) = (if ch = [] then [([c], p, t)]
     else List.map (\<lambda>(cs, l). (c # cs, l)) (all_leaves ch))"
  by (simp add: all_leaves_def)

declare leaves.simps [simp del]

lemma leaves_hd: "l \<in> set (leaves n) \<Longrightarrow> \<exists>cs. fst l = bn_Name n # cs"
  by (cases n) (auto simp: leaves_Node split: if_splits)

lemma leaves_not_empty: "leaves n \<noteq> []"
proof (induction n)
  case (Node c p t ch)
  show ?case
  proof (cases ch)
    case (Cons m ms)
    with Node [of m] show ?thesis by (simp add: leaves_Node)
  qed (simp add: leaves_Node)
qed

lemma node_count_leaves: "node_count n = length (leaves n)"
proof (induction n)
  case (Node c p t ch)
  then have "sum_list (List.map node_count ch) = length (all_leaves ch)"
    by (simp add: all_leaves_def length_concat comp_def cong: map_cong)
  then show ?case by (simp add: leaves_Node)
qed

lemma add_to_nonempty: "cs \<noteq> [] \<Longrightarrow> add_to path t cs ns \<noteq> []"
  by (cases "(path, t, cs, ns)" rule: add_to.cases) auto

text \<open>
  Trees built by \<open>Add\<close>: among the children of a node, those with children of their own have
  distinct names.
\<close>

definition inner :: "'t bundleNode \<Rightarrow> bool" where
  "inner n \<longleftrightarrow> bn_Children n \<noteq> []"

fun wf_node :: "'t bundleNode \<Rightarrow> bool" where
  "wf_node (Node c p t ch) \<longleftrightarrow> distinct (List.map bn_Name (List.filter inner ch)) \<and> (\<forall>n\<in>set ch. wf_node n)"

definition wf_nodes :: "'t bundleNode list \<Rightarrow> bool" where
  "wf_nodes ns \<longleftrightarrow> distinct (List.map bn_Name (List.filter inner ns)) \<and> (\<forall>n\<in>set ns. wf_node n)"

lemma wf_nodes_simps:
  "wf_nodes []"
  "wf_nodes (n # ns) \<longleftrightarrow> wf_node n \<and> wf_nodes ns \<and> (inner n \<longrightarrow> bn_Name n \<notin> bn_Name ` {m \<in> set ns. inner m})"
  by (auto simp: wf_nodes_def)

lemma wf_node_children: "wf_node n \<longleftrightarrow> wf_nodes (bn_Children n)"
  by (cases n) (auto simp: wf_nodes_def)

lemma inner_names_add_to:
  "bn_Name ` {m \<in> set (add_to path t (c # d # cs) ns). inner m}
     \<subseteq> insert c (bn_Name ` {m \<in> set ns. inner m})"
  by (induction ns) (auto simp: inner_def add_to_nonempty)

text \<open>
  Adding at a path none of whose proper prefixes is a leaf puts the new template after the
  earlier ones of the path, and leaves the templates of every other path as they were.
\<close>

text \<open>Adding below a node that is there: it has children, and no other node leads to the path.\<close>

lemma below_inner:
  assumes "\<forall>l \<in> set (all_leaves (Node c p tt ch # ns)). \<not> strict_prefix (fst l) (c # d # cs)"
  shows "ch \<noteq> []" "\<forall>l \<in> set (all_leaves ch). \<not> strict_prefix (fst l) (d # cs)"
proof -
  show "ch \<noteq> []"
  proof
    assume "ch = []"
    then have "([c], p, tt) \<in> set (all_leaves (Node c p tt ch # ns))" by (simp add: leaves_Node)
    with assms have "\<not> strict_prefix [c] (c # d # cs)" by fastforce
    then show False by (simp add: strict_prefix_def)
  qed
  then have lv: "all_leaves (Node c p tt ch # ns) = List.map (\<lambda>(cs, l). (c # cs, l)) (all_leaves ch) @ all_leaves ns"
    by (simp add: leaves_Node)
  show "\<forall>l \<in> set (all_leaves ch). \<not> strict_prefix (fst l) (d # cs)"
  proof
    fix l assume "l \<in> set (all_leaves ch)"
    then have "(\<lambda>(cs, l). (c # cs, l)) l \<in> set (all_leaves (Node c p tt ch # ns))" unfolding lv by (simp only: set_append set_map) blast
    then have "(c # fst l, snd l) \<in> set (all_leaves (Node c p tt ch # ns))" by (simp add: case_prod_beta)
    with assms show "\<not> strict_prefix (fst l) (d # cs)" by fastforce
  qed
qed

lemma no_twin:
  assumes "wf_nodes (Node c p tt ch # ns)" "ch \<noteq> []"
  shows "c # d # cs \<notin> fst ` set (all_leaves ns)"
proof
  assume "c # d # cs \<in> fst ` set (all_leaves ns)"
  then obtain m l where m: "m \<in> set ns" "l \<in> set (leaves m)" "fst l = c # d # cs"
    by (auto simp: all_leaves_def)
  have nm: "bn_Name m = c" using leaves_hd [OF m(2)] m(3) by auto
  obtain c' p' t' ch' where mm: "m = Node c' p' t' ch'" by (cases m) auto
  have "inner m"
  proof (rule ccontr)
    assume "\<not> inner m"
    then have "leaves m = [([c'], p', t')]" by (simp add: mm leaves_Node inner_def)
    with m(2,3) show False by simp
  qed
  with nm assms m(1) show False by (simp add: wf_nodes_simps inner_def) blast
qed

lemma add_to_leaves:
  assumes "cs \<noteq> []" "wf_nodes ns" "\<forall>l \<in> set (all_leaves ns). \<not> strict_prefix (fst l) cs"
  shows "wf_nodes (add_to path t cs ns) \<and>
     (\<exists>l1 l2. all_leaves ns = l1 @ l2 \<and> all_leaves (add_to path t cs ns) = l1 @ (cs, path, Some t) # l2
        \<and> cs \<notin> fst ` set l2)"
  using assms
proof (induction path t cs ns rule: add_to.induct)
  case (2 path t c ns)
  have "all_leaves (add_to path t [c] ns) = all_leaves ns @ ([c], path, Some t) # []"
    by (simp add: leaves_Node)
  moreover have "wf_nodes (add_to path t [c] ns)" using 2 by (auto simp: wf_nodes_def inner_def)
  moreover have "all_leaves ns = all_leaves ns @ []" "[c] \<notin> fst ` set []" by simp_all
  ultimately show ?case by blast
next
  case (3 path t c d cs)
  then have ih: "wf_nodes (add_to path t (d # cs) [])" "all_leaves (add_to path t (d # cs) []) = [(d # cs, path, Some t)]"
    by (auto simp: wf_nodes_simps)
  have "add_to path t (c # d # cs) [] = [Node c path (Some t) (add_to path t (d # cs) [])]" by (rule add_to.simps)
  moreover have "all_leaves [Node c path (Some t) (add_to path t (d # cs) [])] = [(c # d # cs, path, Some t)]"
    using ih(2) add_to_nonempty [of "d # cs" path t "[]"] by (simp add: leaves_Node del: add_to.simps)
  moreover have "wf_nodes [Node c path (Some t) (add_to path t (d # cs) [])]"
    using ih(1) by (simp only: wf_nodes_simps wf_node_children bundleNode.sel) simp
  ultimately show ?case by (intro conjI exI [of _ "[]"]) (simp_all only: all_leaves_simps, simp_all)
next
  case (4 path t c d cs n ns)
  show ?case
  proof (cases "bn_Name n = c")
    case True
    obtain p tt ch where n: "n = Node c p tt ch" using True by (cases n) auto
    note below = below_inner [OF 4(5) [unfolded n]]
    note ch = below(1)
    then have lv: "all_leaves (n # ns) = List.map (\<lambda>(cs, l). (c # cs, l)) (all_leaves ch) @ all_leaves ns"
      by (simp add: n leaves_Node)
    note below(2)
    moreover have "wf_nodes ch" using 4(4) by (simp add: n wf_nodes_simps wf_node_children)
    ultimately obtain l1 l2 where ih: "wf_nodes (add_to path t (d # cs) ch)" "all_leaves ch = l1 @ l2"
      "all_leaves (add_to path t (d # cs) ch) = l1 @ (d # cs, path, Some t) # l2" "d # cs \<notin> fst ` set l2"
      using 4(1) [OF True] by (auto simp: n)
    let ?m = "List.map (\<lambda>(cs, l). (c # cs, l :: string \<times> 'a option))"
    have res: "add_to path t (c # d # cs) (n # ns) = Node c p tt (add_to path t (d # cs) ch) # ns"
      by (simp add: n)
    have nl: "c # d # cs \<notin> fst ` set (all_leaves ns)" by (rule no_twin [OF 4(4) [unfolded n] ch])
    have "wf_nodes (add_to path t (c # d # cs) (n # ns))"
      unfolding res using 4(4) ih(1) ch by (simp add: n wf_nodes_simps wf_node_children inner_def)
    moreover have "all_leaves (n # ns) = ?m l1 @ (?m l2 @ all_leaves ns)" unfolding lv ih(2) by simp
    moreover have "all_leaves (add_to path t (c # d # cs) (n # ns))
        = ?m l1 @ (c # d # cs, path, Some t) # (?m l2 @ all_leaves ns)"
      unfolding res by (simp add: leaves_Node add_to_nonempty ih(3))
    moreover have "c # d # cs \<notin> fst ` set (?m l2 @ all_leaves ns)"
      using ih(4) nl by (auto simp: image_iff)
    ultimately show ?thesis by blast
  next
    case False
    have "\<forall>l \<in> set (all_leaves ns). \<not> strict_prefix (fst l) (c # d # cs)" using 4(5) by simp
    with 4(2) [OF False _ _] 4(4) obtain l1 l2 where ih: "wf_nodes (add_to path t (c # d # cs) ns)"
      "all_leaves ns = l1 @ l2" "all_leaves (add_to path t (c # d # cs) ns) = l1 @ (c # d # cs, path, Some t) # l2"
      "c # d # cs \<notin> fst ` set l2"
      by (auto simp: wf_nodes_simps)
    have "wf_nodes (n # add_to path t (c # d # cs) ns)"
      using False 4(4) ih(1) inner_names_add_to [of path t c d cs ns] by (auto simp: wf_nodes_simps)
    with False ih show ?thesis by (intro conjI exI [of _ "leaves n @ l1"] exI [of _ l2]) auto
  qed
qed simp

section \<open>Growing a tree\<close>

text \<open>A sequence of additions: component path, file path and template of each.\<close>

type_synonym 't adds = "(string list \<times> string \<times> 't) list"

definition grow :: "'t adds \<Rightarrow> 't bundleNode list \<Rightarrow> 't bundleNode list" where
  "grow = fold (\<lambda>(cs, p, t). add_to p t cs)"

text \<open>No path is a directory of another: what the files of one file system satisfy.\<close>

definition conflict_free :: "string list list \<Rightarrow> bool" where
  "conflict_free css \<longleftrightarrow> (\<forall>c\<in>set css. \<forall>d\<in>set css. \<not> strict_prefix c d) \<and> [] \<notin> set css"

definition at_path :: "string list \<Rightarrow> (string list \<times> 'b) list \<Rightarrow> 'b list" where
  "at_path q ls = List.map snd (List.filter (\<lambda>l. fst l = q) ls)"

lemma at_path_append [simp]: "at_path q (xs @ ys) = at_path q xs @ at_path q ys"
  by (simp add: at_path_def)

lemma at_path_Cons: "at_path q ((c, x) # ys) = (if c = q then [x] else []) @ at_path q ys"
  by (simp add: at_path_def)

lemma at_path_none: "q \<notin> fst ` set ls \<Longrightarrow> at_path q ls = []"
  by (auto simp: at_path_def filter_empty_conv)

lemma grow_leaves:
  assumes "wf_nodes ns" "conflict_free (List.map fst (all_leaves ns) @ List.map fst adds)"
  shows "wf_nodes (grow adds ns)"
    and "at_path q (all_leaves (grow adds ns)) = at_path q (all_leaves ns)
           @ List.map (\<lambda>(p, t). (p, Some t)) (at_path q adds)"
    and "length (all_leaves (grow adds ns)) = length (all_leaves ns) + length adds"
    and "set (all_leaves (grow adds ns)) = set (all_leaves ns) \<union> (\<lambda>(cs, p, t). (cs, p, Some t)) ` set adds"
proof -
  have "wf_nodes (grow adds ns) \<and> (\<forall>q. at_path q (all_leaves (grow adds ns)) = at_path q (all_leaves ns)
           @ List.map (\<lambda>(p, t). (p, Some t)) (at_path q adds))
      \<and> length (all_leaves (grow adds ns)) = length (all_leaves ns) + length adds
      \<and> set (all_leaves (grow adds ns)) = set (all_leaves ns) \<union> (\<lambda>(cs, p, t). (cs, p, Some t)) ` set adds"
    using assms
  proof (induction adds arbitrary: ns)
    case Nil
    then show ?case by (simp add: grow_def at_path_def)
  next
    case (Cons a adds)
    obtain cs p t where a: "a = (cs, p, t)" by (cases a)
    have cs: "cs \<noteq> []" "\<forall>l \<in> set (all_leaves ns). \<not> strict_prefix (fst l) cs"
      using Cons.prems(2) by (auto simp: conflict_free_def a)
    from add_to_leaves [OF cs(1) Cons.prems(1) cs(2), of p t]
    obtain l1 l2 where add: "wf_nodes (add_to p t cs ns)" "all_leaves ns = l1 @ l2"
      "all_leaves (add_to p t cs ns) = l1 @ (cs, p, Some t) # l2" "cs \<notin> fst ` set l2" by blast
    have "conflict_free (List.map fst (all_leaves (add_to p t cs ns)) @ List.map fst adds)"
      using Cons.prems(2) unfolding add(2,3) by (auto simp: conflict_free_def a)
    from Cons.IH [OF add(1) this] have ih: "wf_nodes (grow adds (add_to p t cs ns))"
      "\<And>q. at_path q (all_leaves (grow adds (add_to p t cs ns))) = at_path q (all_leaves (add_to p t cs ns))
         @ List.map (\<lambda>(p, t). (p, Some t)) (at_path q adds)"
      "length (all_leaves (grow adds (add_to p t cs ns))) = length (all_leaves (add_to p t cs ns)) + length adds"
      "set (all_leaves (grow adds (add_to p t cs ns)))
         = set (all_leaves (add_to p t cs ns)) \<union> (\<lambda>(cs, p, t). (cs, p, Some t)) ` set adds" by blast+
    have g: "grow (a # adds) ns = grow adds (add_to p t cs ns)" by (simp add: grow_def a)
    have "at_path q (all_leaves (add_to p t cs ns))
        = at_path q (all_leaves ns) @ List.map (\<lambda>(p, t). (p, Some t)) (at_path q [a])" for q
      using at_path_none [OF add(4)] by (auto simp: add(2,3) at_path_Cons a at_path_def [of _ "[]"])
    then show ?case
      unfolding g using ih by (simp add: add(2,3) a at_path_Cons [of _ cs "(p, t)"]) (auto simp: at_path_def)
  qed
  then show "wf_nodes (grow adds ns)"
    and "at_path q (all_leaves (grow adds ns)) = at_path q (all_leaves ns)
           @ List.map (\<lambda>(p, t). (p, Some t)) (at_path q adds)"
    and "length (all_leaves (grow adds ns)) = length (all_leaves ns) + length adds"
    and "set (all_leaves (grow adds ns)) = set (all_leaves ns) \<union> (\<lambda>(cs, p, t). (cs, p, Some t)) ` set adds"
    by blast+
qed

section \<open>What a bundle is made of\<close>

definition feature_files :: "fsnode \<Rightarrow> string list \<Rightarrow> string \<Rightarrow> (string \<times> string \<times> string list) list" where
  "feature_files fs stList feat =
     (let root = filepath_join [''templates'', feat] in
      case fs_open fs root of
        FsFound FFile \<Rightarrow> [(after_last (CHR ''/'') root, root, root # stList)]
      | FsFound (FDir es) \<Rightarrow> walk_dir stList root (FDir es)
      | _ \<Rightarrow> [])"

definition bundle_adds ::
  "(string \<Rightarrow> string list \<Rightarrow> 't option) \<Rightarrow> fsnode \<Rightarrow> string list \<Rightarrow> string list \<Rightarrow> 't adds" where
  "bundle_adds parse fs stList features =
     List.map (\<lambda>(name, path, files).
         (drop 2 (split_on (CHR ''/'') path), filepath_join (drop 2 (split_on (CHR ''/'') path)),
          the (parse name files)))
       (concat (List.map (feature_files fs stList) features))"

lemma Add_Done:
  "Add path t b = Done b' \<Longrightarrow>
     bd_tree b = Node c p t' ns \<Longrightarrow>
     bd_tree b' = Node c p t' (add_to (filepath_join (drop 2 (split_on (CHR ''/'') path))) t
                    (drop 2 (split_on (CHR ''/'') path)) ns)"
  by (auto simp: Add_def Let_def split: if_splits)

lemma add_files_Done:
  "add_files parse es b = Done b' \<Longrightarrow> bd_tree b = Node c p t ns \<Longrightarrow>
     bd_tree b' = Node c p t (grow (List.map (\<lambda>(name, path, files).
         (drop 2 (split_on (CHR ''/'') path), filepath_join (drop 2 (split_on (CHR ''/'') path)),
          the (parse name files))) es) ns)"
proof (induction parse es b arbitrary: ns rule: add_files.induct)
  case (2 parse name path files fs b)
  then obtain x b1 where x: "parse name files = Some x" "Add path x b = Done b1" "add_files parse fs b1 = Done b'"
    by (auto simp: go_bind_Done_iff split: option.splits)
  from 2(1) [OF x(1) x(3) Add_Done [OF x(2) 2(3)]] show ?case by (simp add: grow_def x(1))
qed (simp add: grow_def)

lemma fsTreeWalk_files:
  "fsTreeWalk parse fs (filepath_join [''templates'', feat]) stList b = Done b' \<Longrightarrow>
     add_files parse (feature_files fs stList feat) b = Done b'"
  unfolding fsTreeWalk_def feature_files_def Let_def
  by (cases "fs_open fs (filepath_join [''templates'', feat])")
    (simp_all del: walk_dir.simps split: fsnode.splits)

lemma walk_features_Done:
  "walk_features parse fs stList features b = Done b' \<Longrightarrow> bd_tree b = Node c p t ns \<Longrightarrow>
     bd_tree b' = Node c p t (grow (bundle_adds parse fs stList features) ns)"
proof (induction parse fs stList features b arbitrary: ns rule: walk_features.induct)
  case (2 parse fs stList feat features b)
  then obtain b1 where b1: "fsTreeWalk parse fs (filepath_join [''templates'', feat]) stList b = Done b1"
    "walk_features parse fs stList features b1 = Done b'"
    by (auto simp: go_bind_Done_iff)
  from 2(1) [OF b1(2) add_files_Done [OF fsTreeWalk_files [OF b1(1)] 2(3)]]
  show ?case by (simp add: bundle_adds_def grow_def)
qed (simp add: bundle_adds_def grow_def)

lemma NewBundle_Done:
  assumes "NewBundle parse fs features = Done b"
  obtains stList where "getSubTemplates fs (filepath_join [''templates'', ''subtemplates'']) = Some stList"
    "bd_tree b = Node [] [] None (grow (bundle_adds parse fs stList features) [])"
proof -
  obtain stList where st: "getSubTemplates fs (filepath_join [''templates'', ''subtemplates'']) = Some stList"
    "walk_features parse fs stList features
       \<lparr>bd_Name = join_with ''-'' features, bd_tree = Node [] [] None []\<rparr> = Done b"
    using assms by (auto simp: NewBundle_def split: option.splits)
  from walk_features_Done [OF st(2)] have "bd_tree b = Node [] [] None (grow (bundle_adds parse fs stList features) [])"
    by simp
  with st(1) that show ?thesis by blast
qed

section \<open>Properties\<close>

text \<open>
  (C10) A bundle loses no template and invents none.  When none of the files of the features is
  a directory of another, the tree holds under each path exactly the templates of the files
  with that path, in the order of the features, and \<open>Count\<close> is the number of files; only
  for features without any file it is 1 and not 0.
\<close>

theorem bundle_holds_templates:
  assumes "NewBundle parse fs features = Done b"
    and "getSubTemplates fs (filepath_join [''templates'', ''subtemplates'']) = Some stList"
    and "conflict_free (List.map fst (bundle_adds parse fs stList features))"
  shows "(\<forall>q. at_path q (all_leaves (bn_Children (bd_tree b)))
         = List.map (\<lambda>(p, t). (p, Some t)) (at_path q (bundle_adds parse fs stList features))) \<and>
     Count b = max 1 (length (bundle_adds parse fs stList features))"
proof -
  let ?adds = "bundle_adds parse fs stList features"
  have tree: "bd_tree b = Node [] [] None (grow ?adds [])"
    using NewBundle_Done [OF assms(1)] assms(2) by (metis option.inject)
  have cf: "conflict_free (List.map fst (all_leaves []) @ List.map fst ?adds)" using assms(3) by simp
  note g = grow_leaves [OF wf_nodes_simps(1) cf]
  have len: "length (all_leaves (grow ?adds [])) = length ?adds" using g(3) by simp
  have "Count b = max 1 (length ?adds)"
  proof (cases "grow ?adds []")
    case Nil
    with len have "?adds = []" by simp
    with tree Nil show ?thesis by (simp add: Count_def)
  next
    case (Cons n ns)
    have "Count b = length (leaves (bd_tree b))" by (simp add: Count_def node_count_leaves)
    also have "\<dots> = length (all_leaves (grow ?adds []))" unfolding tree by (simp add: leaves_Node Cons)
    finally have "Count b = length ?adds" using len by simp
    moreover have "0 < length (all_leaves (grow ?adds []))"
      using leaves_not_empty [of n] by (simp add: Cons)
    ultimately show ?thesis using len by (simp add: max_def Suc_le_eq)
  qed
  moreover have "bn_Children (bd_tree b) = grow ?adds []" by (simp only: tree bundleNode.sel)
  moreover have "at_path q (all_leaves []) = []" for q :: "string list" by (simp add: at_path_def)
  ultimately show ?thesis using g(2) by (simp only: append_Nil) blast
qed

definition wit_fs :: fsnode where
  "wit_fs = FDir [(''templates'', FDir
     [(''a'', FDir [(''d'', FDir [(''y'', FFile)]), (''x.sh'', FFile), (''x.sh.d'', FDir [(''z'', FFile)])]),
      (''b'', FDir [(''x.sh'', FFile)]), (''subtemplates'', FDir [(''s'', FFile)])])]"

text \<open>A template is represented by the list of files it is parsed from.\<close>

definition wit_parse :: "string \<Rightarrow> string list \<Rightarrow> string list option" where
  "wit_parse name files = Some files"

lemma wit_bundle_evals:
  shows "getSubTemplates wit_fs (filepath_join [''templates'', ''subtemplates'']) = Some [''templates/subtemplates/s'']"
    and "feature_files wit_fs [''templates/subtemplates/s''] ''a''
      = [(''y'', ''templates/a/d/y'', [''templates/a/d/y'', ''templates/subtemplates/s'']),
         (''x.sh'', ''templates/a/x.sh'', [''templates/a/x.sh'', ''templates/subtemplates/s'', ''templates/a/x.sh.d/z''])]"
    and "feature_files wit_fs [''templates/subtemplates/s''] ''b''
      = [(''x.sh'', ''templates/b/x.sh'', [''templates/b/x.sh'', ''templates/subtemplates/s''])]"
    and "fs_open wit_fs (filepath_join [''templates'', ''a'']) \<noteq> FsInvalid"
  by code_simp+

lemma wit_bundle_adds:
  "bundle_adds wit_parse wit_fs [''templates/subtemplates/s''] [''a'', ''b'']
     = [([''d'', ''y''], ''d/y'', [''templates/a/d/y'', ''templates/subtemplates/s'']),
        ([''x.sh''], ''x.sh'', [''templates/a/x.sh'', ''templates/subtemplates/s'', ''templates/a/x.sh.d/z'']),
        ([''x.sh''], ''x.sh'', [''templates/b/x.sh'', ''templates/subtemplates/s''])]"
proof -
  have p: "drop 2 (split_on (CHR ''/'') ''templates/a/d/y'') = [''d'', ''y'']"
    "drop 2 (split_on (CHR ''/'') ''templates/a/x.sh'') = [''x.sh'']"
    "drop 2 (split_on (CHR ''/'') ''templates/b/x.sh'') = [''x.sh'']"
    "filepath_join [''d'', ''y''] = ''d/y''" "filepath_join [''x.sh''] = ''x.sh''"
    by code_simp+
  show ?thesis
    by (simp only: bundle_adds_def list.map concat.simps append_Nil2 append_Cons append_Nil wit_bundle_evals(2,3)
        prod.case p wit_parse_def option.sel)
qed

lemma wit_bundle_Done: "\<exists>b. NewBundle wit_parse wit_fs [''a'', ''b''] = Done b"
proof -
  have "case NewBundle wit_parse wit_fs [''a'', ''b''] of Done b \<Rightarrow> True | _ \<Rightarrow> False" by code_simp
  then show ?thesis by (simp split: go.splits)
qed

theorem bundle_holds_witness:
  "\<exists>b. NewBundle wit_parse wit_fs [''a'', ''b''] = Done b \<and> Count b = 3 \<and>
     at_path [''x.sh''] (all_leaves (bn_Children (bd_tree b)))
       = [(''x.sh'', Some [''templates/a/x.sh'', ''templates/subtemplates/s'', ''templates/a/x.sh.d/z'']),
          (''x.sh'', Some [''templates/b/x.sh'', ''templates/subtemplates/s''])]"
proof -
  obtain b where b: "NewBundle wit_parse wit_fs [''a'', ''b''] = Done b" using wit_bundle_Done by blast
  have "conflict_free (List.map fst (bundle_adds wit_parse wit_fs [''templates/subtemplates/s''] [''a'', ''b'']))"
    by (simp add: wit_bundle_adds conflict_free_def strict_prefix_def)
  from bundle_holds_templates [OF b wit_bundle_evals(1) this] b show ?thesis
    by (simp add: wit_bundle_adds at_path_def)
qed

end
