(* ===== verification/BundleRender.thy ===== *)
theory BundleRender
  imports BundleTree
begin

text \<open>
  The output half of \<open>policy/bundle.go\<close>, with \<open>policy/validator.go\<close>: rendering a bundle into
  a directory.  The template engine, the YAML parser, the JSON schema validators, the YAML
  formatter and the outcome of each file system call are the fields of \<open>render_env\<close>.
  \<open>run_leaves\<close> is the abstract view: a bundle is rendered leaf by leaf.
\<close>

section \<open>Validators\<close>

datatype validator = UNKNOWN_VALIDATOR | GORELEASER | GHA

text \<open>\<open>func getValidator(path []string) validator\<close>; the pattern matches anywhere in the name.\<close>

definition goreleaser_name :: "string \<Rightarrow> bool" where
  "goreleaser_name s \<longleftrightarrow> sublist ''goreleaser.yml'' s \<or> sublist ''goreleaser-el7.yml'' s"

definition getValidator :: "string list \<Rightarrow> validator" where
  "getValidator path =
     (let n = length path - 1 in
      if n > 3 \<and> path ! (n - 1) = ''workflow'' \<and> path ! (n - 2) = ''.github'' then GHA
      else if n > 1 \<and> goreleaser_name (path ! n) then GORELEASER
      else UNKNOWN_VALIDATOR)"

text \<open>
  \<open>func loadValidators() (validatorMap, error)\<close>: the schema compiler is an argument, with the error of
  \<open>AddResource\<close> and, for \<open>MustCompile\<close>, either what it panics with or the schema.  The map is
  returned with the error too.
\<close>

definition loadValidators ::
  "(string \<Rightarrow> string option) \<Rightarrow> (string \<Rightarrow> string + 'v) \<Rightarrow> ((validator, 'v) gomap \<times> string option) go" where
  "loadValidators addResource compile =
     (case addResource ''gha.json'' of
        Some e \<Rightarrow> Done ([], Some (''could not load gha schema: '' @ e))
      | None \<Rightarrow>
     (case compile ''gha.json'' of
        Inl e \<Rightarrow> Panic e
      | Inr gha \<Rightarrow>
     (let schemaMap = gm_put GHA gha [] in
      case addResource ''gorel.json'' of
        Some e \<Rightarrow> Done (schemaMap, Some (''could not load gorel schema: '' @ e))
      | None \<Rightarrow>
     (case compile ''gorel.json'' of
        Inl e \<Rightarrow> Panic e
      | Inr gorel \<Rightarrow> Done (gm_put GORELEASER gorel schemaMap, None)))))"

text \<open>
  Without an error every validator \<open>getValidator\<close> can choose is there; with one, the schema of the
  goreleaser files is missing, the only one that is ever looked up.
\<close>

lemma validators_loaded:
  assumes "loadValidators addResource compile = Done (m, err)"
  shows "err = None \<Longrightarrow> getValidator path \<noteq> UNKNOWN_VALIDATOR \<Longrightarrow> gm_get m (getValidator path) \<noteq> None"
    and "err \<noteq> None \<Longrightarrow> gm_get m GORELEASER = None"
  using assms
  by (cases "getValidator path"; auto simp: loadValidators_def Let_def split: option.splits sum.splits)+

section \<open>Writing\<close>

record disk =
  dk_files :: "(string, string) gomap"
  dk_exec :: "string list"

datatype render_error =
    ExecErr string string
  | UnmarshalErr string string
  | InvalidErr string string
  | FormatErr string string
  | MkdirErr string string
  | CreateErr string string
  | WriteErr string
  | ChmodErr string

text \<open>
  \<open>re_vdrMap\<close> is the map \<open>loadValidators\<close> returned; \<open>re_mkdir\<close> is the error of \<open>MkdirAll\<close> and
  whether it is an \<open>IsExist\<close> error; \<open>re_write\<close> gives the bytes that reach the file and the error.
\<close>

record ('t, 'y) render_env =
  re_exec :: "'t \<Rightarrow> string + string"
  re_unmarshal :: "string \<Rightarrow> string + 'y"
  re_vdrMap :: "(validator, 'y \<Rightarrow> string option) gomap"
  re_yamlfmt :: "string \<Rightarrow> string + string"
  re_mkdir :: "string \<Rightarrow> (string \<times> bool) option"
  re_create :: "string \<Rightarrow> string option"
  re_write :: "string \<Rightarrow> string \<Rightarrow> string \<times> string option"
  re_chmod :: "string \<Rightarrow> string option"

definition put_file :: "string \<Rightarrow> string \<Rightarrow> disk \<Rightarrow> disk" where
  "put_file f content d = d\<lparr>dk_files := gm_put f content (dk_files d)\<rparr>"

definition isYaml :: "string \<Rightarrow> bool" where
  "isYaml f \<longleftrightarrow> suffix ''.yml'' f \<or> suffix ''.yaml'' f"

text \<open>\<open>func skipYamlfmt(opFile string) bool\<close>\<close>

definition skipYamlfmt :: "string \<Rightarrow> bool" where
  "skipYamlfmt opFile \<longleftrightarrow>
     suffix ''.github/workflows/plugin-compiler-build.yml'' opFile \<or>
     suffix ''.github/workflows/plugin-compiler-ng-build.yml'' opFile"

text \<open>The checks of \<open>write\<close>, and the formatting; both leave \<open>error.yaml\<close> behind when they fail.\<close>

definition check_output :: "('t, 'y) render_env \<Rightarrow> string \<Rightarrow> string \<Rightarrow> render_error option go" where
  "check_output env buf opFile =
     (let vdr = getValidator (split_on (CHR ''/'') opFile) in
      if vdr \<noteq> UNKNOWN_VALIDATOR then
        (case re_unmarshal env buf of
           Inl e \<Rightarrow> Done (Some (UnmarshalErr opFile e))
         | Inr y \<Rightarrow>
             (case gm_get (re_vdrMap env) vdr of
                None \<Rightarrow> Panic ''nil pointer dereference''
              | Some validate \<Rightarrow>
                  (case validate y of Some e \<Rightarrow> Done (Some (InvalidErr opFile e)) | None \<Rightarrow> Done None)))
      else Done None)"

definition format_output :: "('t, 'y) render_env \<Rightarrow> string \<Rightarrow> string \<Rightarrow> render_error + string" where
  "format_output env buf opFile =
     (if isYaml opFile \<and> \<not> skipYamlfmt opFile then
        (case re_yamlfmt env buf of Inl e \<Rightarrow> Inl (FormatErr opFile e) | Inr op \<Rightarrow> Inr op)
      else Inr buf)"

definition dir_of :: "string \<Rightarrow> string" where
  "dir_of f = (case cut_last (CHR ''/'') f of None \<Rightarrow> [] | Some (a, b) \<Rightarrow> a @ ''/'')"

text \<open>\<open>func (b *Bundle) write(buf *bytes.Buffer, opFile string) error\<close>\<close>

definition write_file ::
  "('t, 'y) render_env \<Rightarrow> string \<Rightarrow> string \<Rightarrow> disk \<Rightarrow> (render_error option \<times> disk) go" where
  "write_file env buf opFile d =
     go_bind (check_output env buf opFile) (\<lambda>r. case r of
         Some e \<Rightarrow> Done (Some e, put_file ''error.yaml'' buf d)
       | None \<Rightarrow>
           (case format_output env buf opFile of
              Inl e \<Rightarrow> Done (Some e, put_file ''error.yaml'' buf d)
            | Inr op \<Rightarrow>
                (case re_mkdir env (dir_of opFile) of
                   Some (e, False) \<Rightarrow> Done (Some (MkdirErr (dir_of opFile) e), d)
                 | _ \<Rightarrow>
                     (case re_create env opFile of
                        Some e \<Rightarrow> Done (Some (CreateErr opFile e), d)
                      | None \<Rightarrow>
                          let (written, err) = re_write env opFile op in
                          Done (map_option WriteErr err, put_file opFile written d)))))"

section \<open>Rendering\<close>

text \<open>The part of \<open>Render\<close> for a node without children; a missing template is dereferenced.\<close>

definition render_leaf ::
  "('t, 'y) render_env \<Rightarrow> string \<Rightarrow> string \<Rightarrow> string \<Rightarrow> 't option \<Rightarrow> disk
     \<Rightarrow> ((render_error + string list) \<times> disk) go" where
  "render_leaf env opDir name path t d =
     (case t of
        None \<Rightarrow> Panic ''nil pointer dereference''
      | Some t \<Rightarrow>
          (case re_exec env t of
             Inl e \<Rightarrow> Done (Inl (ExecErr name e), d)
           | Inr buf \<Rightarrow>
               let opFile = filepath_join [opDir, path] in
               go_bind (write_file env buf opFile d) (\<lambda>(err, d). case err of
                   Some e \<Rightarrow> Done (Inl e, d)
                 | None \<Rightarrow>
                     if suffix ''.sh'' opFile then
                       (case re_chmod env opFile of
                          Some e \<Rightarrow> Done (Inl (ChmodErr e), d)
                        | None \<Rightarrow> Done (Inr [path], d\<lparr>dk_exec := opFile # dk_exec d\<rparr>))
                     else Done (Inr [path], d))))"

text \<open>
  Going on after a step: an error ends the rendering, the files of the steps are appended.
\<close>

type_synonym outcome = "((render_error + string list) \<times> disk) go"

definition seq_files :: "outcome \<Rightarrow> (disk \<Rightarrow> outcome) \<Rightarrow> outcome" where
  "seq_files m k =
     go_bind m (\<lambda>(r, d). case r of
         Inl e \<Rightarrow> Done (Inl e, d)
       | Inr f \<Rightarrow> go_bind (k d) (\<lambda>(r, d). case r of
             Inl e \<Rightarrow> Done (Inl e, d)
           | Inr fs \<Rightarrow> Done (Inr (f @ fs), d)))"

text \<open>\<open>func (b *Bundle) Render(bv any, opDir string, n *bundleNode) ([]string, error)\<close>\<close>

fun render_node :: "('t, 'y) render_env \<Rightarrow> string \<Rightarrow> 't bundleNode \<Rightarrow> disk \<Rightarrow> outcome"
  and render_children :: "('t, 'y) render_env \<Rightarrow> string \<Rightarrow> 't bundleNode list \<Rightarrow> disk \<Rightarrow> outcome" where
  "render_node env opDir (Node name path t ch) d =
     (if suffix ''.d'' name then Done (Inr [], d)
      else seq_files (render_children env opDir ch d) (\<lambda>d.
             if ch = [] then render_leaf env opDir name path t d else Done (Inr [], d)))"
| "render_children env opDir [] d = Done (Inr [], d)"
| "render_children env opDir (n # ns) d =
     seq_files (render_node env opDir n d) (\<lambda>d. render_children env opDir ns d)"

definition RenderBundle :: "('t, 'y) render_env \<Rightarrow> string \<Rightarrow> 't Bundle \<Rightarrow> disk \<Rightarrow> outcome" where
  "RenderBundle env opDir b d = render_node env opDir (bd_tree b) d"

section \<open>Leaf by leaf\<close>

text \<open>The leaves that are rendered: those with no \<open>.d\<close> node on the way.\<close>

fun visible :: "'t bundleNode \<Rightarrow> (string \<times> string \<times> 't option) list" where
  "visible (Node name path t ch) =
     (if suffix ''.d'' name then []
      else if ch = [] then [(name, path, t)] else concat (List.map visible ch))"

fun run_leaves ::
  "('t, 'y) render_env \<Rightarrow> string \<Rightarrow> (string \<times> string \<times> 't option) list \<Rightarrow> disk \<Rightarrow> outcome" where
  "run_leaves env opDir [] d = Done (Inr [], d)"
| "run_leaves env opDir ((name, path, t) # ls) d =
     seq_files (render_leaf env opDir name path t d) (run_leaves env opDir ls)"

lemma seq_files_Inr:
  "seq_files m k = Done (Inr fs, d') \<longleftrightarrow>
     (\<exists>f1 d1 f2. m = Done (Inr f1, d1) \<and> k d1 = Done (Inr f2, d') \<and> fs = f1 @ f2)"
proof -
  have s: "(case r of Inl e \<Rightarrow> Done (Inl e, d) | Inr x \<Rightarrow> F x) = Done (Inr y, d') \<longleftrightarrow>
      (\<exists>x. r = Inr x \<and> F x = Done (Inr y, d'))" for r :: "render_error + string list" and d d' :: disk and F y
    by (cases r) auto
  show ?thesis by (auto simp: seq_files_def go_bind_Done_iff s)
qed

lemma seq_files_unit: "seq_files (Done (Inr [], d)) k = k d" "seq_files m (\<lambda>d. Done (Inr [], d)) = m"
proof -
  show "seq_files m (\<lambda>d. Done (Inr [], d)) = m"
    by (cases m) (auto simp: seq_files_def split: sum.splits)
  show "seq_files (Done (Inr [], d)) k = k d"
    by (cases "k d") (auto simp: seq_files_def split: sum.splits)
qed

lemma seq_files_assoc: "seq_files (seq_files m k) h = seq_files m (\<lambda>d. seq_files (k d) h)"
proof (cases m)
  case (Done rd)
  obtain r d where rd: "rd = (r, d)" by force
  show ?thesis
  proof (cases r)
    case (Inr f)
    show ?thesis
    proof (cases "k d")
      case (Done rd2)
      obtain r2 d2 where rd2: "rd2 = (r2, d2)" by force
      with \<open>m = Done rd\<close> rd Inr Done show ?thesis
        by (cases r2; cases "h d2") (auto simp: seq_files_def split: sum.splits)
    qed (use \<open>m = Done rd\<close> rd Inr in \<open>simp_all add: seq_files_def\<close>)
  qed (use Done rd in \<open>simp add: seq_files_def\<close>)
qed (simp_all add: seq_files_def)

lemma run_leaves_append:
  "run_leaves env opDir (xs @ ys) d = seq_files (run_leaves env opDir xs d) (run_leaves env opDir ys)"
proof (induction env opDir xs d rule: run_leaves.induct)
  case (2 env opDir name path t ls d)
  then have "run_leaves env opDir (ls @ ys)
      = (\<lambda>d. seq_files (run_leaves env opDir ls d) (run_leaves env opDir ys))" by (intro ext)
  then show ?case by (simp add: seq_files_assoc)
qed (simp add: seq_files_unit)

text \<open>The walk over the tree is the walk over its visible leaves.\<close>

lemma render_run_leaves:
  "render_node env opDir n d = run_leaves env opDir (visible n) d"
  "render_children env opDir ns d = run_leaves env opDir (concat (List.map visible ns)) d"
proof (induction env opDir n d and env opDir ns d rule: render_node_render_children.induct)
  case (1 env opDir name path t ch d)
  have "run_leaves env opDir [(name, path, t)] = render_leaf env opDir name path t"
  proof
    fix d
    have "run_leaves env opDir [] = (\<lambda>d. Done (Inr [], d))" by (rule ext) simp
    then show "run_leaves env opDir [(name, path, t)] d = render_leaf env opDir name path t d"
      by (simp add: seq_files_unit(2))
  qed
  with 1 show ?case by (cases ch) (simp_all add: seq_files_unit)
next
  case (3 env opDir n ns d)
  then have "render_children env opDir ns = run_leaves env opDir (concat (List.map visible ns))" by (intro ext)
  with 3 show ?case by (simp add: run_leaves_append)
qed simp

section \<open>What is on disk afterwards\<close>

text \<open>What a leaf's file holds when rendering succeeds.\<close>

definition output_of :: "('t, 'y) render_env \<Rightarrow> string \<Rightarrow> 't \<Rightarrow> string option" where
  "output_of env opFile t =
     (case re_exec env t of
        Inl e \<Rightarrow> None
      | Inr buf \<Rightarrow> (case format_output env buf opFile of Inl e \<Rightarrow> None | Inr op \<Rightarrow> Some op))"

text \<open>The contract of \<open>Write\<close>: without an error, everything was written.\<close>

definition write_complete :: "('t, 'y) render_env \<Rightarrow> bool" where
  "write_complete env \<longleftrightarrow> (\<forall>f c w. re_write env f c = (w, None) \<longrightarrow> w = c)"

lemma put_file_sel [simp]: "gm_get (dk_files (put_file f c d)) g = (if g = f then Some c else gm_get (dk_files d) g)"
  by (simp add: put_file_def update_conv)

lemma write_file_ok:
  assumes "write_complete env" "write_file env buf opFile d = Done (None, d')"
  shows "\<exists>op. format_output env buf opFile = Inr op \<and> d' = put_file opFile op d"
proof -
  obtain op where op: "format_output env buf opFile = Inr op"
    using assms(2) by (auto simp: write_file_def go_bind_Done_iff split: option.splits sum.splits)
  obtain w err where w: "re_write env opFile op = (w, err)" by force
  have "err = None \<and> d' = put_file opFile w d"
    using assms(2) op w
    by (auto simp: write_file_def go_bind_Done_iff Let_def split: option.splits bool.splits prod.splits)
  with assms(1) op w show ?thesis by (auto simp: write_complete_def)
qed

lemma render_leaf_ok:
  assumes "write_complete env" "render_leaf env opDir name path t d = Done (Inr fs, d')"
  shows "fs = [path] \<and> (\<exists>t' op. t = Some t' \<and> output_of env (filepath_join [opDir, path]) t' = Some op \<and>
     dk_files d' = dk_files (put_file (filepath_join [opDir, path]) op d))"
proof -
  let ?f = "filepath_join [opDir, path]"
  obtain t' buf where t: "t = Some t'" "re_exec env t' = Inr buf"
    using assms(2) by (auto simp: render_leaf_def split: option.splits sum.splits)
  then obtain d1 where w: "write_file env buf ?f d = Done (None, d1)"
    "fs = [path]" "dk_files d' = dk_files d1"
    using assms(2) by (auto simp: render_leaf_def Let_def go_bind_Done_iff split: option.splits if_splits)
  from write_file_ok [OF assms(1) w(1)] w(2,3) t show ?thesis
    by (auto simp: output_of_def)
qed

text \<open>The last leaf with a file decides its content; other files are untouched.\<close>

definition last_leaf :: "string \<Rightarrow> string \<Rightarrow> (string \<times> string \<times> 't option) list \<Rightarrow> (string \<times> string \<times> 't option) option" where
  "last_leaf opDir f ls = List.find (\<lambda>l. filepath_join [opDir, fst (snd l)] = f) (rev ls)"

lemma run_leaves_ok:
  assumes "write_complete env" "run_leaves env opDir ls d = Done (Inr fs, d')"
  shows "fs = List.map (\<lambda>l. fst (snd l)) ls \<and>
    (\<forall>f. case last_leaf opDir f ls of
        None \<Rightarrow> gm_get (dk_files d') f = gm_get (dk_files d) f
      | Some l \<Rightarrow> \<exists>t op. snd (snd l) = Some t \<and> output_of env f t = Some op \<and> gm_get (dk_files d') f = Some op)"
  using assms(2)
proof (induction ls arbitrary: fs d' rule: rev_induct)
  case Nil
  then show ?case by (simp add: last_leaf_def)
next
  case (snoc l ls)
  obtain name path t where l: "l = (name, path, t)" by (cases l)
  obtain f1 d1 f2 where s: "run_leaves env opDir ls d = Done (Inr f1, d1)"
    "run_leaves env opDir [l] d1 = Done (Inr f2, d')" "fs = f1 @ f2"
    using snoc.prems by (auto simp: run_leaves_append seq_files_Inr)
  from s(2) have r: "render_leaf env opDir name path t d1 = Done (Inr f2, d')"
    by (auto simp: l seq_files_Inr)
  note ih = snoc.IH [OF s(1)]
  obtain t' op where lf: "f2 = [path]" "t = Some t'" "output_of env (filepath_join [opDir, path]) t' = Some op"
    "dk_files d' = dk_files (put_file (filepath_join [opDir, path]) op d1)"
    using render_leaf_ok [OF assms(1) r] by blast
  show ?case
  proof (intro conjI allI)
    show "fs = List.map (\<lambda>l. fst (snd l)) (ls @ [l])" using ih s(3) lf(1) by (simp add: l)
    fix f
    show "case last_leaf opDir f (ls @ [l]) of
        None \<Rightarrow> gm_get (dk_files d') f = gm_get (dk_files d) f
      | Some l \<Rightarrow> \<exists>t op. snd (snd l) = Some t \<and> output_of env f t = Some op \<and> gm_get (dk_files d') f = Some op"
    proof (cases "filepath_join [opDir, path] = f")
      case True
      with lf show ?thesis by (simp add: last_leaf_def l)
    next
      case False
      then have "last_leaf opDir f (ls @ [l]) = last_leaf opDir f ls" "gm_get (dk_files d') f = gm_get (dk_files d1) f"
        using lf(4) by (simp_all add: last_leaf_def l)
      with conjunct2 [OF ih, rule_format, of f] show ?thesis by (auto split: option.splits)
    qed
  qed
qed

section \<open>Rendering a new bundle\<close>

lemma visible_leaves:
  assumes "\<forall>l\<in>set (leaves n). \<forall>c\<in>set (fst l). \<not> suffix ''.d'' c"
  shows "visible n = List.map (\<lambda>(cs, p, t). (last cs, p, t)) (leaves n)"
  using assms
proof (induction n)
  case (Node c p t ch)
  show ?case
  proof (cases ch)
    case Nil
    with Node.prems show ?thesis by (simp add: leaves_Node)
  next
    case (Cons m ms)
    then have lv: "leaves (Node c p t ch) = List.map (\<lambda>(cs, l). (c # cs, l)) (all_leaves ch)"
      by (simp add: leaves_Node)
    obtain l where "l \<in> set (leaves m)" using leaves_not_empty [of m] by (meson list.set_sel(1))
    then have "(c # fst l, snd l) \<in> set (leaves (Node c p t ch))"
      unfolding lv by (force simp: Cons)
    with Node.prems have c: "\<not> suffix ''.d'' c" by fastforce
    have ne: "fst l \<noteq> []" if "l \<in> set (leaves n')" for n' and l :: "string list \<times> string \<times> 'a option"
      using leaves_hd [OF that] by auto
    have "visible n' = List.map (\<lambda>(cs, p, t). (last cs, p, t)) (leaves n')" if "n' \<in> set ch" for n'
    proof (rule Node.IH [OF that], intro ballI)
      fix l x assume "l \<in> set (leaves n')" "x \<in> set (fst l)"
      then have "(c # fst l, snd l) \<in> set (leaves (Node c p t ch))"
        unfolding lv using that by (force simp: all_leaves_def)
      with Node.prems \<open>x \<in> set (fst l)\<close> show "\<not> suffix ''.d'' x" by fastforce
    qed
    then have "concat (List.map visible ch)
        = List.map (\<lambda>(cs, p, t). (last cs, p, t)) (all_leaves ch)"
      by (simp add: all_leaves_def map_concat cong: map_cong)
    also have "\<dots> = List.map (\<lambda>(cs, p, t). (last (c # cs), p, t)) (all_leaves ch)"
      using ne by (auto simp: all_leaves_def)
    also have "\<dots> = List.map (\<lambda>(cs, p, t). (last cs, p, t)) (leaves (Node c p t ch))"
      unfolding lv by (simp add: case_prod_beta comp_def)
    also have "concat (List.map visible ch) = visible (Node c p t ch)" using c Cons by simp
    finally show ?thesis .
  qed
qed

lemma visible_root:
  assumes "ns \<noteq> []" "\<forall>l\<in>set (all_leaves ns). \<forall>c\<in>set (fst l). \<not> suffix ''.d'' c"
  shows "visible (Node [] [] None ns) = List.map (\<lambda>(cs, p, t). (last cs, p, t)) (all_leaves ns)"
proof -
  have "visible n = List.map (\<lambda>(cs, p, t). (last cs, p, t)) (leaves n)" if "n \<in> set ns" for n
    using that assms(2) by (intro visible_leaves) (auto simp: all_leaves_def)
  then show ?thesis using assms(1) by (simp add: all_leaves_def map_concat cong: map_cong)
qed

lemma find_rev_at_path:
  assumes "\<And>l. l \<in> set ls \<Longrightarrow> P l \<longleftrightarrow> fst l = q"
  shows "List.find P (rev ls) = (if at_path q ls = [] then None else Some (q, last (at_path q ls)))"
  using assms
proof (induction ls rule: rev_induct)
  case (snoc l ls)
  then show ?case by (cases l) (auto simp: at_path_Cons at_path_def [of _ "[]"])
qed (simp add: at_path_def)

lemma find_map: "List.find P (List.map h xs) = map_option h (List.find (P \<circ> h) xs)"
  by (induction xs) auto

definition plain_adds :: "'t adds \<Rightarrow> bool" where
  "plain_adds adds \<longleftrightarrow> conflict_free (List.map fst adds) \<and>
     (\<forall>a\<in>set adds. list_all (\<lambda>c. plain_comp c \<and> \<not> suffix ''.d'' c) (fst a))"

lemma bundle_adds_path: "(cs, p, t) \<in> set (bundle_adds parse fs stList features) \<Longrightarrow> p = filepath_join cs"
  by (auto simp: bundle_adds_def)

text \<open>The paths that were added, and what is visible of a tree grown from them.\<close>

lemma plain_adds_path:
  assumes "plain_adds adds" "\<forall>a \<in> set adds. fst (snd a) = filepath_join (fst a)" "(cs, p, t) \<in> set adds"
  shows "cs \<noteq> []" "list_all plain_comp cs" "p = join_with ''/'' cs"
proof -
  show c: "cs \<noteq> []" "list_all plain_comp cs"
    using assms(1,3) by (force simp: plain_adds_def conflict_free_def list_all_iff)+
  show "p = join_with ''/'' cs" using assms(2,3) filepath_join_plain [OF c] by force
qed

lemma grow_plain:
  assumes "plain_adds adds"
  shows "set (all_leaves (grow adds [])) = (\<lambda>(cs, p, t). (cs, p, Some t)) ` set adds"
    and "at_path q (all_leaves (grow adds [])) = List.map (\<lambda>(p, t). (p, Some t)) (at_path q adds)"
    and "length (all_leaves (grow adds [])) = length adds"
    and "adds \<noteq> [] \<Longrightarrow> visible (Node [] [] None (grow adds [])) = List.map (\<lambda>(cs, p, t). (last cs, p, t)) (all_leaves (grow adds []))"
proof -
  have cf: "conflict_free (List.map fst (all_leaves []) @ List.map fst adds)"
    using assms by (simp add: plain_adds_def)
  note g = grow_leaves [OF wf_nodes_simps(1) cf]
  show ls: "set (all_leaves (grow adds [])) = (\<lambda>(cs, p, t). (cs, p, Some t)) ` set adds" using g(4) by simp
  show "at_path q (all_leaves (grow adds [])) = List.map (\<lambda>(p, t). (p, Some t)) (at_path q adds)"
    using g(2) [of q] by (simp add: at_path_def [of q "[]"])
  show l: "length (all_leaves (grow adds [])) = length adds" using g(3) by simp
  assume "adds \<noteq> []"
  with l have "grow adds [] \<noteq> []" by auto
  then show "visible (Node [] [] None (grow adds [])) = List.map (\<lambda>(cs, p, t). (last cs, p, t)) (all_leaves (grow adds []))"
    using assms by (intro visible_root) (auto simp: ls plain_adds_def list_all_iff)
qed

lemma last_leaf_find:
  "last_leaf opDir f (List.map (\<lambda>(cs, p, t). (last cs, p, t)) ls) = map_option (\<lambda>(cs, p, t). (last cs, p, t))
     (List.find (\<lambda>l. filepath_join [opDir, fst (snd l)] = f) (rev ls))"
  unfolding last_leaf_def rev_map find_map by (simp only: comp_def case_prod_beta fst_conv snd_conv)

lemma last_leaf_grown:
  assumes "plain_adds adds" "\<forall>a \<in> set adds. fst (snd a) = filepath_join (fst a)" "adds \<noteq> []"
  shows "q \<in> fst ` set adds \<Longrightarrow> last_leaf opDir (filepath_join [opDir, join_with ''/'' q]) (visible (Node [] [] None (grow adds [])))
      = Some (last q, fst (last (at_path q adds)), Some (snd (last (at_path q adds))))"
    and "f \<notin> (\<lambda>a. filepath_join [opDir, join_with ''/'' (fst a)]) ` set adds \<Longrightarrow>
      last_leaf opDir f (visible (Node [] [] None (grow adds []))) = None"
proof -
  note pl = plain_adds_path [OF assms(1,2)] and ls = grow_plain(1) [OF assms(1)]
  note v = grow_plain(4) [OF assms(1,3)]
  let ?ls = "all_leaves (grow adds [])"
  {
    assume q: "q \<in> fst ` set adds"
    let ?f = "filepath_join [opDir, join_with ''/'' q]"
    have qp: "q \<noteq> []" "list_all plain_comp q" using q pl by auto
    have "filepath_join [opDir, fst (snd l)] = ?f \<longleftrightarrow> fst l = q" if "l \<in> set ?ls" for l
    proof -
      obtain cs p t where l: "l = (cs, p, Some t)" "(cs, p, t) \<in> set adds" using \<open>l \<in> set ?ls\<close> ls by auto
      with pl [OF l(2)] filepath_join_inj [of opDir cs q] qp show ?thesis by auto
    qed
    note fr = find_rev_at_path [of ?ls "\<lambda>l. filepath_join [opDir, fst (snd l)] = ?f" q, OF this]
    note ap = grow_plain(2) [OF assms(1), of q]
    have ne: "at_path q adds \<noteq> []" using q by (auto simp: at_path_def filter_empty_conv)
    have "last (at_path q ?ls) = (fst (last (at_path q adds)), Some (snd (last (at_path q adds))))"
      unfolding ap using ne by (simp add: last_map case_prod_beta)
    with fr ap ne show "last_leaf opDir ?f (visible (Node [] [] None (grow adds [])))
        = Some (last q, fst (last (at_path q adds)), Some (snd (last (at_path q adds))))"
      unfolding v last_leaf_find by simp
  next
    assume f: "f \<notin> (\<lambda>a. filepath_join [opDir, join_with ''/'' (fst a)]) ` set adds"
    have "\<forall>l\<in>set (rev ?ls). filepath_join [opDir, fst (snd l)] \<noteq> f"
      using f pl by (auto simp: ls image_iff)
    then show "last_leaf opDir f (visible (Node [] [] None (grow adds []))) = None"
      unfolding v last_leaf_find by (auto simp: find_None_iff)
  }
qed

lemma run_visible:
  assumes "plain_adds adds" "\<And>cs p t. (cs, p, t) \<in> set adds \<Longrightarrow> p = filepath_join cs" "adds \<noteq> []"
    and "write_complete env"
    and "render_node env opDir (Node [] [] None (grow adds [])) d = Done (Inr files, d')"
  shows "set files = (\<lambda>a. join_with ''/'' (fst a)) ` set adds \<and>
    (\<forall>q. q \<in> fst ` set adds \<longrightarrow>
       gm_get (dk_files d') (filepath_join [opDir, join_with ''/'' q]) \<noteq> None \<and>
       gm_get (dk_files d') (filepath_join [opDir, join_with ''/'' q])
         = output_of env (filepath_join [opDir, join_with ''/'' q]) (snd (last (at_path q adds)))) \<and>
    (\<forall>f. f \<notin> (\<lambda>a. filepath_join [opDir, join_with ''/'' (fst a)]) ` set adds \<longrightarrow>
       gm_get (dk_files d') f = gm_get (dk_files d) f)"
proof -
  define v where "v = visible (Node [] [] None (grow adds []))"
  have paths: "\<forall>a \<in> set adds. fst (snd a) = filepath_join (fst a)" using assms(2) by auto
  note pl = plain_adds_path [OF assms(1) paths]
  have run: "run_leaves env opDir v d = Done (Inr files, d')"
    using assms(5) by (simp only: render_run_leaves v_def)
  note ok = run_leaves_ok [OF assms(4) run]
  have "files = List.map (\<lambda>l. fst (snd l)) (all_leaves (grow adds []))"
    using ok unfolding v_def grow_plain(4) [OF assms(1,3)] by (simp add: case_prod_beta)
  then have "set files = (\<lambda>l. fst (snd l)) ` (\<lambda>(cs, p, t). (cs, p, Some t)) ` set adds" by (simp add: grow_plain(1) [OF assms(1)])
  also have "\<dots> = (\<lambda>a. join_with ''/'' (fst a)) ` set adds"
    unfolding image_image using pl by (intro image_cong) auto
  finally have "set files = (\<lambda>a. join_with ''/'' (fst a)) ` set adds" .
  moreover note leaf = last_leaf_grown [OF assms(1) paths assms(3), where opDir = opDir, folded v_def]
  have "gm_get (dk_files d') (filepath_join [opDir, join_with ''/'' q]) \<noteq> None \<and>
      gm_get (dk_files d') (filepath_join [opDir, join_with ''/'' q])
        = output_of env (filepath_join [opDir, join_with ''/'' q]) (snd (last (at_path q adds)))" if "q \<in> fst ` set adds" for q
    using conjunct2 [OF ok, rule_format, of "filepath_join [opDir, join_with ''/'' q]"] leaf(1) [OF that] by auto
  moreover have "gm_get (dk_files d') f = gm_get (dk_files d) f"
    if "f \<notin> (\<lambda>a. filepath_join [opDir, join_with ''/'' (fst a)]) ` set adds" for f
    using conjunct2 [OF ok, rule_format, of f] leaf(2) [OF that] by simp
  ultimately show ?thesis by blast
qed

section \<open>Properties\<close>

lemma bundle_on_disk:
  assumes "NewBundle parse fs features = Done b"
    and "getSubTemplates fs (filepath_join [''templates'', ''subtemplates'']) = Some stList"
    and "adds = bundle_adds parse fs stList features" "plain_adds adds" "adds \<noteq> []"
    and "write_complete env" "RenderBundle env opDir b d = Done (Inr files, d')"
  shows "set files = (\<lambda>a. join_with ''/'' (fst a)) ` set adds \<and>
    (\<forall>q. q \<in> fst ` set adds \<longrightarrow>
       gm_get (dk_files d') (filepath_join [opDir, join_with ''/'' q]) \<noteq> None \<and>
       gm_get (dk_files d') (filepath_join [opDir, join_with ''/'' q])
         = output_of env (filepath_join [opDir, join_with ''/'' q]) (snd (last (at_path q adds)))) \<and>
    (\<forall>f. f \<notin> (\<lambda>a. filepath_join [opDir, join_with ''/'' (fst a)]) ` set adds \<longrightarrow>
       gm_get (dk_files d') f = gm_get (dk_files d) f)"
proof -
  have "bd_tree b = Node [] [] None (grow adds [])"
    using NewBundle_Done [OF assms(1)] assms(2,3) by (metis option.inject)
  with assms(7) have "render_node env opDir (Node [] [] None (grow adds [])) d = Done (Inr files, d')"
    by (simp add: RenderBundle_def)
  then show ?thesis
    using bundle_adds_path unfolding assms(3)
    by (intro run_visible [OF assms(4) [unfolded assms(3)] _ assms(5) [unfolded assms(3)] assms(6)]) 
qed


text \<open>An environment in which a template's output is the name of its file.\<close>

definition wit_render :: "(string list, unit) render_env" where
  "wit_render = \<lparr>re_exec = (\<lambda>t. Inr (hd t)), re_unmarshal = (\<lambda>s. Inr ()), re_vdrMap = [(GORELEASER, \<lambda>y. None)],
     re_yamlfmt = Inr, re_mkdir = (\<lambda>f. None), re_create = (\<lambda>f. None), re_write = (\<lambda>f c. (c, None)),
     re_chmod = (\<lambda>f. None)\<rparr>"

definition wit_disk :: disk where "wit_disk = \<lparr>dk_files = [(''o/old'', ''1'')], dk_exec = []\<rparr>"

lemma wit_render_Done:
  assumes "NewBundle wit_parse wit_fs [''a'', ''b''] = Done b"
  shows "\<exists>files d'. RenderBundle wit_render ''o'' b wit_disk = Done (Inr files, d')"
proof -
  have "case NewBundle wit_parse wit_fs [''a'', ''b''] of
      Done b \<Rightarrow> (case RenderBundle wit_render ''o'' b wit_disk of Done (Inr files, d') \<Rightarrow> True | _ \<Rightarrow> False)
    | _ \<Rightarrow> False" by code_simp
  with assms show ?thesis by (auto split: go.splits prod.splits sum.splits)
qed


text \<open>
  (C36) Output is written only when it passed the checks that apply to its name: when \<open>write\<close>
  reports success for a file that a validator is chosen for, the output parsed and the
  validator accepted it; when it reports anything but a failed write, the target file is as
  it was.
\<close>

theorem write_guarded:
  assumes "write_file env buf f d = Done (r, d')" "f \<noteq> ''error.yaml''"
  shows "(r = None \<longrightarrow> getValidator (split_on (CHR ''/'') f) \<noteq> UNKNOWN_VALIDATOR \<longrightarrow>
      (\<exists>y validate. re_unmarshal env buf = Inr y \<and> validate y = None \<and>
         gm_get (re_vdrMap env) (getValidator (split_on (CHR ''/'') f)) = Some validate)) \<and>
    (r \<noteq> None \<longrightarrow> (\<forall>e. r \<noteq> Some (WriteErr e)) \<longrightarrow> gm_get (dk_files d') f = gm_get (dk_files d) f)"
proof -
  obtain c where c: "check_output env buf f = Done c"
    using assms(1) by (auto simp: write_file_def go_bind_Done_iff)
  have "r = None \<Longrightarrow> c = None" using assms(1) c by (auto simp: write_file_def split: option.splits)
  moreover have "c = None \<Longrightarrow> getValidator (split_on (CHR ''/'') f) \<noteq> UNKNOWN_VALIDATOR \<Longrightarrow>
      (\<exists>y validate. re_unmarshal env buf = Inr y \<and> validate y = None \<and>
         gm_get (re_vdrMap env) (getValidator (split_on (CHR ''/'') f)) = Some validate)"
    using c by (auto simp: check_output_def Let_def split: sum.splits option.splits)
  moreover have "gm_get (dk_files d') f = gm_get (dk_files d) f"
    if "r \<noteq> None" "\<forall>e. r \<noteq> Some (WriteErr e)"
  proof (cases c)
    case (Some e)
    with assms c show ?thesis by (simp add: write_file_def) (metis put_file_sel)
  next
    case None
    show ?thesis
    proof (cases "format_output env buf f")
      case (Inl e)
      with None assms c show ?thesis by (simp add: write_file_def) (metis put_file_sel)
    next
      case (Inr op)
      obtain w err where w: "re_write env f op = (w, err)" by force
      with None Inr assms c that show ?thesis
        by (auto simp: write_file_def Let_def split: option.splits bool.splits)
    qed
  qed
  ultimately show ?thesis by blast
qed

theorem write_guarded_witness:
  "\<exists>d'. write_file wit_render ''y'' ''o/ci/goreleaser.yml'' wit_disk = Done (None, d') \<and>
     (\<exists>y validate. re_unmarshal wit_render ''y'' = Inr y \<and> validate y = None \<and>
        gm_get (re_vdrMap wit_render) GORELEASER = Some validate)"
proof -
  have v: "getValidator (split_on (CHR ''/'') ''o/ci/goreleaser.yml'') = GORELEASER" by code_simp
  have "case write_file wit_render ''y'' ''o/ci/goreleaser.yml'' wit_disk of Done (None, d') \<Rightarrow> True | _ \<Rightarrow> False"
    by code_simp
  then obtain d' where "write_file wit_render ''y'' ''o/ci/goreleaser.yml'' wit_disk = Done (None, d')"
    by (auto split: go.splits prod.splits option.splits)
  with write_guarded [OF this] v show ?thesis by (simp only: v) auto
qed

text \<open>
  No rendered workflow is ever checked against the GitHub Actions schema: whatever the
  output directory, a file in \<open>.github/workflows\<close> whose name is not a goreleaser
  configuration's has no validator.
\<close>

theorem workflows_unvalidated:
  assumes "\<not> goreleaser_name name"
  shows "getValidator (dir @ [''.github'', ''workflows'', name]) = UNKNOWN_VALIDATOR"
  using assms by (simp add: getValidator_def Let_def nth_append)

theorem workflows_unvalidated_witness:
  "getValidator [''out'', ''repo'', ''.github'', ''workflows'', ''release.yml''] = UNKNOWN_VALIDATOR"
proof -
  have "\<not> goreleaser_name ''release.yml''" by code_simp
  from workflows_unvalidated [OF this, of "[''out'', ''repo'']"] show ?thesis by simp
qed

text \<open>A bundle without any file cannot be rendered.\<close>

lemma empty_bundle_panics: "RenderBundle env opDir \<lparr>bd_Name = n, bd_tree = Node [] [] None []\<rparr> d
    = Panic ''nil pointer dereference''"
  by (simp add: RenderBundle_def seq_files_unit render_leaf_def)

end
