(* ===== verification/World.thy ===== *)
theory World
  imports BundleRender
begin

text \<open>
  The world of the commands that work on repositories: the disk, and the log of the calls to git and GitHub
  with their outcomes, newest first.  An effect is a function of the world; the libraries are parameters
  whose answers may depend on the whole log.  The disk changes where rendering writes; what git itself does to
  the work tree (checking out, removing) is in the log only.
\<close>

section \<open>Calls\<close>

datatype git_error = AlreadyUpToDate | EmptyCommit | RepositoryNotExists | BranchNotFound | GitErr string

datatype refname = BranchRef string | RemoteRef string string

datatype gh_error = ErrorResponse "string list" | AcceptedError | GhErr string

record newPR =
  np_Title :: string
  np_Head :: string
  np_Base :: string
  np_Body :: string
  np_Draft :: bool

datatype event =
    MadeDir string "string option"
  | Opened string "git_error option"
  | Cloned string string refname "string option" "git_error option"
  | GotWorktree "git_error option"
  | Fetched string "string option" "git_error option"
  | RefSet refname refname "git_error option"
  | CheckedOut refname "git_error option"
  | Pulled refname "string option" "git_error option"
  | Rendered string "string list"
  | Removed string "git_error option"
  | Staged string "git_error option"
  | Committed string "string option" "git_error option"
  | Pushed string "string option" "git_error option"
  | GotBranch string string string bool
  | Created string string newPR bool
  | Edited string string nat bool
  | AutoMerged string bool
  | AskedReview string string nat "string list" bool
  | Updated string string nat "gh_error option"
  | Executed string "string list" bool
  | Printed string

record world =
  w_log :: "event list"
  w_disk :: disk

section \<open>Effects\<close>

type_synonym 'a eff = "world \<Rightarrow> 'a go \<times> world"

definition eff_ret :: "'a \<Rightarrow> 'a eff" where "eff_ret a w = (Done a, w)"

definition eff_panic :: "string \<Rightarrow> 'a eff" where "eff_panic s w = (Panic s, w)"

definition eff_bind :: "'a eff \<Rightarrow> ('a \<Rightarrow> 'b eff) \<Rightarrow> 'b eff" where
  "eff_bind m f w =
     (case m w of
        (Done a, w') \<Rightarrow> f a w'
      | (Panic s, w') \<Rightarrow> (Panic s, w')
      | (Fatal s, w') \<Rightarrow> (Fatal s, w'))"

definition eff_log :: "event \<Rightarrow> unit eff" where
  "eff_log e w = (Done (), w\<lparr>w_log := e # w_log w\<rparr>)"

text \<open>A call: the answer depends on the world before it, and is recorded.\<close>

definition eff_call :: "(world \<Rightarrow> 'a) \<Rightarrow> ('a \<Rightarrow> event) \<Rightarrow> 'a eff" where
  "eff_call answer ev w = (Done (answer w), w\<lparr>w_log := ev (answer w) # w_log w\<rparr>)"

text \<open>A look at the world that changes nothing.\<close>

definition eff_ask :: "(world \<Rightarrow> 'a) \<Rightarrow> 'a eff" where "eff_ask answer w = (Done (answer w), w)"

definition eff_go :: "'a go \<Rightarrow> 'a eff" where "eff_go m w = (m, w)"

text \<open>Loops over a list.\<close>

fun eff_each :: "('a \<Rightarrow> unit eff) \<Rightarrow> 'a list \<Rightarrow> unit eff" where
  "eff_each f [] = eff_ret ()"
| "eff_each f (x # xs) = eff_bind (f x) (\<lambda>_. eff_each f xs)"

fun eff_until :: "('a \<Rightarrow> 'e option eff) \<Rightarrow> 'a list \<Rightarrow> 'e option eff" where
  "eff_until f [] = eff_ret None"
| "eff_until f (x # xs) = eff_bind (f x) (\<lambda>r. case r of Some e \<Rightarrow> eff_ret (Some e) | None \<Rightarrow> eff_until f xs)"

lemmas eff_defs = eff_ret_def eff_panic_def eff_bind_def eff_log_def eff_call_def eff_ask_def eff_go_def

lemma eff_bind_Done:
  "eff_bind m f w = (Done b, w'') \<longleftrightarrow> (\<exists>a w'. m w = (Done a, w') \<and> f a w' = (Done b, w''))"
  by (auto simp: eff_bind_def split: prod.splits go.splits)

lemma eff_sum_Done:
  "(case x of Inl e \<Rightarrow> f e | Inr y \<Rightarrow> g y) w = q \<longleftrightarrow> (\<exists>e. x = Inl e \<and> f e w = q) \<or> (\<exists>y. x = Inr y \<and> g y w = q)"
  by (cases x) auto

lemma eff_option_Done:
  "(case x of None \<Rightarrow> m | Some y \<Rightarrow> g y) w = q \<longleftrightarrow> (x = None \<and> m w = q) \<or> (\<exists>y. x = Some y \<and> g y w = q)"
  by (cases x) auto

lemma eff_ret_Done: "eff_ret a w = (Done b, w') \<longleftrightarrow> a = b \<and> w = w'"
  by (auto simp: eff_ret_def)

lemma eff_bind_DoneE:
  assumes "eff_bind m f w = (Done b, w'')"
  obtains a w' where "m w = (Done a, w')" "f a w' = (Done b, w'')"
  using assms by (auto simp: eff_bind_Done)

lemmas eff_outcome = eff_bind_Done eff_sum_Done eff_option_Done eff_ret_Done

lemma eff_bind_assoc: "eff_bind (eff_bind m f) g = eff_bind m (\<lambda>a. eff_bind (f a) g)"
  by (rule ext) (auto simp: eff_bind_def split: prod.splits go.splits)

lemma eff_bind_ret [simp]: "eff_bind (eff_ret a) f = f a"
  by (rule ext) (simp add: eff_defs)

section \<open>What an effect adds to the log\<close>

text \<open>
  \<open>adds P m\<close>: whatever the outcome, \<open>m\<close> only prepends events to the log, and each satisfies \<open>P\<close>
  together with the log it is added to.
\<close>

fun grown :: "(event \<Rightarrow> event list \<Rightarrow> bool) \<Rightarrow> event list \<Rightarrow> event list \<Rightarrow> bool" where
  "grown P [] l \<longleftrightarrow> True"
| "grown P (e # es) l \<longleftrightarrow> P e (es @ l) \<and> grown P es l"

lemma grown_append: "grown P (es @ ds) l \<longleftrightarrow> grown P es (ds @ l) \<and> grown P ds l"
  by (induction es) auto

lemma grown_mono: "grown P es l \<Longrightarrow> (\<And>e l. P e l \<Longrightarrow> Q e l) \<Longrightarrow> grown Q es l"
  by (induction es) auto

lemma grown_split: "grown P (xs @ e # ys) l \<Longrightarrow> P e (ys @ l)"
  by (simp add: grown_append)

definition adds :: "(event \<Rightarrow> event list \<Rightarrow> bool) \<Rightarrow> 'a eff \<Rightarrow> bool" where
  "adds P m \<longleftrightarrow> (\<forall>w r w'. m w = (r, w') \<longrightarrow> (\<exists>es. w_log w' = es @ w_log w \<and> grown P es (w_log w)))"

lemma log_grows: "adds P m \<Longrightarrow> m w = (r, w') \<Longrightarrow> set (w_log w) \<subseteq> set (w_log w')"
  unfolding adds_def by fastforce

named_theorems adds_rules "which events an effect adds"

lemma addsI: "(\<And>w r w'. m w = (r, w') \<Longrightarrow> \<exists>es. w_log w' = es @ w_log w \<and> grown P es (w_log w)) \<Longrightarrow> adds P m"
  by (simp add: adds_def)

lemma addsD: "adds P m \<Longrightarrow> m w = (r, w') \<Longrightarrow> \<exists>es. w_log w' = es @ w_log w \<and> grown P es (w_log w)"
  by (simp add: adds_def)

lemma adds_ret [adds_rules]: "adds P (eff_ret a)"
  and adds_panic [adds_rules]: "adds P (eff_panic s)"
  and adds_ask [adds_rules]: "adds P (eff_ask g)"
  and adds_go [adds_rules]: "adds P (eff_go r)"
  by (auto simp: adds_def eff_defs intro: exI [of _ "[]"])

lemma adds_call [adds_rules]: "(\<And>a l. P (ev a) l) \<Longrightarrow> adds P (eff_call g ev)"
  by (auto simp: adds_def eff_defs)

lemma adds_log [adds_rules]: "(\<And>l. P e l) \<Longrightarrow> adds P (eff_log e)"
  by (auto simp: adds_def eff_defs)

lemma adds_bind [adds_rules]:
  assumes "adds P m" "\<And>a. adds P (f a)"
  shows "adds P (eff_bind m f)"
proof (rule addsI)
  fix w r w' assume b: "eff_bind m f w = (r, w')"
  obtain r1 w1 where m: "m w = (r1, w1)" by force
  obtain es where es: "w_log w1 = es @ w_log w" "grown P es (w_log w)" using addsD [OF assms(1) m] by blast
  show "\<exists>es. w_log w' = es @ w_log w \<and> grown P es (w_log w)"
  proof (cases r1)
    case (Done a)
    with b m have "f a w1 = (r, w')" by (simp add: eff_bind_def)
    from addsD [OF assms(2) this] obtain ds where "w_log w' = ds @ w_log w1" "grown P ds (w_log w1)" by blast
    with es show ?thesis by (intro exI [of _ "ds @ es"]) (simp add: grown_append)
  qed (use b m es in \<open>auto simp: eff_bind_def\<close>)
qed

lemma adds_if [adds_rules]: "adds P m \<Longrightarrow> adds P n \<Longrightarrow> adds P (if b then m else n)"
  and adds_option [adds_rules]: "adds P m \<Longrightarrow> (\<And>x. adds P (g x)) \<Longrightarrow> adds P (case y of None \<Rightarrow> m | Some x \<Rightarrow> g x)"
  and adds_sum [adds_rules]: "(\<And>e. adds P (f e)) \<Longrightarrow> (\<And>x. adds P (h x)) \<Longrightarrow> adds P (case z of Inl e \<Rightarrow> f e | Inr x \<Rightarrow> h x)"
  and adds_prod [adds_rules]: "(\<And>u v. adds P (k u v)) \<Longrightarrow> adds P (case q of (u, v) \<Rightarrow> k u v)"
  by (simp_all split: option.splits sum.splits prod.splits)

lemma adds_each [adds_rules]: "(\<And>x. adds P (f x)) \<Longrightarrow> adds P (eff_each f xs)"
  by (induction xs) (auto intro: adds_rules)

lemma adds_until [adds_rules]: "(\<And>x. adds P (f x)) \<Longrightarrow> adds P (eff_until f xs)"
  by (induction xs) (auto intro!: adds_rules split: option.splits)

lemma adds_mono: "adds P m \<Longrightarrow> (\<And>e l. P e l \<Longrightarrow> Q e l) \<Longrightarrow> adds Q m"
  unfolding adds_def using grown_mono by blast

text \<open>The same in worlds whose log has the events \<open>S\<close>, which a call extends.\<close>

definition adds_after :: "event set \<Rightarrow> (event \<Rightarrow> event list \<Rightarrow> bool) \<Rightarrow> 'a eff \<Rightarrow> bool" where
  "adds_after S P m \<longleftrightarrow> (\<forall>w r w'. S \<subseteq> set (w_log w) \<longrightarrow> m w = (r, w') \<longrightarrow>
     (\<exists>es. w_log w' = es @ w_log w \<and> grown P es (w_log w)))"

lemma adds_after_weaken: "adds P m \<Longrightarrow> adds_after S P m"
  by (simp add: adds_def adds_after_def)

lemma adds_after_none: "adds_after {} P m \<longleftrightarrow> adds P m"
  by (simp add: adds_def adds_after_def)

lemma adds_after_bind:
  assumes "adds_after S P m" "\<And>a. adds_after S P (f a)"
  shows "adds_after S P (eff_bind m f)"
  unfolding adds_after_def
proof (intro allI impI)
  fix w r w' assume S: "S \<subseteq> set (w_log w)" and b: "eff_bind m f w = (r, w')"
  obtain r1 w1 where m: "m w = (r1, w1)" by force
  obtain es where es: "w_log w1 = es @ w_log w" "grown P es (w_log w)"
    using assms(1) S m unfolding adds_after_def by blast
  show "\<exists>es. w_log w' = es @ w_log w \<and> grown P es (w_log w)"
  proof (cases r1)
    case (Done a)
    with b m have "f a w1 = (r, w')" by (simp add: eff_bind_def)
    moreover have "S \<subseteq> set (w_log w1)" using S es(1) by auto
    ultimately obtain ds where "w_log w' = ds @ w_log w1" "grown P ds (w_log w1)"
      using assms(2) unfolding adds_after_def by blast
    with es show ?thesis by (intro exI [of _ "ds @ es"]) (simp add: grown_append)
  qed (use b m es in \<open>auto simp: eff_bind_def\<close>)
qed

text \<open>The second effect may rely on what the first left in the log.\<close>

lemma adds_bind_post:
  assumes "adds P m" "\<And>w a w1. m w = (Done a, w1) \<Longrightarrow> \<exists>S. S \<subseteq> set (w_log w1) \<and> adds_after S P (f a)"
  shows "adds P (eff_bind m f)"
proof (rule addsI)
  fix w r w' assume b: "eff_bind m f w = (r, w')"
  obtain r1 w1 where m: "m w = (r1, w1)" by force
  obtain es where es: "w_log w1 = es @ w_log w" "grown P es (w_log w)" using addsD [OF assms(1) m] by blast
  show "\<exists>es. w_log w' = es @ w_log w \<and> grown P es (w_log w)"
  proof (cases r1)
    case (Done a)
    with b m have "f a w1 = (r, w')" by (simp add: eff_bind_def)
    with assms(2) m Done obtain ds where "w_log w' = ds @ w_log w1" "grown P ds (w_log w1)"
      unfolding adds_after_def by blast
    with es show ?thesis by (intro exI [of _ "ds @ es"]) (simp add: grown_append)
  qed (use b m es in \<open>auto simp: eff_bind_def\<close>)
qed

lemma adds_after_call:
  assumes "\<And>a l. S \<subseteq> set l \<Longrightarrow> P (ev a) l" "\<And>a. adds_after (insert (ev a) S) P (f a)"
  shows "adds_after S P (eff_bind (eff_call g ev) f)"
  unfolding adds_after_def
proof (intro allI impI)
  fix w r w' assume S: "S \<subseteq> set (w_log w)" and b: "eff_bind (eff_call g ev) f w = (r, w')"
  let ?w1 = "w\<lparr>w_log := ev (g w) # w_log w\<rparr>"
  have "f (g w) ?w1 = (r, w')" using b by (simp add: eff_bind_def eff_call_def)
  moreover have "insert (ev (g w)) S \<subseteq> set (w_log ?w1)" using S by auto
  ultimately obtain ds where "w_log w' = ds @ w_log ?w1" "grown P ds (w_log ?w1)"
    using assms(2) unfolding adds_after_def by blast
  with assms(1) [OF S] show "\<exists>es. w_log w' = es @ w_log w \<and> grown P es (w_log w)"
    by (intro exI [of _ "ds @ [ev (g w)]"]) (simp add: grown_append)
qed

lemma adds_after_if: "adds_after S P m \<Longrightarrow> adds_after S P n \<Longrightarrow> adds_after S P (if b then m else n)"
  and adds_after_sum: "(\<And>e. adds_after S P (f e)) \<Longrightarrow> (\<And>x. adds_after S P (h x)) \<Longrightarrow>
    adds_after S P (case z of Inl e \<Rightarrow> f e | Inr x \<Rightarrow> h x)"
  by (simp_all split: sum.splits)

section \<open>Events that need earlier ones\<close>

text \<open>
  The contract of a log in which some events may only follow others: what an event needs stays available
  when older events are put below.  A log that obeys it has, before every event, what the event needs.
\<close>

locale guarded_log =
  fixes needs :: "event \<Rightarrow> event list \<Rightarrow> bool"
  assumes needs_mono: "needs e l \<Longrightarrow> needs e (l @ l')"
begin

lemma grown_below: "grown needs es l \<Longrightarrow> grown needs es (l @ l')"
proof (induction es)
  case (Cons e es)
  then show ?case using needs_mono [of e "es @ l" l'] by simp
qed simp

lemma grown_fresh: "grown needs es [] \<Longrightarrow> grown needs es l"
  using grown_below [of es "[]" l] by simp

lemma found: "grown needs es [] \<Longrightarrow> es = xs @ e # ys \<Longrightarrow> needs e ys"
  using grown_split [of needs xs e ys "[]"] by simp

text \<open>An effect whose new events obey the contract by themselves can run in any world.\<close>

lemma addsI_fresh:
  assumes "\<And>w r w'. m w = (r, w') \<Longrightarrow> \<exists>es. w_log w' = es @ w_log w \<and> grown needs es []"
  shows "adds needs m"
  using assms grown_fresh unfolding adds_def by blast

end

end
