(* ===== verification/Git.thy ===== *)
theory Git
  imports World
begin

text \<open>
  \<open>policy/git.go\<close>: the operations on a local clone.  go-git and the file system are the fields of
  \<open>git_lib\<close>; each field answers one call of the source, from the world and the arguments.
\<close>

section \<open>The libraries\<close>

datatype stat_reply = NotExist | StatErr string | StatDir bool

record git_lib =
  gl_stat :: "world \<Rightarrow> string \<Rightarrow> stat_reply"
  gl_mkdir :: "world \<Rightarrow> string \<Rightarrow> string option"
  gl_open :: "world \<Rightarrow> string \<Rightarrow> git_error option"
  gl_clone :: "world \<Rightarrow> string \<Rightarrow> string \<Rightarrow> refname \<Rightarrow> string option \<Rightarrow> git_error option"
  gl_worktree :: "world \<Rightarrow> git_error option"
  gl_fetch :: "world \<Rightarrow> string \<Rightarrow> string option \<Rightarrow> git_error option"
  gl_setref :: "world \<Rightarrow> refname \<Rightarrow> refname \<Rightarrow> git_error option"
  gl_checkout :: "world \<Rightarrow> refname \<Rightarrow> git_error option"
  gl_pull :: "world \<Rightarrow> refname \<Rightarrow> string option \<Rightarrow> git_error option"
  gl_head :: "world \<Rightarrow> git_error + (bool \<times> string)"
  gl_remove :: "world \<Rightarrow> string \<Rightarrow> git_error option"
  gl_add :: "world \<Rightarrow> string \<Rightarrow> git_error + string"
  gl_commit :: "world \<Rightarrow> string \<Rightarrow> string option \<Rightarrow> git_error + string"
  gl_object :: "world \<Rightarrow> string \<Rightarrow> git_error option"
  gl_valid :: "string \<Rightarrow> git_error option"
  gl_push :: "world \<Rightarrow> string \<Rightarrow> string option \<Rightarrow> git_error option"
  gl_remote :: "world \<Rightarrow> git_error option"
  gl_list :: "world \<Rightarrow> string option \<Rightarrow> git_error + (string \<times> string) list"
  gl_create :: "world \<Rightarrow> string \<Rightarrow> string option"

text \<open>
  \<open>GitRepo\<close>: the repository and its worktree are the library's; the token stands for the authentication,
  and \<open>gr_SignKey\<close> for the key of the commit options, whose other fields never change.
\<close>

record GitRepo =
  gr_url :: string
  gr_auth :: "string option"
  gr_dir :: string
  gr_SignKey :: "string option"

datatype repo_error =
    NoChanges
  | RepoErr git_error
  | CloneErr string git_error
  | FetchErr string git_error
  | RefErr git_error
  | ObjectErr git_error
  | RefSpecErr string
  | PushErr git_error
  | MkdirErr string
  | FileErr string string
  | NilKey

definition wrap :: "(git_error \<Rightarrow> repo_error) \<Rightarrow> git_error option \<Rightarrow> repo_error option" where
  "wrap f r = map_option f r"

section \<open>Operations\<close>

text \<open>\<open>func InitGit(url, branch, dir, ghToken string) (*GitRepo, error)\<close>\<close>

definition InitGit :: "git_lib \<Rightarrow> string \<Rightarrow> string \<Rightarrow> string \<Rightarrow> string \<Rightarrow> (repo_error + GitRepo) eff" where
  "InitGit gl url branch dir ghToken =
     (let auth = (if ghToken \<noteq> [] then Some ghToken else None);
          clone = eff_bind (eff_call (\<lambda>w. gl_open gl w dir) (Opened dir)) (\<lambda>r.
            if r = Some RepositoryNotExists then
              eff_bind (eff_call (\<lambda>w. gl_clone gl w dir url (BranchRef branch) auth) (Cloned dir url (BranchRef branch) auth))
                (\<lambda>r. eff_ret (case r of Some e \<Rightarrow> Some (CloneErr branch e) | None \<Rightarrow> None))
            else if r \<noteq> None then eff_panic ''nil pointer dereference''
            else eff_ret None);
          finish = eff_bind clone (\<lambda>r. case r of
              Some e \<Rightarrow> eff_ret (Inl e)
            | None \<Rightarrow> eff_bind (eff_call (gl_worktree gl) GotWorktree) (\<lambda>r. case r of
                Some e \<Rightarrow> eff_ret (Inl (RepoErr e))
              | None \<Rightarrow> eff_ret (Inr \<lparr>gr_url = url, gr_auth = auth, gr_dir = dir, gr_SignKey = None\<rparr>)))
      in eff_bind (eff_ask (\<lambda>w. gl_stat gl w dir)) (\<lambda>st. case st of
           StatErr e \<Rightarrow> eff_panic ''nil pointer dereference''
         | StatDir True \<Rightarrow> finish
         | _ \<Rightarrow> eff_bind (eff_call (\<lambda>w. gl_mkdir gl w dir) (MadeDir dir)) (\<lambda>r. case r of
               Some e \<Rightarrow> eff_ret (Inl (MkdirErr e))
             | None \<Rightarrow> finish)))"

definition RemoveAll :: "git_lib \<Rightarrow> string \<Rightarrow> repo_error option eff" where
  "RemoveAll gl path =
     eff_bind (eff_call (\<lambda>w. gl_remove gl w path) (Removed path)) (\<lambda>r. eff_ret (wrap RepoErr r))"

definition AddFile :: "git_lib \<Rightarrow> string \<Rightarrow> (git_error + string) eff" where
  "AddFile gl path =
     eff_call (\<lambda>w. gl_add gl w path) (\<lambda>r. Staged path (case r of Inl e \<Rightarrow> Some e | Inr h \<Rightarrow> None))"

text \<open>\<open>Branch\<close> of the repository, whose name \<open>Variations\<close> also uses.\<close>

definition CurrentBranch :: "git_lib \<Rightarrow> string eff" where
  "CurrentBranch gl = eff_ask (\<lambda>w.
     case gl_head gl w of Inl e \<Rightarrow> [] | Inr (isBranch, short) \<Rightarrow> if isBranch then short else [])"

definition Commit :: "git_lib \<Rightarrow> GitRepo \<Rightarrow> string \<Rightarrow> repo_error option eff" where
  "Commit gl r msg =
     eff_bind (eff_call (\<lambda>w. gl_commit gl w msg (gr_SignKey r))
        (\<lambda>a. Committed msg (gr_SignKey r) (case a of Inl e \<Rightarrow> Some e | Inr h \<Rightarrow> None)))
       (\<lambda>a. case a of
          Inl e \<Rightarrow> eff_ret (Some (if e = EmptyCommit then NoChanges else RepoErr e))
        | Inr newCommitHash \<Rightarrow> eff_bind (eff_ask (\<lambda>w. gl_object gl w newCommitHash)) (\<lambda>e. eff_ret (wrap ObjectErr e)))"

definition fetch_spec :: "string \<Rightarrow> string" where
  "fetch_spec branch = ''refs/heads/'' @ branch @ '':refs/remotes/origin/'' @ branch"

definition FetchBranch :: "git_lib \<Rightarrow> GitRepo \<Rightarrow> string \<Rightarrow> repo_error option eff" where
  "FetchBranch gl r branch =
     (let rbSpec = fetch_spec branch;
          rbRef = RemoteRef ''origin'' branch; lbRef = BranchRef branch
      in eff_bind (eff_call (\<lambda>w. gl_fetch gl w rbSpec (gr_auth r)) (Fetched rbSpec (gr_auth r))) (\<lambda>e.
           if e \<noteq> None \<and> e \<noteq> Some AlreadyUpToDate then eff_ret (Some (FetchErr branch (the e)))
           else eff_bind (eff_call (\<lambda>w. gl_setref gl w lbRef rbRef) (RefSet lbRef rbRef)) (\<lambda>e. case e of
                Some e \<Rightarrow> eff_ret (Some (RefErr e))
              | None \<Rightarrow> eff_bind (eff_call (\<lambda>w. gl_checkout gl w lbRef) (CheckedOut lbRef))
                  (\<lambda>e. eff_ret (wrap RepoErr e)))))"

definition PullBranch :: "git_lib \<Rightarrow> GitRepo \<Rightarrow> string \<Rightarrow> repo_error option eff" where
  "PullBranch gl r branch =
     eff_bind (eff_call (\<lambda>w. gl_pull gl w (BranchRef branch) (gr_auth r)) (Pulled (BranchRef branch) (gr_auth r)))
       (\<lambda>e. eff_ret (wrap RepoErr e))"

definition push_spec :: "string \<Rightarrow> string \<Rightarrow> string" where
  "push_spec local remote = ''+refs/heads/'' @ local @ '':refs/heads/'' @ remote"

definition Push :: "git_lib \<Rightarrow> GitRepo \<Rightarrow> string \<Rightarrow> repo_error option eff" where
  "Push gl r remoteBranch =
     eff_bind (CurrentBranch gl) (\<lambda>local.
       let rs = push_spec local remoteBranch in
       case gl_valid gl rs of
         Some e \<Rightarrow> eff_ret (Some (RefSpecErr rs))
       | None \<Rightarrow> eff_bind (eff_call (\<lambda>w. gl_push gl w rs (gr_auth r)) (Pushed rs (gr_auth r))) (\<lambda>e.
           eff_ret (if e = Some AlreadyUpToDate then None else wrap PushErr e)))"

definition DeleteRemoteBranch :: "git_lib \<Rightarrow> GitRepo \<Rightarrow> string \<Rightarrow> repo_error option eff" where
  "DeleteRemoteBranch gl r remoteBranch =
     (if remoteBranch = [] then eff_ret (Some (RepoErr BranchNotFound))
      else eff_bind (eff_ask (gl_remote gl)) (\<lambda>e. case e of
          Some e \<Rightarrow> eff_ret (Some (RepoErr e))
        | None \<Rightarrow>
            (let rs = '':refs/heads/'' @ remoteBranch in
             case gl_valid gl rs of
               Some e \<Rightarrow> eff_ret (Some (RepoErr e))
             | None \<Rightarrow> eff_bind (eff_call (\<lambda>w. gl_push gl w rs (gr_auth r)) (Pushed rs (gr_auth r)))
                 (\<lambda>e. eff_ret (wrap RepoErr e)))))"

text \<open>
  \<open>func (r *GitRepo) Branches(re string)\<close>; the list has the full and the short name of each reference,
  \<open>re_match\<close> is the compiled expression, \<open>None\<close> if it does not compile.
\<close>

definition RemoteBranches :: "git_lib \<Rightarrow> (string \<Rightarrow> bool) option \<Rightarrow> GitRepo \<Rightarrow> string list eff" where
  "RemoteBranches gl re_match r =
     eff_bind (eff_ask (gl_remote gl)) (\<lambda>e. if e \<noteq> None then eff_panic ''remote'' else
     eff_bind (eff_ask (\<lambda>w. gl_list gl w (gr_auth r))) (\<lambda>a. case a of
         Inl e \<Rightarrow> eff_panic ''list''
       | Inr refList \<Rightarrow>
           (case re_match of
              None \<Rightarrow> eff_panic ''regexp: Compile''
            | Some m \<Rightarrow> eff_ret (List.map snd (List.filter
                (\<lambda>(refName, short). prefix ''refs/heads/'' refName \<and> m (drop (length ''refs/heads/'') refName)) refList)))))"

definition CreateFile :: "git_lib \<Rightarrow> GitRepo \<Rightarrow> string \<Rightarrow> (repo_error + string) eff" where
  "CreateFile gl r path =
     (let f = filepath_join [gr_dir r, path] in
      eff_bind (eff_ask (\<lambda>w. gl_create gl w f)) (\<lambda>e. eff_ret (case e of Some e \<Rightarrow> Inl (FileErr path e) | None \<Rightarrow> Inr f)))"

definition EnableSigning :: "string option \<Rightarrow> GitRepo \<Rightarrow> repo_error + GitRepo" where
  "EnableSigning key r = (case key of Some k \<Rightarrow> Inr (r\<lparr>gr_SignKey := Some k\<rparr>) | None \<Rightarrow> Inl NilKey)"

lemmas git_defs = InitGit_def RemoveAll_def AddFile_def CurrentBranch_def Commit_def FetchBranch_def Push_def

section \<open>What each operation leaves in the log\<close>

text \<open>Only \<open>Push\<close> and \<open>DeleteRemoteBranch\<close> send anything to the remote.\<close>

definition local_event :: "event \<Rightarrow> event list \<Rightarrow> bool" where
  "local_event e l \<longleftrightarrow> (case e of Pushed _ _ _ \<Rightarrow> False | GotBranch _ _ _ _ \<Rightarrow> False | Created _ _ _ _ \<Rightarrow> False
     | Edited _ _ _ _ \<Rightarrow> False | AutoMerged _ _ \<Rightarrow> False | AskedReview _ _ _ _ _ \<Rightarrow> False | Updated _ _ _ _ \<Rightarrow> False
     | _ \<Rightarrow> True)"

lemma local_event_simps [simp]:
  "local_event (MadeDir a b) l" "local_event (Opened a c) l" "local_event (Cloned a d g b c) l" "local_event (GotWorktree c) l"
  "local_event (Fetched a b c) l" "local_event (RefSet g h c) l" "local_event (CheckedOut g c) l" "local_event (Pulled g b c) l"
  "local_event (Rendered a fs) l" "local_event (Removed a c) l" "local_event (Staged a c) l" "local_event (Committed a b c) l"
  "local_event (Printed a) l"
  "\<not> local_event (Pushed a b c) l" "\<not> local_event (Created a d np ok) l"
  by (simp_all add: local_event_def)

lemma adds_stat [adds_rules]:
  "adds P a \<Longrightarrow> (\<And>s. adds P (f s)) \<Longrightarrow> (\<And>d. adds P (g d)) \<Longrightarrow>
   adds P (case st of NotExist \<Rightarrow> a | StatErr s \<Rightarrow> f s | StatDir d \<Rightarrow> g d)"
  and adds_bool [adds_rules]: "adds P a \<Longrightarrow> adds P a' \<Longrightarrow> adds P (case b of True \<Rightarrow> a | False \<Rightarrow> a')"
  by (simp_all split: stat_reply.splits bool.splits)

lemma adds_InitGit [adds_rules]: "adds local_event (InitGit gl url branch dir tok)"
  unfolding InitGit_def Let_def by (intro adds_rules) simp_all

lemma adds_RemoveAll [adds_rules]: "adds local_event (RemoveAll gl p)"
  unfolding RemoveAll_def Let_def by (intro adds_rules) simp_all

lemma adds_AddFile [adds_rules]: "adds local_event (AddFile gl p)"
  unfolding AddFile_def Let_def by (intro adds_rules) simp_all

lemma adds_CurrentBranch [adds_rules]: "adds local_event (CurrentBranch gl)"
  unfolding CurrentBranch_def Let_def by (intro adds_rules)

lemma adds_Commit [adds_rules]: "adds local_event (Commit gl r msg)"
  unfolding Commit_def Let_def by (intro adds_rules) simp_all

lemma adds_FetchBranch [adds_rules]: "adds local_event (FetchBranch gl r b)"
  unfolding FetchBranch_def Let_def by (intro adds_rules) simp_all

lemma adds_PullBranch [adds_rules]: "adds local_event (PullBranch gl r b)"
  unfolding PullBranch_def Let_def by (intro adds_rules) simp_all

lemma adds_CreateFile [adds_rules]: "adds local_event (CreateFile gl r p)"
  unfolding CreateFile_def Let_def by (intro adds_rules)

lemma adds_RemoteBranches [adds_rules]: "adds local_event (RemoteBranches gl m r)"
  unfolding RemoteBranches_def Let_def by (intro adds_rules)

text \<open>Success of an operation, read from the log.\<close>

definition fetch_ok :: "git_error option \<Rightarrow> bool" where "fetch_ok e \<longleftrightarrow> e = None \<or> e = Some AlreadyUpToDate"

lemma FetchBranch_ok:
  assumes "FetchBranch gl r branch w = (Done None, w')"
  shows "\<exists>e. fetch_ok e \<and> w' = w\<lparr>w_log := CheckedOut (BranchRef branch) None
    # RefSet (BranchRef branch) (RemoteRef ''origin'' branch) None
    # Fetched (fetch_spec branch) (gr_auth r) e # w_log w\<rparr>"
proof -
  let ?e = "gl_fetch gl w (fetch_spec branch) (gr_auth r)"
  let ?w1 = "w\<lparr>w_log := Fetched (fetch_spec branch) (gr_auth r) ?e # w_log w\<rparr>"
  let ?f = "gl_setref gl ?w1 (BranchRef branch) (RemoteRef ''origin'' branch)"
  have e: "fetch_ok ?e"
    using assms by (cases "fetch_ok ?e") (simp_all add: FetchBranch_def Let_def eff_defs fetch_ok_def)
  have c: "(?e \<noteq> None \<and> ?e \<noteq> Some AlreadyUpToDate) = False" using e by (auto simp: fetch_ok_def)
  note run = assms [unfolded FetchBranch_def Let_def eff_bind_def eff_call_def, simplified c prod.case go.case if_False]
  have f: "?f = None"
    using run by (cases ?f) (simp_all add: eff_ret_def)
  show ?thesis
    using run e f by (intro exI [of _ ?e]) (auto simp: eff_defs wrap_def)
qed

lemma Commit_outcome:
  assumes "Commit gl r msg w = (Done res, w')"
  shows "\<exists>e. w' = w\<lparr>w_log := Committed msg (gr_SignKey r) e # w_log w\<rparr> \<and>
    (res = Some NoChanges \<longleftrightarrow> e = Some EmptyCommit) \<and> (res = None \<longrightarrow> e = None)"
  using assms unfolding Commit_def
  by (auto simp: eff_bind_Done eff_call_def eff_ret_def eff_ask_def wrap_def split: if_splits sum.splits option.splits)

lemma Push_outcome:
  assumes "Push gl r remote w = (Done res, w')"
  shows "(w' = w \<and> res \<noteq> None) \<or>
    (\<exists>local e. w' = w\<lparr>w_log := Pushed (push_spec local remote) (gr_auth r) e # w_log w\<rparr> \<and> (res = None \<longleftrightarrow> fetch_ok e))"
  using assms unfolding Push_def Let_def
  by (auto simp: eff_bind_Done eff_call_def eff_ret_def eff_ask_def wrap_def fetch_ok_def CurrentBranch_def split: if_splits option.splits)

lemma AddFile_outcome:
  assumes "AddFile gl f w = (Done res, w')"
  shows "\<exists>e. w' = w\<lparr>w_log := Staged f e # w_log w\<rparr> \<and> (e = None \<longleftrightarrow> (\<exists>h. res = Inr h))"
  using assms unfolding AddFile_def by (auto simp: eff_call_def split: sum.splits)

end
