(* ===== verification/Jira.thy ===== *)
theory Jira
  imports GoStrings
begin

text \<open>
  \<open>policy/jira.go\<close>: the text of a pull request, from the description and the children of a Jira issue.
  The answers of the Jira client are arguments.
\<close>

section \<open>The issue\<close>

text \<open>
  Values of the attributes are \<open>interface{}\<close>.  Decoding JSON into them yields strings, floats, booleans,
  nil and collections, never an \<open>int\<close>.
\<close>

datatype anyval = AnyString string | AnyInt int | AnyFloat int | AnyOther

datatype node = JiraNode
  (nd_Type: string)
  (nd_Text: string)
  (nd_Attrs: "(string, anyval) gomap")
  (nd_Content: "node list")

record child =
  ch_Summary :: string
  ch_Category :: string

record issue =
  is_Key :: string
  is_Summary :: string
  is_Description :: "node list option"
  is_IssueType :: string
  is_Subtasks :: "child list"

record JiraIssue =
  ji_Id :: string
  ji_Title :: string
  ji_Body :: string

text \<open>\<open>func NewJiraClient(email, token string) *JiraClient\<close>, for a library that makes clients and sets their credentials.\<close>

definition NewJiraClient :: "(string \<Rightarrow> string + 'c) \<Rightarrow> (string \<Rightarrow> string \<Rightarrow> 'c \<Rightarrow> 'c) \<Rightarrow> string \<Rightarrow> string \<Rightarrow> 'c go" where
  "NewJiraClient new_client set_basic_auth email tok =
     (case new_client ''https://tyktech.atlassian.net'' of
        Inl e \<Rightarrow> Fatal ''Getting Jira v3 client''
      | Inr c \<Rightarrow> Done (set_basic_auth email tok c))"

section \<open>The description\<close>

text \<open>The loop over the content of a paragraph; the type assertions panic on another type, or on nothing.\<close>

fun paragraph_text :: "node list \<Rightarrow> string go" where
  "paragraph_text [] = Done []"
| "paragraph_text (p # ps) =
     go_bind
       (if nd_Type p = ''text'' then Done (nd_Text p)
        else if nd_Type p = ''inlineCard'' then
          (case gm_get (nd_Attrs p) ''url'' of
             Some (AnyString u) \<Rightarrow> Done u
           | _ \<Rightarrow> Panic ''interface conversion: interface {} is not string'')
        else Done [])
       (\<lambda>t. go_bind (paragraph_text ps) (\<lambda>r. Done (t @ r)))"

definition heading_text :: "node list \<Rightarrow> string" where
  "heading_text cs = concat (List.map nd_Text (List.filter (\<lambda>c. nd_Type c = ''text'') cs))"

definition repeat_hash :: "int \<Rightarrow> string go" where
  "repeat_hash n = (if n < 0 then Panic ''strings: negative Repeat count'' else Done (replicate (nat n) (CHR ''#'')))"

definition content_text :: "node \<Rightarrow> string go" where
  "content_text c =
     (if nd_Type c = ''paragraph'' then
        go_bind (paragraph_text (nd_Content c)) (\<lambda>t. Done (t @ [CHR 0x0A]))
      else if nd_Type c = ''heading'' then
        (case gm_get (nd_Attrs c) ''level'' of
           Some (AnyInt n) \<Rightarrow> go_bind (repeat_hash n) (\<lambda>h. Done (h @ heading_text (nd_Content c) @ [CHR 0x0A]))
         | _ \<Rightarrow> Panic ''interface conversion: interface {} is not int'')
      else Done [])"

fun description_text :: "node list \<Rightarrow> string go" where
  "description_text [] = Done []"
| "description_text (c # cs) = go_bind (content_text c) (\<lambda>t. go_bind (description_text cs) (\<lambda>r. Done (t @ r)))"

text \<open>\<open>func getChildLines(parent []*models.IssueScheme) string\<close>\<close>

definition child_line :: "child \<Rightarrow> string" where
  "child_line c = ''- '' @ (if ch_Category c = ''Done'' then ''[x]'' else ''[ ]'') @ '' '' @ ch_Summary c @ [CHR 0x0A]"

definition getChildLines :: "child list \<Rightarrow> string" where
  "getChildLines parent = fold (\<lambda>c b. b @ child_line c) parent []"

text \<open>
  \<open>func (j *JiraClient) GetIssue(id string) (*JiraIssue, error)\<close>; the client fetches an issue, and searches
  with a query for at most 20 issues.
\<close>

definition GetIssue ::
  "(string \<Rightarrow> string + issue) \<Rightarrow> (string \<Rightarrow> nat \<Rightarrow> string + child list) \<Rightarrow> string \<Rightarrow> (string + JiraIssue) go" where
  "GetIssue get_issue search key =
     (case get_issue key of
        Inl e \<Rightarrow> Done (Inl e)
      | Inr i \<Rightarrow>
          (case is_Description i of
             None \<Rightarrow> Done (Inl ''Please add a description to the jira, it is copied to the PR to give reviewers better context'')
           | Some content \<Rightarrow>
               go_bind (description_text content) (\<lambda>b.
                 let b = (if is_IssueType i = ''Epic'' then
                            (case search (''parent = '' @ key) 20 of Inl e \<Rightarrow> b | Inr cis \<Rightarrow> b @ getChildLines cis)
                          else b);
                     b = b @ getChildLines (is_Subtasks i)
                 in Done (Inr \<lparr>ji_Id = is_Key i, ji_Title = is_Summary i, ji_Body = b\<rparr>))))"

section \<open>Properties\<close>

lemma child_lines: "getChildLines cs = concat (List.map child_line cs)"
proof -
  have "fold (\<lambda>c b. b @ child_line c) cs a = a @ concat (List.map child_line cs)" for a
    by (induction cs arbitrary: a) auto
  then show ?thesis by (simp add: getChildLines_def)
qed

text \<open>What can be printed: every card has a URL, every heading a level the code accepts.\<close>

definition printable_part :: "node \<Rightarrow> bool" where
  "printable_part p \<longleftrightarrow> (nd_Type p = ''inlineCard'' \<longrightarrow> (\<exists>u. gm_get (nd_Attrs p) ''url'' = Some (AnyString u)))"

definition printable :: "node \<Rightarrow> bool" where
  "printable c \<longleftrightarrow>
     (nd_Type c = ''paragraph'' \<longrightarrow> list_all printable_part (nd_Content c)) \<and>
     (nd_Type c = ''heading'' \<longrightarrow> (\<exists>n \<ge> 0. gm_get (nd_Attrs c) ''level'' = Some (AnyInt n)))"

lemma paragraph_text_ok: "(\<exists>t. paragraph_text ps = Done t) \<longleftrightarrow> list_all printable_part ps"
proof (induction ps)
  case (Cons p ps)
  then show ?case
    by (auto simp: go_bind_Done_iff printable_part_def split: option.splits anyval.splits)
qed simp

lemma content_text_ok: "(\<exists>t. content_text c = Done t) \<longleftrightarrow> printable c"
proof -
  consider (p) "nd_Type c = ''paragraph''" | (h) "nd_Type c = ''heading''"
    | (n) "nd_Type c \<noteq> ''paragraph''" "nd_Type c \<noteq> ''heading''" by blast
  then show ?thesis
  proof cases
    case p
    then show ?thesis by (simp add: content_text_def printable_def go_bind_Done_iff paragraph_text_ok)
  next
    case h
    then show ?thesis
      by (auto simp: content_text_def printable_def go_bind_Done_iff repeat_hash_def not_less split: option.splits anyval.splits)
  next
    case n
    then show ?thesis by (simp add: content_text_def printable_def)
  qed
qed

lemma description_text_ok: "(\<exists>t. description_text cs = Done t) \<longleftrightarrow> list_all printable cs"
  using content_text_ok by (induction cs) (auto simp: go_bind_Done_iff)

text \<open>
  The body is the text of the description, then one line per child of an epic the search found and one
  line per subtask; a failing search only leaves its lines out, and the only errors are the client's and
  a missing description.
\<close>

theorem issue_body:
  assumes "get_issue key = Inr i" "is_Description i = Some content" "description_text content = Done text"
    and "children = (if is_IssueType i = ''Epic'' then (case search (''parent = '' @ key) 20 of Inl e \<Rightarrow> [] | Inr cs \<Rightarrow> cs) else [])"
  shows "GetIssue get_issue search key = Done (Inr \<lparr>ji_Id = is_Key i, ji_Title = is_Summary i,
      ji_Body = text @ concat (List.map child_line (children @ is_Subtasks i))\<rparr>)"
proof -
  have g: "GetIssue get_issue search key =
      (let b = (if is_IssueType i = ''Epic'' then
            (case search (''parent = '' @ key) 20 of Inl e \<Rightarrow> text | Inr cis \<Rightarrow> text @ getChildLines cis) else text);
          b = b @ getChildLines (is_Subtasks i)
       in Done (Inr \<lparr>ji_Id = is_Key i, ji_Title = is_Summary i, ji_Body = b\<rparr>))"
    unfolding GetIssue_def assms(1-3) sum.case option.case go_bind.simps ..
  show ?thesis unfolding g assms(4) Let_def child_lines
    by (cases "is_IssueType i = ''Epic''"; cases "search (''parent = '' @ key) 20") simp_all
qed

lemma issue_body_witness:
  "GetIssue (\<lambda>_. Inr \<lparr>is_Key = ''TT-1'', is_Summary = ''s'', is_Description = Some [JiraNode ''paragraph'' [] [] [JiraNode ''text'' ''hi'' [] []]],
       is_IssueType = ''Epic'', is_Subtasks = [\<lparr>ch_Summary = ''b'', ch_Category = ''To Do''\<rparr>]\<rparr>)
     (\<lambda>_ _. Inr [\<lparr>ch_Summary = ''a'', ch_Category = ''Done''\<rparr>]) ''TT-1''
   = Done (Inr \<lparr>ji_Id = ''TT-1'', ji_Title = ''s'', ji_Body = ''hi\<newline>- [x] a\<newline>- [ ] b\<newline>''\<rparr>)"
proof -
  have d: "description_text [JiraNode ''paragraph'' [] [] [JiraNode ''text'' ''hi'' [] []]] = Done ''hi\<newline>''" by code_simp
  show ?thesis by (subst issue_body [OF refl _ d refl]) (simp_all add: child_line_def)
qed

text \<open>
  Fetching never ends in a panic exactly when every card has a URL and every heading a level that is an
  \<open>int\<close>; as JSON numbers decode to floats, an issue read from Jira whose description has a heading
  always panics.
\<close>

theorem headings_panic:
  assumes "get_issue key = Inr i" "is_Description i = Some content"
  shows "((\<exists>r. GetIssue get_issue search key = Done r) \<longleftrightarrow> list_all printable content) \<and>
    ((\<exists>c \<in> set content. nd_Type c = ''heading'' \<and> (\<forall>n. gm_get (nd_Attrs c) ''level'' \<noteq> Some (AnyInt n)))
      \<longrightarrow> (\<forall>r. GetIssue get_issue search key \<noteq> Done r))"
proof -
  have "(\<exists>r. GetIssue get_issue search key = Done r) \<longleftrightarrow> (\<exists>t. description_text content = Done t)"
    using assms by (auto simp: GetIssue_def go_bind_Done_iff Let_def)
  then have ok: "(\<exists>r. GetIssue get_issue search key = Done r) \<longleftrightarrow> list_all printable content"
    by (simp only: description_text_ok)
  moreover have "\<not> list_all printable content"
    if "\<exists>c \<in> set content. nd_Type c = ''heading'' \<and> (\<forall>n. gm_get (nd_Attrs c) ''level'' \<noteq> Some (AnyInt n))"
    using that by (auto simp: list_all_iff printable_def)
  ultimately show ?thesis by blast
qed

lemma headings_panic_witness:
  "\<forall>r. GetIssue (\<lambda>_. Inr \<lparr>is_Key = ''TT-1'', is_Summary = ''s'',
       is_Description = Some [JiraNode ''heading'' [] [(''level'', AnyFloat 2)] [JiraNode ''text'' ''hi'' [] []]],
       is_IssueType = ''Story'', is_Subtasks = []\<rparr>) (\<lambda>_ _. Inr []) ''TT-1'' \<noteq> Done r"
  (is "\<forall>r. GetIssue (\<lambda>_. Inr ?i) _ _ \<noteq> _")
  using headings_panic [of "\<lambda>_. Inr ?i" "''TT-1''" ?i "[JiraNode ''heading'' [] [(''level'', AnyFloat 2)] [JiraNode ''text'' ''hi'' [] []]]"]
  by simp

end
