(* ===== verification/Github.thy ===== *)
theory Github
  imports World Jira
begin

text \<open>
  \<open>policy/github.go\<close>: pull requests.  The GitHub client is the fields of \<open>gh_lib\<close>; each call that changes
  something on GitHub is an event of the log.
\<close>

section \<open>The client\<close>

record pull =
  pl_Number :: nat
  pl_NodeID :: string
  pl_HTMLURL :: string
  pl_Title :: string
  pl_Body :: string
  pl_State :: string

text \<open>A reply is a value, an error with a response, or an error without one.\<close>

datatype 'a api = ApiOk 'a | ApiErr gh_error | ApiDown gh_error

fun api_result :: "'a api \<Rightarrow> gh_error + 'a" where
  "api_result (ApiOk a) = Inr a"
| "api_result (ApiErr e) = Inl e"
| "api_result (ApiDown e) = Inl e"

fun api_ok :: "'a api \<Rightarrow> bool" where
  "api_ok (ApiOk a) = True"
| "api_ok _ = False"

record gh_lib =
  gb_branch :: "world \<Rightarrow> string \<Rightarrow> string \<Rightarrow> string \<Rightarrow> gh_error option"
  gb_create :: "world \<Rightarrow> string \<Rightarrow> string \<Rightarrow> newPR \<Rightarrow> pull api"
  gb_list :: "world \<Rightarrow> string \<Rightarrow> string \<Rightarrow> string \<Rightarrow> string \<Rightarrow> pull list api"
  gb_edit :: "world \<Rightarrow> string \<Rightarrow> string \<Rightarrow> nat \<Rightarrow> pull \<Rightarrow> pull api"
  gb_automerge :: "world \<Rightarrow> string \<Rightarrow> gh_error option"
  gb_reviewers :: "world \<Rightarrow> string \<Rightarrow> string \<Rightarrow> nat \<Rightarrow> string list \<Rightarrow> unit api"
  gb_update :: "world \<Rightarrow> string \<Rightarrow> string \<Rightarrow> nat \<Rightarrow> gh_error option"
  gb_start :: "world \<Rightarrow> string \<Rightarrow> string list \<Rightarrow> string option"

record PullRequest =
  pq_Jira :: JiraIssue
  pq_BaseBranch :: string
  pq_PrBranch :: string
  pq_Owner :: string
  pq_Repo :: string
  pq_AutoMerge :: bool
  pq_Reviewers :: "string list"

datatype pr_error =
    NoPRs
  | TemplateErr string
  | CreateErr string string gh_error
  | PossibleBug
  | FetchPrErr string string pr_error
  | EditErr string string
  | ListErr gh_error
  | ApiFailed gh_error
  | StartErr string

section \<open>Operations\<close>

text \<open>Parsing the template fails with a panic (\<open>template.Must\<close>), executing it with an error.\<close>

definition RenderPRTemplate ::
  "(string \<Rightarrow> 't option) \<Rightarrow> ('t \<Rightarrow> string + string) \<Rightarrow> string \<Rightarrow> (string + string) go" where
  "RenderPRTemplate parse exec body = (case parse body of None \<Rightarrow> Panic ''template'' | Some t \<Rightarrow> Done (exec t))"

definition getPR :: "gh_lib \<Rightarrow> PullRequest \<Rightarrow> (pr_error + pull) eff" where
  "getPR gh o' =
     eff_bind (eff_ask (\<lambda>w. gb_list gh w (pq_Owner o') (pq_Repo o') (pq_BaseBranch o') (pq_Owner o' @ '':'' @ pq_PrBranch o')))
       (\<lambda>a. eff_ret (case api_result a of Inl e \<Rightarrow> Inl (ListErr e)
          | Inr prs \<Rightarrow> (case prs of pr # _ \<Rightarrow> Inr pr | [] \<Rightarrow> Inl NoPRs)))"

definition EnableAutoMerge :: "gh_lib \<Rightarrow> string \<Rightarrow> gh_error option eff" where
  "EnableAutoMerge gh prID = eff_call (\<lambda>w. gb_automerge gh w prID) (\<lambda>e. AutoMerged prID (e = None))"

definition already_exists :: "pull api \<Rightarrow> bool" where
  "already_exists a = (case api_result a of
     Inl (ErrorResponse msgs) \<Rightarrow> list_ex (prefix ''A pull request already exists'') msgs
   | _ \<Rightarrow> False)"

text \<open>Updating the text of the pull request found.\<close>

definition edit_existing :: "gh_lib \<Rightarrow> PullRequest \<Rightarrow> newPR \<Rightarrow> (pr_error + pull) eff" where
  "edit_existing gh o' np =
     eff_bind (getPR gh o') (\<lambda>r. case r of
         Inl e \<Rightarrow> eff_ret (Inl (if e = NoPRs then PossibleBug else FetchPrErr (pq_Repo o') (pq_BaseBranch o') e))
       | Inr pr \<Rightarrow>
           (let pr = pr\<lparr>pl_Title := np_Title np, pl_Body := np_Body np\<rparr> in
            eff_bind (eff_call (\<lambda>w. gb_edit gh w (pq_Owner o') (pq_Repo o') (pl_Number pr) pr)
                (\<lambda>a. Edited (pq_Owner o') (pq_Repo o') (pl_Number pr) (api_ok a)))
              (\<lambda>a. case a of
                 ApiDown e \<Rightarrow> eff_panic ''nil pointer dereference''
               | ApiErr e \<Rightarrow> eff_ret (Inl (EditErr (pq_Owner o') (pq_Repo o')))
               | ApiOk _ \<Rightarrow> eff_ret (Inr pr))))"

text \<open>Auto-merge and reviewers; their errors are logged only.\<close>

definition finish_pr :: "gh_lib \<Rightarrow> PullRequest \<Rightarrow> pull \<Rightarrow> (pr_error + pull) eff" where
  "finish_pr gh o' pr =
     eff_bind (if pq_AutoMerge o' then EnableAutoMerge gh (pl_NodeID pr) else eff_ret None) (\<lambda>_.
     if pq_Reviewers o' = [] then eff_ret (Inr pr)
     else eff_bind (eff_call (\<lambda>w. gb_reviewers gh w (pq_Owner o') (pq_Repo o') (pl_Number pr) (pq_Reviewers o'))
            (\<lambda>a. AskedReview (pq_Owner o') (pq_Repo o') (pl_Number pr) (pq_Reviewers o') (api_ok a)))
          (\<lambda>a. case a of ApiDown e \<Rightarrow> eff_panic ''nil pointer dereference'' | _ \<Rightarrow> eff_ret (Inr pr)))"

text \<open>Creating it, or finding and editing the one that exists.\<close>

definition submit_pr :: "gh_lib \<Rightarrow> PullRequest \<Rightarrow> newPR \<Rightarrow> (pr_error + pull) eff" where
  "submit_pr gh o' np =
     eff_bind (eff_call (\<lambda>w. gb_create gh w (pq_Owner o') (pq_Repo o') np)
         (\<lambda>a. Created (pq_Owner o') (pq_Repo o') np (api_ok a))) (\<lambda>a.
       case api_result a of
         Inr pr \<Rightarrow> finish_pr gh o' pr
       | Inl e \<Rightarrow>
           if \<not> already_exists a then eff_ret (Inl (CreateErr (pq_Repo o') (pq_BaseBranch o') e))
           else eff_bind (edit_existing gh o' np) (\<lambda>r. case r of
               Inl e \<Rightarrow> eff_ret (Inl e)
             | Inr pr \<Rightarrow> finish_pr gh o' pr))"

text \<open>\<open>func (gh *GithubClient) CreatePR(bv any, prOpts *PullRequest)\<close>; \<open>render\<close> is \<open>RenderPRTemplate\<close> on \<open>bv\<close>.\<close>

definition pr_title :: "PullRequest \<Rightarrow> string \<Rightarrow> string" where
  "pr_title o' title = ''['' @ ji_Id (pq_Jira o') @ '' '' @ pq_BaseBranch o' @ ''] '' @ title"

definition CreatePR :: "gh_lib \<Rightarrow> (string \<Rightarrow> (string + string) go) \<Rightarrow> PullRequest \<Rightarrow> (pr_error + pull) eff" where
  "CreatePR gh render o' =
     eff_bind (eff_call (\<lambda>w. gb_branch gh w (pq_Owner o') (pq_Repo o') (pq_PrBranch o'))
         (\<lambda>e. GotBranch (pq_Owner o') (pq_Repo o') (pq_PrBranch o') (e = None))) (\<lambda>e.
     if e \<noteq> None then eff_ret (Inl NoPRs) else
     eff_bind (eff_go (render (ji_Body (pq_Jira o')))) (\<lambda>body. case body of
         Inl e \<Rightarrow> eff_ret (Inl (TemplateErr e))
       | Inr body \<Rightarrow>
     eff_bind (eff_go (render (ji_Title (pq_Jira o')))) (\<lambda>title. case title of
         Inl e \<Rightarrow> eff_ret (Inl (TemplateErr e))
       | Inr title \<Rightarrow>
     submit_pr gh o' \<lparr>np_Title = pr_title o' title, np_Head = pq_PrBranch o', np_Base = pq_BaseBranch o',
         np_Body = body, np_Draft = False\<rparr>)))"

definition ClosePR :: "gh_lib \<Rightarrow> PullRequest \<Rightarrow> pr_error option eff" where
  "ClosePR gh o' =
     eff_bind (getPR gh o') (\<lambda>r. case r of
         Inl e \<Rightarrow> eff_ret (if e = NoPRs then None else Some e)
       | Inr pr \<Rightarrow>
           eff_bind (eff_call (\<lambda>w. gb_edit gh w (pq_Owner o') (pq_Repo o') (pl_Number pr) (pr\<lparr>pl_State := ''closed''\<rparr>))
               (\<lambda>a. Edited (pq_Owner o') (pq_Repo o') (pl_Number pr) (api_ok a)))
             (\<lambda>a. case a of ApiOk _ \<Rightarrow> eff_ret None | _ \<Rightarrow> eff_panic ''nil pointer dereference''))"

text \<open>The loop of \<open>UpdatePrBranch\<close>, with the attempts left.\<close>

fun update_again :: "gh_lib \<Rightarrow> PullRequest \<Rightarrow> nat \<Rightarrow> nat \<Rightarrow> gh_error option eff" where
  "update_again gh o' num attempts =
     eff_bind (eff_call (\<lambda>w. gb_update gh w (pq_Owner o') (pq_Repo o') num) (Updated (pq_Owner o') (pq_Repo o') num)) (\<lambda>err.
       case attempts of
         Suc n \<Rightarrow> if err \<noteq> Some AcceptedError then update_again gh o' num n else eff_ret err
       | 0 \<Rightarrow> eff_ret err)"

declare update_again.simps [simp del]

definition UpdatePrBranch :: "gh_lib \<Rightarrow> PullRequest \<Rightarrow> pr_error option eff" where
  "UpdatePrBranch gh o' =
     eff_bind (getPR gh o') (\<lambda>r. case r of
         Inl e \<Rightarrow> eff_ret (if e = NoPRs then None else Some e)
       | Inr pr \<Rightarrow> eff_bind (update_again gh o' (pl_Number pr) 3) (\<lambda>e. eff_ret (map_option ApiFailed e)))"

text \<open>\<open>func openInBrowser(url string) error\<close>, for the value of \<open>runtime.GOOS\<close>.\<close>

definition openInBrowser :: "gh_lib \<Rightarrow> string \<Rightarrow> string \<Rightarrow> string option eff" where
  "openInBrowser gh goos url =
     (let (cmd, args) = (if goos = ''windows'' then (''cmd'', [''/c'', ''start''])
            else if goos = ''darwin'' then (''open'', []) else (''xdg-open'', []))
      in eff_call (\<lambda>w. gb_start gh w cmd (args @ [url])) (\<lambda>e. Executed cmd (args @ [url]) (e = None)))"

definition Open :: "gh_lib \<Rightarrow> string \<Rightarrow> PullRequest \<Rightarrow> pr_error option eff" where
  "Open gh goos o' =
     eff_bind (getPR gh o') (\<lambda>r. case r of
         Inl e \<Rightarrow> eff_ret (Some e)
       | Inr pr \<Rightarrow> eff_bind (openInBrowser gh goos (pl_HTMLURL pr)) (\<lambda>e. eff_ret (map_option StartErr e)))"

section \<open>What each operation leaves in the log\<close>

text \<open>The events of one pull request: all on its repository, for its branches.\<close>

fun pr_event :: "PullRequest \<Rightarrow> event \<Rightarrow> event list \<Rightarrow> bool" where
  "pr_event q (GotBranch ow re br ok) l \<longleftrightarrow> ow = pq_Owner q \<and> re = pq_Repo q \<and> br = pq_PrBranch q"
| "pr_event q (Created ow re np ok) l \<longleftrightarrow> ow = pq_Owner q \<and> re = pq_Repo q \<and>
     np_Head np = pq_PrBranch q \<and> np_Base np = pq_BaseBranch q \<and>
     GotBranch ow re (np_Head np) True \<in> set l"
| "pr_event q (Edited ow re n ok) l \<longleftrightarrow> ow = pq_Owner q \<and> re = pq_Repo q"
| "pr_event q (AskedReview ow re n rs ok) l \<longleftrightarrow> ow = pq_Owner q \<and> re = pq_Repo q"
| "pr_event q (AutoMerged pid ok) l \<longleftrightarrow> pq_AutoMerge q"
| "pr_event q e l \<longleftrightarrow> False"

lemma adds_api [adds_rules]:
  "(\<And>x. adds P (f x)) \<Longrightarrow> (\<And>e. adds P (g e)) \<Longrightarrow> (\<And>e. adds P (h e)) \<Longrightarrow>
   adds P (case a of ApiOk x \<Rightarrow> f x | ApiErr e \<Rightarrow> g e | ApiDown e \<Rightarrow> h e)"
  by (cases a) simp_all

lemma adds_getPR [adds_rules]: "adds P (getPR gh q)"
  unfolding getPR_def by (intro adds_rules)

lemma adds_finish [adds_rules]: "adds (pr_event q) (finish_pr gh q pr)"
proof -
  have "adds (pr_event q) (if pq_AutoMerge q then EnableAutoMerge gh (pl_NodeID pr) else eff_ret None)"
    unfolding EnableAutoMerge_def by (simp add: adds_rules)
  then show ?thesis unfolding finish_pr_def
    by (rule adds_bind) (intro adds_rules; simp)
qed

lemma adds_edit [adds_rules]: "adds (pr_event q) (edit_existing gh q np)"
  unfolding edit_existing_def Let_def by (intro adds_rules) simp_all

lemma adds_submit:
  assumes "np_Head np = pq_PrBranch q" "np_Base np = pq_BaseBranch q"
  shows "adds_after {GotBranch (pq_Owner q) (pq_Repo q) (pq_PrBranch q) True} (pr_event q) (submit_pr gh q np)"
  unfolding submit_pr_def
proof (rule adds_after_bind)
  show "adds_after {GotBranch (pq_Owner q) (pq_Repo q) (pq_PrBranch q) True} (pr_event q)
     (eff_call (\<lambda>w. gb_create gh w (pq_Owner q) (pq_Repo q) np) (\<lambda>a. Created (pq_Owner q) (pq_Repo q) np (api_ok a)))"
    using assms by (auto simp: adds_after_def eff_call_def intro!: exI [of _ "[_]"])
qed (intro adds_after_weaken adds_rules)

lemma adds_CreatePR: "adds (pr_event q) (CreatePR gh render q)"
proof -
  let ?got = "\<lambda>e. GotBranch (pq_Owner q) (pq_Repo q) (pq_PrBranch q) (e = None)"
  have "adds_after (insert (?got e) {}) (pr_event q)
     (if e \<noteq> None then eff_ret (Inl NoPRs) else
          eff_bind (eff_go (render (ji_Body (pq_Jira q)))) (\<lambda>body. case body of
              Inl e \<Rightarrow> eff_ret (Inl (TemplateErr e))
            | Inr body \<Rightarrow> eff_bind (eff_go (render (ji_Title (pq_Jira q)))) (\<lambda>title. case title of
              Inl e \<Rightarrow> eff_ret (Inl (TemplateErr e))
            | Inr title \<Rightarrow> submit_pr gh q \<lparr>np_Title = pr_title q title, np_Head = pq_PrBranch q,
                np_Base = pq_BaseBranch q, np_Body = body, np_Draft = False\<rparr>)))" for e :: "gh_error option"
  proof (cases e)
    case (Some x)
    then show ?thesis by (simp add: adds_after_weaken adds_rules)
  next
    case None
    show ?thesis unfolding None
      by (simp only: simp_thms if_False)
        (intro adds_after_bind adds_after_sum adds_submit newPR.simps; intro adds_after_weaken adds_rules)
  qed
  then have "adds_after {} (pr_event q) (CreatePR gh render q)"
    unfolding CreatePR_def by (intro adds_after_call) simp_all
  then show ?thesis by (simp only: adds_after_none)
qed

lemma submit_success:
  assumes "submit_pr gh q np w = (Done (Inr pr), w')"
  shows "\<exists>es. w_log w' = es @ w_log w \<and> (Created (pq_Owner q) (pq_Repo q) np True \<in> set es \<or>
    (\<exists>n. Created (pq_Owner q) (pq_Repo q) np False \<in> set es \<and> Edited (pq_Owner q) (pq_Repo q) n True \<in> set es))"
proof -
  define a where "a = gb_create gh w (pq_Owner q) (pq_Repo q) np"
  let ?c = "Created (pq_Owner q) (pq_Repo q) np"
  let ?w1 = "w\<lparr>w_log := ?c (api_ok a) # w_log w\<rparr>"
  have grow: "\<exists>es. w_log w2 = es @ w_log v" if "finish_pr gh q x v = (r, w2)" for x v r w2
    using addsD [OF adds_finish that] by blast
  show ?thesis
  proof (cases "api_result a")
    case (Inr x)
    then have "finish_pr gh q x ?w1 = (Done (Inr pr), w')" and "api_ok a"
      using assms by (cases a; simp add: submit_pr_def eff_bind_def eff_call_def a_def [symmetric])+
    with grow [of x ?w1] show ?thesis by fastforce
  next
    case (Inl e)
    then have n: "\<not> api_ok a" and x: "already_exists a"
      using assms by (cases a; auto simp: submit_pr_def eff_defs a_def [symmetric] split: if_splits)+
    then obtain y w2 where e: "edit_existing gh q np ?w1 = (Done (Inr y), w2)" and f: "finish_pr gh q y w2 = (Done (Inr pr), w')"
      using assms Inl
      by (auto simp: submit_pr_def eff_bind_def eff_call_def eff_ret_def a_def [symmetric] split: prod.splits go.splits sum.splits)
    from e have "\<exists>n. w_log w2 = Edited (pq_Owner q) (pq_Repo q) n True # w_log ?w1"
      by (auto simp: edit_existing_def getPR_def eff_defs Let_def split: sum.splits api.splits if_splits list.splits)
    with n grow [OF f] show ?thesis by auto
  qed
qed

lemma create_submits:
  assumes "CreatePR gh render q w = (Done (Inr pr), w')"
  shows "\<exists>np v. submit_pr gh q np v = (Done (Inr pr), w') \<and>
    w_log v = GotBranch (pq_Owner q) (pq_Repo q) (pq_PrBranch q) True # w_log w"
proof -
  define e where "e = gb_branch gh w (pq_Owner q) (pq_Repo q) (pq_PrBranch q)"
  have e: "e = None" using assms by (cases e) (simp_all add: CreatePR_def eff_defs e_def [symmetric])
  let ?v = "w\<lparr>w_log := GotBranch (pq_Owner q) (pq_Repo q) (pq_PrBranch q) True # w_log w\<rparr>"
  obtain body title where b: "render (ji_Body (pq_Jira q)) = Done (Inr body)" "render (ji_Title (pq_Jira q)) = Done (Inr title)"
    using assms e by (auto simp: CreatePR_def eff_defs e_def [symmetric] split: go.splits sum.splits)
  then have "submit_pr gh q \<lparr>np_Title = pr_title q title, np_Head = pq_PrBranch q, np_Base = pq_BaseBranch q,
      np_Body = body, np_Draft = False\<rparr> ?v = (Done (Inr pr), w')"
    using assms e by (simp add: CreatePR_def eff_bind_def eff_call_def eff_go_def e_def [symmetric])
  then show ?thesis by (intro exI conjI) (assumption, simp)
qed

lemma update_again_log:
  "\<exists>err es. update_again gh q num n w = (Done err, w\<lparr>w_log := es @ w_log w\<rparr>) \<and>
     (\<exists>older. es = Updated (pq_Owner q) (pq_Repo q) num err # older \<and> length older \<le> n \<and>
       (length older = n \<or> err = Some AcceptedError) \<and>
       (\<forall>e \<in> set older. \<exists>r. e = Updated (pq_Owner q) (pq_Repo q) num r \<and> r \<noteq> Some AcceptedError))"
proof (induction n arbitrary: w)
  case 0
  then show ?case by (subst update_again.simps) (simp add: eff_defs)
next
  case (Suc n)
  define r where "r = gb_update gh w (pq_Owner q) (pq_Repo q) num"
  let ?u = "Updated (pq_Owner q) (pq_Repo q) num"
  let ?w1 = "w\<lparr>w_log := ?u r # w_log w\<rparr>"
  show ?case
  proof (cases "r = Some AcceptedError")
    case True
    then have "update_again gh q num (Suc n) w = (Done r, ?w1)"
      by (subst update_again.simps) (simp add: eff_defs r_def)
    with True show ?thesis by (intro exI [of _ r] exI [of _ "[?u r]"]) simp
  next
    case False
    then have u: "update_again gh q num (Suc n) w = update_again gh q num n ?w1"
      by (subst update_again.simps) (simp add: eff_bind_def eff_call_def r_def)
    obtain err older where n: "update_again gh q num n ?w1 = (Done err, ?w1\<lparr>w_log := (?u err # older) @ w_log ?w1\<rparr>)"
      "length older \<le> n" "length older = n \<or> err = Some AcceptedError"
      "\<forall>e \<in> set older. \<exists>r. e = ?u r \<and> r \<noteq> Some AcceptedError"
      using Suc [of ?w1] by blast
    show ?thesis
      using False n by (intro exI [of _ err] exI [of _ "?u err # older @ [?u r]"]) (auto simp: u)
  qed
qed

section \<open>Properties\<close>

text \<open>
  (C31) Updating the branch of a pull request takes at most four requests, all for that request; it stops
  early only when GitHub answers that the update was accepted, which it returns as a failure, so an update
  that succeeds is requested all four times.
\<close>

theorem update_retries:
  assumes "getPR gh q w = (Done (Inr pr), w1)"
  shows "\<exists>err older. UpdatePrBranch gh q w =
      (Done (map_option ApiFailed err), w1\<lparr>w_log := Updated (pq_Owner q) (pq_Repo q) (pl_Number pr) err # older @ w_log w1\<rparr>) \<and>
    length older \<le> 3 \<and> (err \<noteq> Some AcceptedError \<longrightarrow> length older = 3) \<and>
    (\<forall>e \<in> set older. \<exists>r. e = Updated (pq_Owner q) (pq_Repo q) (pl_Number pr) r \<and> r \<noteq> Some AcceptedError)"
proof -
  obtain err older where u: "update_again gh q (pl_Number pr) 3 w1
      = (Done err, w1\<lparr>w_log := (Updated (pq_Owner q) (pq_Repo q) (pl_Number pr) err # older) @ w_log w1\<rparr>)"
    "length older \<le> 3" "length older = 3 \<or> err = Some AcceptedError"
    "\<forall>e \<in> set older. \<exists>r. e = Updated (pq_Owner q) (pq_Repo q) (pl_Number pr) r \<and> r \<noteq> Some AcceptedError"
    using update_again_log [of gh q "pl_Number pr" 3 w1] by blast
  then show ?thesis
    using assms by (intro exI [of _ err] exI [of _ older]) (auto simp: UpdatePrBranch_def eff_bind_def eff_ret_def)
qed

text \<open>A client for which everything succeeds, and a request.\<close>

definition sample_pull :: pull where
  "sample_pull = \<lparr>pl_Number = 7, pl_NodeID = ''n7'', pl_HTMLURL = ''u/7'', pl_Title = [], pl_Body = [], pl_State = ''open''\<rparr>"

definition sample_gh :: gh_lib where
  "sample_gh = \<lparr>gb_branch = (\<lambda>_ _ _ _. None), gb_create = (\<lambda>_ _ _ _. ApiOk sample_pull), gb_list = (\<lambda>_ _ _ _ _. ApiOk [sample_pull]),
     gb_edit = (\<lambda>_ _ _ _ p. ApiOk p), gb_automerge = (\<lambda>_ _. None), gb_reviewers = (\<lambda>_ _ _ _ _. ApiOk ()),
     gb_update = (\<lambda>_ _ _ _. None), gb_start = (\<lambda>_ _ _. None)\<rparr>"

definition sample_request :: PullRequest where
  "sample_request = \<lparr>pq_Jira = \<lparr>ji_Id = ''TT-1'', ji_Title = ''t'', ji_Body = ''b''\<rparr>, pq_BaseBranch = ''master'',
     pq_PrBranch = ''releng/master'', pq_Owner = ''o'', pq_Repo = ''r'', pq_AutoMerge = True, pq_Reviewers = []\<rparr>"

definition empty_world :: world where
  "empty_world = \<lparr>w_log = [], w_disk = \<lparr>dk_files = [], dk_exec = []\<rparr>\<rparr>"

lemma update_retries_witness:
  "\<exists>err w'. UpdatePrBranch sample_gh sample_request empty_world = (Done err, w') \<and> length (w_log w') \<le> 4"
proof -
  have g: "getPR sample_gh sample_request empty_world = (Done (Inr sample_pull), empty_world)"
    by (simp add: getPR_def eff_defs sample_gh_def)
  obtain err older where "UpdatePrBranch sample_gh sample_request empty_world = (Done (map_option ApiFailed err),
      empty_world\<lparr>w_log := Updated (pq_Owner sample_request) (pq_Repo sample_request) (pl_Number sample_pull) err # older @ w_log empty_world\<rparr>)"
    "length older \<le> 3"
    using update_retries [OF g] by blast
  then show ?thesis by (simp add: empty_world_def)
qed

text \<open>
  (C13) Whatever GitHub answers, creating a pull request only touches the repository and branches of the
  request and creates one only after its branch was found; when it returns a pull request, it was either
  created, or GitHub said it already exists and the existing one got the new text.
\<close>

theorem create_pr_effect:
  assumes "CreatePR gh render q w = (r, w')"
  shows "\<exists>es. w_log w' = es @ w_log w \<and> grown (pr_event q) es (w_log w) \<and>
    (\<forall>pr. r = Done (Inr pr) \<longrightarrow>
       (\<exists>np. Created (pq_Owner q) (pq_Repo q) np True \<in> set es) \<or>
       (\<exists>np n. Created (pq_Owner q) (pq_Repo q) np False \<in> set es \<and> Edited (pq_Owner q) (pq_Repo q) n True \<in> set es))"
proof -
  obtain es where es: "w_log w' = es @ w_log w" "grown (pr_event q) es (w_log w)"
    using addsD [OF adds_CreatePR assms] by blast
  have "(\<exists>np. Created (pq_Owner q) (pq_Repo q) np True \<in> set es) \<or>
       (\<exists>np n. Created (pq_Owner q) (pq_Repo q) np False \<in> set es \<and> Edited (pq_Owner q) (pq_Repo q) n True \<in> set es)"
    if r: "r = Done (Inr pr)" for pr
  proof -
    obtain np v where s: "submit_pr gh q np v = (Done (Inr pr), w')"
      and v: "w_log v = GotBranch (pq_Owner q) (pq_Repo q) (pq_PrBranch q) True # w_log w"
      using create_submits [OF assms [unfolded r]] by blast
    from submit_success [OF s] obtain ds where "w_log w' = ds @ w_log v"
      and d: "Created (pq_Owner q) (pq_Repo q) np True \<in> set ds \<or>
        (\<exists>n. Created (pq_Owner q) (pq_Repo q) np False \<in> set ds \<and> Edited (pq_Owner q) (pq_Repo q) n True \<in> set ds)" by blast
    with es(1) v have "es = ds @ [GotBranch (pq_Owner q) (pq_Repo q) (pq_PrBranch q) True]" by simp
    with d show ?thesis by auto
  qed
  with es show ?thesis by blast
qed

lemma create_pr_witness:
  "\<exists>pr w'. CreatePR sample_gh (\<lambda>t. Done (Inr t)) sample_request empty_world = (Done (Inr pr), w') \<and>
     (\<exists>np. Created ''o'' ''r'' np True \<in> set (w_log w'))"
proof -
  obtain r w' where run: "CreatePR sample_gh (\<lambda>t. Done (Inr t)) sample_request empty_world = (r, w')" by force
  have ok: "r = Done (Inr sample_pull)" and no_edit: "list_all (\<lambda>e. case e of Created _ _ _ ok \<Rightarrow> ok | _ \<Rightarrow> True) (w_log w')"
    using run by (auto simp: CreatePR_def submit_pr_def finish_pr_def EnableAutoMerge_def eff_defs sample_gh_def sample_request_def empty_world_def)
  from create_pr_effect [OF run] ok no_edit show ?thesis
    unfolding run by (fastforce simp: empty_world_def sample_request_def list_all_iff)
qed

text \<open>
  Closing is idempotent on what is not there: without a matching pull request nothing is sent and there
  is no error; otherwise exactly the first match is edited to \<open>closed\<close>, and when that edit fails the
  command panics on the missing reply instead of returning the error.
\<close>

theorem close_pr_effect:
  "ClosePR gh q w = (case gb_list gh w (pq_Owner q) (pq_Repo q) (pq_BaseBranch q) (pq_Owner q @ '':'' @ pq_PrBranch q) of
     ApiOk [] \<Rightarrow> (Done None, w)
   | ApiOk (pr # prs) \<Rightarrow>
       (let a = gb_edit gh w (pq_Owner q) (pq_Repo q) (pl_Number pr) (pr\<lparr>pl_State := ''closed''\<rparr>) in
        (if api_ok a then Done None else Panic ''nil pointer dereference'',
         w\<lparr>w_log := Edited (pq_Owner q) (pq_Repo q) (pl_Number pr) (api_ok a) # w_log w\<rparr>))
   | ApiErr e \<Rightarrow> (Done (Some (ListErr e)), w)
   | ApiDown e \<Rightarrow> (Done (Some (ListErr e)), w))"
  by (auto simp: ClosePR_def getPR_def eff_defs Let_def split: api.splits list.splits)

end
