(* ===== verification/Sync.thy ===== *)
theory Sync
  imports PolicyConfig Git Github
begin

text \<open>
  \<open>RepoPolicy.ProcessBranch\<close> (\<open>policy/policy.go\<close>) and the commands that use it and the pull requests:
  \<open>policy sync\<close> (\<open>cmd/policy.go\<close>) and \<open>prs\<close> (\<open>cmd/prs.go\<close>).  Bundles and rendering are those of the
  bundle theories, the configuration is that of \<open>PolicyConfig\<close>.
\<close>

section \<open>One branch\<close>

record PushOptions =
  po_OpDir :: string
  po_Branch :: string
  po_RemoteBranch :: string
  po_CommitMsg :: string
  po_Repo :: GitRepo

datatype process_error =
    ErrNoChanges
  | CheckoutErr repo_error
  | NoSuchBranch string
  | BundleGenErr render_error
  | StagingErr git_error
  | CommitErr repo_error
  | GitPushErr repo_error

text \<open>\<open>func removeDeletedFiles(opDir string, repo *GitRepo, deletedFiles []string)\<close>\<close>

definition remove_deleted :: "git_lib \<Rightarrow> string \<Rightarrow> string \<Rightarrow> unit eff" where
  "remove_deleted gl opDir f =
     eff_bind (eff_ask (\<lambda>w. gl_stat gl w (filepath_join [opDir, f]))) (\<lambda>st. case st of
         NotExist \<Rightarrow> eff_ret ()
       | StatErr e \<Rightarrow> eff_ret ()
       | StatDir isDir \<Rightarrow> eff_bind (RemoveAll gl (if isDir then f @ ''/*'' else f)) (\<lambda>_. eff_ret ()))"

definition removeDeletedFiles :: "git_lib \<Rightarrow> string \<Rightarrow> string list \<Rightarrow> unit eff" where
  "removeDeletedFiles gl opDir deletedFiles = eff_each (remove_deleted gl opDir) deletedFiles"

text \<open>Rendering changes the disk.\<close>

definition eff_render :: "('t, 'y) render_env \<Rightarrow> string \<Rightarrow> 't Bundle \<Rightarrow> (render_error + string list) eff" where
  "eff_render env opDir b w =
     (case RenderBundle env opDir b (w_disk w) of
        Done (r, d) \<Rightarrow> (Done r, w\<lparr>w_disk := d,
          w_log := Rendered opDir (case r of Inl e \<Rightarrow> [] | Inr fs \<Rightarrow> fs) # w_log w\<rparr>)
      | Panic s \<Rightarrow> (Panic s, w)
      | Fatal s \<Rightarrow> (Fatal s, w))"

definition stage_file :: "git_lib \<Rightarrow> string \<Rightarrow> process_error option eff" where
  "stage_file gl f = eff_bind (AddFile gl f) (\<lambda>r. eff_ret (case r of Inl e \<Rightarrow> Some (StagingErr e) | Inr h \<Rightarrow> None))"

text \<open>
  The first half of \<open>ProcessBranch\<close>, up to the staging of the files, which also selects the branch in
  \<open>rp\<close>; \<open>bundle\<close> is \<open>NewBundle\<close> on the embedded templates, \<open>renv\<close> the environment of the templates
  for a policy.
\<close>

definition prepare_branch ::
  "git_lib \<Rightarrow> (string list \<Rightarrow> 't Bundle go) \<Rightarrow> (RepoPolicy \<Rightarrow> ('t, 'y) render_env) \<Rightarrow> RepoPolicy \<Rightarrow> PushOptions
     \<Rightarrow> (process_error option \<times> RepoPolicy) eff" where
  "prepare_branch gl bundle renv rp po =
     eff_bind (FetchBranch gl (po_Repo po) (po_Branch po)) (\<lambda>e. case e of
         Some e \<Rightarrow> eff_ret (Some (CheckoutErr e), rp)
       | None \<Rightarrow>
     (case SetBranch (po_Branch po) rp of
         None \<Rightarrow> eff_ret (Some (NoSuchBranch (po_Branch po)), rp)
       | Some rp \<Rightarrow>
     eff_bind (eff_go (bundle (bv_Features (rp_Branchvals rp)))) (\<lambda>b.
     eff_bind (eff_render (renv rp) (po_OpDir po) b) (\<lambda>r. case r of
         Inl e \<Rightarrow> eff_ret (Some (BundleGenErr e), rp)
       | Inr files \<Rightarrow>
     eff_bind (removeDeletedFiles gl (po_OpDir po) (bv_DeletedFiles (rp_Branchvals rp))) (\<lambda>_.
     eff_bind (eff_until (stage_file gl) files) (\<lambda>e. eff_ret (e, rp)))))))"

text \<open>The second half, from the commit on.\<close>

definition commit_push :: "git_lib \<Rightarrow> PushOptions \<Rightarrow> process_error option eff" where
  "commit_push gl po =
     eff_bind (Commit gl (po_Repo po) (po_CommitMsg po)) (\<lambda>e. case e of
         Some e \<Rightarrow> eff_ret (Some (if e = NoChanges then ErrNoChanges else CommitErr e))
       | None \<Rightarrow> eff_bind (Push gl (po_Repo po) (po_RemoteBranch po)) (\<lambda>e. eff_ret (map_option GitPushErr e)))"

text \<open>\<open>func (rp *RepoPolicy) ProcessBranch(pushOpts *PushOptions) error\<close>\<close>

definition ProcessBranch ::
  "git_lib \<Rightarrow> (string list \<Rightarrow> 't Bundle go) \<Rightarrow> (RepoPolicy \<Rightarrow> ('t, 'y) render_env) \<Rightarrow> RepoPolicy \<Rightarrow> PushOptions
     \<Rightarrow> (process_error option \<times> RepoPolicy) eff" where
  "ProcessBranch gl bundle renv rp po =
     eff_bind (prepare_branch gl bundle renv rp po) (\<lambda>(e, rp). case e of
         Some e \<Rightarrow> eff_ret (Some e, rp)
       | None \<Rightarrow> eff_bind (commit_push gl po) (\<lambda>e. eff_ret (e, rp)))"

section \<open>The commands\<close>

datatype sync_error =
    TokenMissing
  | ConfigErr string
  | PolicyErr policy_error
  | GitInitErr repo_error
  | ProcessErr process_error
  | PRErr pr_error

text \<open>The flags of \<open>policy sync\<close>, and what it works with.\<close>

record sync_opts =
  so_pr :: bool
  so_token :: string
  so_branch :: string
  so_prefix :: string
  so_owner :: string
  so_msg :: string
  so_auto :: bool
  so_title :: string
  so_jira :: string

definition sync_push :: "sync_opts \<Rightarrow> string \<Rightarrow> string \<Rightarrow> GitRepo \<Rightarrow> PushOptions" where
  "sync_push so repoName branch repo = \<lparr>po_OpDir = repoName, po_Branch = branch,
     po_RemoteBranch = so_prefix so @ branch, po_CommitMsg = so_msg so, po_Repo = repo\<rparr>"

definition sync_request :: "sync_opts \<Rightarrow> string \<Rightarrow> string \<Rightarrow> string \<Rightarrow> PullRequest" where
  "sync_request so repoName base remote = \<lparr>
     pq_Jira = \<lparr>ji_Id = so_jira so, ji_Title = so_title so, ji_Body = ''Auto-generated from gromit templates by policy sync.''\<rparr>,
     pq_BaseBranch = base, pq_PrBranch = remote, pq_Owner = so_owner so, pq_Repo = repoName,
     pq_AutoMerge = so_auto so, pq_Reviewers = []\<rparr>"

text \<open>
  The loop of \<open>policy sync\<close>, whose state is \<open>syncErr\<close>, \<open>prs\<close> and the policy; \<open>Inl\<close> is the return
  out of the command.
\<close>

fun sync_loop ::
  "git_lib \<Rightarrow> gh_lib \<Rightarrow> (string list \<Rightarrow> 't Bundle go) \<Rightarrow> (RepoPolicy \<Rightarrow> ('t, 'y) render_env)
     \<Rightarrow> (RepoPolicy \<Rightarrow> string \<Rightarrow> (string + string) go) \<Rightarrow> sync_opts \<Rightarrow> string \<Rightarrow> string list
     \<Rightarrow> sync_error option \<times> string list \<times> RepoPolicy \<Rightarrow> (sync_error + sync_error option \<times> string list) eff" where
  "sync_loop gl gh bundle renv render so repoName [] (syncErr, prs, rp) = eff_ret (Inr (syncErr, prs))"
| "sync_loop gl gh bundle renv render so repoName (branch # branches) (syncErr, prs, rp) =
     eff_bind (InitGit gl (''https://github.com/'' @ rp_Owner rp @ ''/'' @ repoName) branch repoName (so_token so)) (\<lambda>r. case r of
         Inl e \<Rightarrow> eff_ret (Inl (GitInitErr e))
       | Inr repo \<Rightarrow>
     (let po = sync_push so repoName branch repo in
      eff_bind (ProcessBranch gl bundle renv rp po) (\<lambda>(e, rp).
        if e = Some ErrNoChanges then
          eff_bind (eff_log (Printed (repoName @ ''/'' @ branch @ '' is already in sync, skipping''))) (\<lambda>_.
            sync_loop gl gh bundle renv render so repoName branches (None, prs, rp))
        else case e of
          Some e \<Rightarrow>
            eff_bind (eff_log (Printed (''Could not process '' @ repoName @ ''/'' @ branch))) (\<lambda>_.
            eff_bind (eff_log (Printed ''Will not process remaining branches'')) (\<lambda>_.
              eff_ret (Inr (Some (ProcessErr e), prs))))
        | None \<Rightarrow>
            if \<not> so_pr so then sync_loop gl gh bundle renv render so repoName branches (None, prs, rp)
            else eff_bind (CurrentBranch gl) (\<lambda>base.
                 eff_bind (CreatePR gh (render rp) (sync_request so repoName base (po_RemoteBranch po))) (\<lambda>r. case r of
                     Inl e \<Rightarrow>
                       eff_bind (eff_log (Printed (''gh create pr --base '' @ base @ '' --head '' @ po_RemoteBranch po))) (\<lambda>_.
                         sync_loop gl gh bundle renv render so repoName branches (Some (PRErr e), prs, rp))
                   | Inr p \<Rightarrow> sync_loop gl gh bundle renv render so repoName branches (None, prs @ [pl_HTMLURL p], rp))))))"

definition branches_of :: "string \<Rightarrow> RepoPolicy \<Rightarrow> string list" where
  "branches_of only rp = (if only = [] then GetAllBranches rp else [only])"

text \<open>The command \<open>policy gen\<close>; \<open>-\<close> is a directory like any other.\<close>

datatype gen_error = GenPolicyErr policy_error | GenNoSuchBranch string | GenRenderErr render_error

definition gen_cmd ::
  "(string list \<Rightarrow> 't Bundle go) \<Rightarrow> (RepoPolicy \<Rightarrow> ('t, 'y) render_env) \<Rightarrow> (string \<Rightarrow> (policy_error + RepoPolicy) go)
     \<Rightarrow> string \<Rightarrow> string \<Rightarrow> string \<Rightarrow> gen_error option eff" where
  "gen_cmd bundle renv getpol polBranch repoName dir =
     eff_bind (eff_go (getpol repoName)) (\<lambda>r. case r of
         Inl e \<Rightarrow> eff_ret (Some (GenPolicyErr e))
       | Inr rp \<Rightarrow>
     (case SetBranch polBranch rp of
         None \<Rightarrow> eff_ret (Some (GenNoSuchBranch polBranch))
       | Some rp \<Rightarrow>
     eff_bind (eff_go (bundle (bv_Features (rp_Branchvals rp)))) (\<lambda>b.
     eff_bind (eff_render (renv rp) dir b) (\<lambda>r.
       eff_ret (case r of Inl e \<Rightarrow> Some (GenRenderErr e) | Inr files \<Rightarrow> None)))))"

definition print_prs :: "string \<Rightarrow> string list \<Rightarrow> unit eff" where
  "print_prs header prs = eff_bind (eff_log (Printed header)) (\<lambda>_. eff_each (\<lambda>u. eff_log (Printed (''- '' @ u))) prs)"

definition sync_cmd ::
  "git_lib \<Rightarrow> gh_lib \<Rightarrow> (string list \<Rightarrow> 't Bundle go) \<Rightarrow> (RepoPolicy \<Rightarrow> ('t, 'y) render_env)
     \<Rightarrow> (RepoPolicy \<Rightarrow> string \<Rightarrow> (string + string) go) \<Rightarrow> string option \<Rightarrow> (string \<Rightarrow> (policy_error + RepoPolicy) go)
     \<Rightarrow> sync_opts \<Rightarrow> string \<Rightarrow> sync_error option eff" where
  "sync_cmd gl gh bundle renv render load getpol so repoName =
     (if so_pr so \<and> so_token so = [] then eff_ret (Some TokenMissing)
      else case load of
        Some e \<Rightarrow> eff_ret (Some (ConfigErr e))
      | None \<Rightarrow>
          eff_bind (eff_go (getpol repoName)) (\<lambda>r. case r of
              Inl e \<Rightarrow> eff_ret (Some (PolicyErr e))
            | Inr rp \<Rightarrow>
                eff_bind (sync_loop gl gh bundle renv render so repoName (branches_of (so_branch so) rp) (None, [], rp))
                  (\<lambda>r. case r of
                     Inl e \<Rightarrow> eff_ret (Some e)
                   | Inr (syncErr, prs) \<Rightarrow>
                       eff_bind (print_prs ''PRs created or updated:'' prs) (\<lambda>_. eff_ret syncErr))))"

text \<open>\<open>prs createprs\<close>: a failed creation is printed, and its missing pull request dereferenced.\<close>

fun create_branches ::
  "gh_lib \<Rightarrow> (string \<Rightarrow> (string + string) go) \<Rightarrow> (string \<Rightarrow> PullRequest) \<Rightarrow> string list \<Rightarrow> string list \<Rightarrow> string list eff" where
  "create_branches gh render req [] prs = eff_ret prs"
| "create_branches gh render req (branch # branches) prs =
     eff_bind (CreatePR gh render (req branch)) (\<lambda>r. case r of
         Inl e \<Rightarrow> eff_bind (eff_log (Printed (''Could not create PR for '' @ branch))) (\<lambda>_. eff_panic ''nil pointer dereference'')
       | Inr p \<Rightarrow> create_branches gh render req branches (prs @ [pl_HTMLURL p]))"

definition create_request :: "JiraIssue \<Rightarrow> string \<Rightarrow> bool \<Rightarrow> string list \<Rightarrow> RepoPolicy \<Rightarrow> string \<Rightarrow> string \<Rightarrow> PullRequest" where
  "create_request jIssue pfx autoMerge reviewers rp repoName branch = \<lparr>pq_Jira = jIssue, pq_BaseBranch = branch,
     pq_PrBranch = pfx @ branch, pq_Owner = rp_Owner rp, pq_Repo = repoName, pq_AutoMerge = autoMerge,
     pq_Reviewers = reviewers\<rparr>"

fun create_repos ::
  "gh_lib \<Rightarrow> (RepoPolicy \<Rightarrow> string \<Rightarrow> (string + string) go) \<Rightarrow> (string \<Rightarrow> (policy_error + RepoPolicy) go)
     \<Rightarrow> (RepoPolicy \<Rightarrow> string \<Rightarrow> string \<Rightarrow> PullRequest) \<Rightarrow> string \<Rightarrow> string list \<Rightarrow> string list \<Rightarrow> (sync_error + string list) eff" where
  "create_repos gh render getpol req only [] prs = eff_ret (Inr prs)"
| "create_repos gh render getpol req only (repoName # repos) prs =
     eff_bind (eff_go (getpol repoName)) (\<lambda>r. case r of
         Inl e \<Rightarrow> eff_ret (Inl (PolicyErr e))
       | Inr rp \<Rightarrow> eff_bind (create_branches gh (render rp) (req rp repoName) (branches_of only rp) prs)
           (\<lambda>prs. create_repos gh render getpol req only repos prs))"

definition createprs_cmd ::
  "gh_lib \<Rightarrow> (RepoPolicy \<Rightarrow> string \<Rightarrow> (string + string) go) \<Rightarrow> (string \<Rightarrow> (policy_error + RepoPolicy) go)
     \<Rightarrow> (string + JiraIssue) go \<Rightarrow> (string \<times> string) \<Rightarrow> string \<Rightarrow> string \<Rightarrow> bool \<Rightarrow> string list \<Rightarrow> string list \<Rightarrow> sync_error option eff" where
  "createprs_cmd gh render getpol issue credentials pfx only autoMerge reviewers args =
     (if fst credentials = [] \<or> snd credentials = [] then eff_go (Fatal ''Creating PRs requires JIRA_USER and JIRA_TOKEN'')
      else eff_bind (eff_go issue) (\<lambda>r. case r of
          Inl e \<Rightarrow> eff_go (Fatal ''could not get Jira issue'')
        | Inr jIssue \<Rightarrow>
            eff_bind (create_repos gh render getpol (create_request jIssue pfx autoMerge reviewers) only args []) (\<lambda>r. case r of
                Inl e \<Rightarrow> eff_ret (Some e)
              | Inr prs \<Rightarrow> eff_bind (print_prs ''PRs created/updated:'' prs) (\<lambda>_. eff_ret None))))"

text \<open>\<open>func processRepo(repoName string, f func(*policy.PullRequest) error) error\<close> (\<open>cmd/prs.go\<close>)\<close>

definition repo_request :: "string \<Rightarrow> RepoPolicy \<Rightarrow> string \<Rightarrow> string \<Rightarrow> PullRequest" where
  "repo_request pfx rp repoName branch = \<lparr>pq_Jira = \<lparr>ji_Id = [], ji_Title = [], ji_Body = []\<rparr>, pq_BaseBranch = branch,
     pq_PrBranch = pfx @ branch, pq_Owner = rp_Owner rp, pq_Repo = repoName, pq_AutoMerge = False, pq_Reviewers = []\<rparr>"

definition processRepo ::
  "(string \<Rightarrow> (policy_error + RepoPolicy) go) \<Rightarrow> string \<Rightarrow> string \<Rightarrow> string \<Rightarrow> (PullRequest \<Rightarrow> pr_error option eff)
     \<Rightarrow> sync_error option eff" where
  "processRepo getpol pfx only repoName f =
     eff_bind (eff_go (getpol repoName)) (\<lambda>r. case r of
         Inl e \<Rightarrow> eff_ret (Some (PolicyErr e))
       | Inr rp \<Rightarrow> eff_bind (eff_each (\<lambda>branch. eff_bind (f (repo_request pfx rp repoName branch)) (\<lambda>e.
             if e \<noteq> None then eff_log (Printed (''Could not operate on PR for '' @ repoName @ '':'' @ branch)) else eff_ret ()))
           (branches_of only rp)) (\<lambda>_. eff_ret None))"

text \<open>\<open>deleteprs\<close>, \<open>updateprs\<close> and \<open>openprs\<close> differ in the operation.\<close>

definition prs_cmd ::
  "(string \<Rightarrow> (policy_error + RepoPolicy) go) \<Rightarrow> string \<Rightarrow> string \<Rightarrow> (PullRequest \<Rightarrow> pr_error option eff) \<Rightarrow> string list \<Rightarrow> unit eff" where
  "prs_cmd getpol pfx only f args =
     eff_each (\<lambda>repoName. eff_bind (processRepo getpol pfx only repoName f) (\<lambda>e.
       if e \<noteq> None then eff_log (Printed (''Could not operate on '' @ repoName)) else eff_ret ())) args"

definition deleteprs_cmd where "deleteprs_cmd gh getpol pfx only args = prs_cmd getpol pfx only (ClosePR gh) args"
definition updateprs_cmd where "updateprs_cmd gh getpol pfx only args = prs_cmd getpol pfx only (UpdatePrBranch gh) args"
definition openprs_cmd where "openprs_cmd gh goos getpol pfx only args = prs_cmd getpol pfx only (Open gh goos) args"

section \<open>What each stage leaves in the log\<close>

lemma adds_render [adds_rules]: "adds local_event (eff_render env opDir b)"
  by (auto simp: adds_def eff_render_def split: go.splits prod.splits intro: exI [of _ "[]"])

lemma adds_removeDeletedFiles [adds_rules]: "adds local_event (removeDeletedFiles gl opDir fs)"
  unfolding removeDeletedFiles_def remove_deleted_def by (intro adds_rules)

lemma adds_stage [adds_rules]: "adds local_event (stage_file gl f)"
  unfolding stage_file_def by (intro adds_rules)

lemma adds_prepare: "adds local_event (prepare_branch gl bundle renv rp po)"
  unfolding prepare_branch_def by (intro adds_rules)

lemma stage_all:
  "eff_until (stage_file gl) files w = (Done None, w') \<Longrightarrow>
     w' = w\<lparr>w_log := rev (List.map (\<lambda>f. Staged f None) files) @ w_log w\<rparr>"
proof (induction files arbitrary: w)
  case Nil
  then show ?case by (simp add: eff_ret_def)
next
  case (Cons f fs)
  then obtain r w1 where s: "stage_file gl f w = (Done r, w1)"
    and k: "(case r of Some e \<Rightarrow> eff_ret (Some e) | None \<Rightarrow> eff_until (stage_file gl) fs) w1 = (Done None, w')"
    by (auto simp: eff_bind_Done)
  then have r: "r = None" by (cases r) (simp_all add: eff_ret_def)
  from s r have w1: "w1 = w\<lparr>w_log := Staged f None # w_log w\<rparr>"
  proof -
    obtain a where a: "AddFile gl f w = (Done a, w1)" "r = (case a of Inl e \<Rightarrow> Some (StagingErr e) | Inr h \<Rightarrow> None)"
      using s by (auto simp: stage_file_def eff_bind_Done eff_ret_def)
    with r obtain h where "a = Inr h" by (cases a) auto
    with AddFile_outcome [OF a(1)] show ?thesis by auto
  qed
  from Cons.IH [of w1] k show ?case by (simp add: r w1)
qed

text \<open>The removal of one of the given files, or of everything in it when it is a directory.\<close>

definition removal_of :: "string list \<Rightarrow> event \<Rightarrow> bool" where
  "removal_of fs e \<longleftrightarrow> (\<exists>f \<in> set fs. \<exists>r. e = Removed f r \<or> e = Removed (f @ ''/*'') r)"

lemma removed_all:
  "removeDeletedFiles gl opDir fs w = (Done u, w') \<Longrightarrow>
     \<exists>es. w' = w\<lparr>w_log := es @ w_log w\<rparr> \<and> (\<forall>e \<in> set es. removal_of fs e)"
  unfolding removeDeletedFiles_def
proof (induction fs arbitrary: w)
  case Nil
  then show ?case by (auto simp: eff_ret_def intro: exI [of _ "[]"])
next
  case (Cons f fs)
  then obtain w1 where s: "remove_deleted gl opDir f w = (Done (), w1)"
    and k: "eff_each (remove_deleted gl opDir) fs w1 = (Done u, w')" by (auto simp: eff_bind_Done)
  from s have "\<exists>es. w1 = w\<lparr>w_log := es @ w_log w\<rparr> \<and> (\<forall>e \<in> set es. removal_of (f # fs) e)"
    by (cases "gl_stat gl w (filepath_join [opDir, f])")
      (auto simp: remove_deleted_def RemoveAll_def eff_defs removal_of_def intro: exI [of _ "[]"] exI [of _ "[_]"])
  then obtain es where "w1 = w\<lparr>w_log := es @ w_log w\<rparr>" "\<forall>e \<in> set es. removal_of (f # fs) e" by blast
  moreover from Cons.IH [OF k] obtain ds where "w' = w1\<lparr>w_log := ds @ w_log w1\<rparr>" "\<forall>e \<in> set ds. removal_of fs e"
    by blast
  ultimately show ?case by (intro exI [of _ "ds @ es"]) (auto simp: removal_of_def)
qed

lemma prepare_ok:
  assumes "prepare_branch gl bundle renv rp po w = (Done (None, rp'), w')"
  shows "\<exists>b files removed fe. SetBranch (po_Branch po) rp = Some rp' \<and>
    bundle (bv_Features (rp_Branchvals rp')) = Done b \<and>
    RenderBundle (renv rp') (po_OpDir po) b (w_disk w) = Done (Inr files, w_disk w') \<and>
    fetch_ok fe \<and> (\<forall>e \<in> set removed. removal_of (bv_DeletedFiles (rp_Branchvals rp')) e) \<and>
    w_log w' = rev (List.map (\<lambda>f. Staged f None) files) @ removed @ Rendered (po_OpDir po) files
      # CheckedOut (BranchRef (po_Branch po)) None
      # RefSet (BranchRef (po_Branch po)) (RemoteRef ''origin'' (po_Branch po)) None
      # Fetched (fetch_spec (po_Branch po)) (gr_auth (po_Repo po)) fe # w_log w"
proof -
  obtain e w1 where f: "FetchBranch gl (po_Repo po) (po_Branch po) w = (Done e, w1)"
    and k: "(case e of
         Some e \<Rightarrow> eff_ret (Some (CheckoutErr e), rp)
       | None \<Rightarrow>
     (case SetBranch (po_Branch po) rp of
         None \<Rightarrow> eff_ret (Some (NoSuchBranch (po_Branch po)), rp)
       | Some rp \<Rightarrow>
     eff_bind (eff_go (bundle (bv_Features (rp_Branchvals rp)))) (\<lambda>b.
     eff_bind (eff_render (renv rp) (po_OpDir po) b) (\<lambda>r. case r of
         Inl e \<Rightarrow> eff_ret (Some (BundleGenErr e), rp)
       | Inr files \<Rightarrow>
     eff_bind (removeDeletedFiles gl (po_OpDir po) (bv_DeletedFiles (rp_Branchvals rp))) (\<lambda>_.
     eff_bind (eff_until (stage_file gl) files) (\<lambda>e. eff_ret (e, rp))))))) w1 = (Done (None, rp'), w')"
    using assms unfolding prepare_branch_def eff_bind_Done by blast
  have e: "e = None" using k by (cases e) (simp_all add: eff_ret_def)
  obtain fe where fe: "fetch_ok fe" "w1 = w\<lparr>w_log := CheckedOut (BranchRef (po_Branch po)) None
    # RefSet (BranchRef (po_Branch po)) (RemoteRef ''origin'' (po_Branch po)) None
    # Fetched (fetch_spec (po_Branch po)) (gr_auth (po_Repo po)) fe # w_log w\<rparr>"
    using FetchBranch_ok f e by blast
  obtain rp1 where s: "SetBranch (po_Branch po) rp = Some rp1"
    using k e by (cases "SetBranch (po_Branch po) rp") (simp_all add: eff_ret_def)
  obtain b where b: "bundle (bv_Features (rp_Branchvals rp1)) = Done b"
    using k e s by (cases "bundle (bv_Features (rp_Branchvals rp1))") (simp_all add: eff_bind_def eff_go_def)
  obtain r w2 where r: "eff_render (renv rp1) (po_OpDir po) b w1 = (Done r, w2)"
    and k2: "(case r of
         Inl e \<Rightarrow> eff_ret (Some (BundleGenErr e), rp1)
       | Inr files \<Rightarrow>
     eff_bind (removeDeletedFiles gl (po_OpDir po) (bv_DeletedFiles (rp_Branchvals rp1))) (\<lambda>_.
     eff_bind (eff_until (stage_file gl) files) (\<lambda>e. eff_ret (e, rp1)))) w2 = (Done (None, rp'), w')"
    using k e s b by (auto simp: eff_bind_Done eff_go_def)
  obtain files where files: "r = Inr files" using k2 by (cases r) (simp_all add: eff_ret_def)
  obtain u w3 where d: "removeDeletedFiles gl (po_OpDir po) (bv_DeletedFiles (rp_Branchvals rp1)) w2 = (Done u, w3)"
    and st: "eff_until (stage_file gl) files w3 = (Done None, w')" and rp: "rp' = rp1"
    using k2 files by (auto simp: eff_bind_Done eff_ret_def)
  have w2: "RenderBundle (renv rp1) (po_OpDir po) b (w_disk w1) = Done (Inr files, w_disk w2)"
    "w_log w2 = Rendered (po_OpDir po) files # w_log w1"
    using r files by (auto simp: eff_render_def split: go.splits prod.splits)
  obtain removed where rem: "w3 = w2\<lparr>w_log := removed @ w_log w2\<rparr>" "\<forall>e \<in> set removed. removal_of (bv_DeletedFiles (rp_Branchvals rp1)) e"
    using removed_all [OF d] by blast
  note stage_all [OF st]
  with w2 rem fe s b show ?thesis by (auto simp: rp)
qed

lemma commit_push_outcome:
  assumes "commit_push gl po w = (Done e, w')"
  shows "\<exists>c. (w_log w' = Committed (po_CommitMsg po) (gr_SignKey (po_Repo po)) c # w_log w \<and> e \<noteq> None \<and>
      (e = Some ErrNoChanges \<longleftrightarrow> c = Some EmptyCommit) \<or>
    (\<exists>local p. c = None \<and> w_log w' = Pushed (push_spec local (po_RemoteBranch po)) (gr_auth (po_Repo po)) p
        # Committed (po_CommitMsg po) (gr_SignKey (po_Repo po)) None # w_log w \<and>
      (e = None \<longleftrightarrow> fetch_ok p) \<and> (e \<noteq> None \<longrightarrow> (\<exists>pe. e = Some (GitPushErr pe))))) \<and> w_disk w' = w_disk w"
proof -
  obtain r w1 where c: "Commit gl (po_Repo po) (po_CommitMsg po) w = (Done r, w1)"
    and k: "(case r of
         Some e \<Rightarrow> eff_ret (Some (if e = NoChanges then ErrNoChanges else CommitErr e))
       | None \<Rightarrow> eff_bind (Push gl (po_Repo po) (po_RemoteBranch po)) (\<lambda>e. eff_ret (map_option GitPushErr e))) w1 = (Done e, w')"
    using assms unfolding commit_push_def eff_bind_Done by blast
  obtain c' where c': "w1 = w\<lparr>w_log := Committed (po_CommitMsg po) (gr_SignKey (po_Repo po)) c' # w_log w\<rparr>"
    "r = Some NoChanges \<longleftrightarrow> c' = Some EmptyCommit" "r = None \<longrightarrow> c' = None"
    using Commit_outcome [OF c] by blast
  show ?thesis
  proof (cases r)
    case (Some x)
    with k have "w' = w1" "e = Some (if x = NoChanges then ErrNoChanges else CommitErr x)" by (simp_all add: eff_ret_def)
    with c' Some show ?thesis by (intro exI [of _ c'] conjI disjI1) (auto split: if_splits)
  next
    case None
    with k obtain q where p: "Push gl (po_Repo po) (po_RemoteBranch po) w1 = (Done q, w')" and e: "e = map_option GitPushErr q"
      by (auto simp: eff_bind_Done eff_ret_def)
    from Push_outcome [OF p] show ?thesis
    proof
      assume "w' = w1 \<and> q \<noteq> None"
      with c' None e show ?thesis by (intro exI [of _ None] conjI disjI1) auto
    next
      assume "\<exists>local e. w' = w1\<lparr>w_log := Pushed (push_spec local (po_RemoteBranch po)) (gr_auth (po_Repo po)) e # w_log w1\<rparr>
        \<and> (q = None \<longleftrightarrow> fetch_ok e)"
      with c' None e show ?thesis by (intro exI [of _ None] conjI disjI2) auto
    qed
  qed
qed

section \<open>Two contracts of the log\<close>

text \<open>A push comes right after a commit that succeeded.\<close>

fun push_needs :: "event \<Rightarrow> event list \<Rightarrow> bool" where
  "push_needs (Pushed s a r) l \<longleftrightarrow> (\<exists>msg k rest. l = Committed msg k None # rest)"
| "push_needs e l \<longleftrightarrow> True"

text \<open>A pull request is only asked for after its head was pushed.\<close>

fun pr_needs :: "event \<Rightarrow> event list \<Rightarrow> bool" where
  "pr_needs (Created ow re np ok) l \<longleftrightarrow> (\<exists>local a r. fetch_ok r \<and> Pushed (push_spec local (np_Head np)) a r \<in> set l)"
| "pr_needs e l \<longleftrightarrow> True"

interpretation push_log: guarded_log push_needs
proof
  show "push_needs e l \<Longrightarrow> push_needs e (l @ l')" for e l l' by (cases e) auto
qed

interpretation pr_log: guarded_log pr_needs
proof
  show "pr_needs e l \<Longrightarrow> pr_needs e (l @ l')" for e l l' by (cases e) auto
qed

lemma local_obeys: "adds local_event m \<Longrightarrow> adds push_needs m" "adds local_event m \<Longrightarrow> adds pr_needs m"
proof -
  have "push_needs e l \<and> pr_needs e l" if "local_event e l" for e l using that by (cases e) (auto simp: local_event_def)
  then show "adds local_event m \<Longrightarrow> adds push_needs m" "adds local_event m \<Longrightarrow> adds pr_needs m"
    by (auto elim: adds_mono)
qed

lemma pr_obeys: "adds (pr_event q) m \<Longrightarrow> adds push_needs m"
proof (erule adds_mono)
  show "pr_event q e l \<Longrightarrow> push_needs e l" for e l by (cases e) auto
qed

lemma print_obeys: "adds push_needs (eff_log (Printed s))" "adds pr_needs (eff_log (Printed s))"
  by (rule adds_log, simp)+

lemmas obeys_rules = local_obeys [OF adds_InitGit] local_obeys [OF adds_prepare] local_obeys [OF adds_CurrentBranch]
  pr_obeys [OF adds_CreatePR] print_obeys

lemma commit_push_runs: "\<exists>e w'. commit_push gl po w = (Done e, w')"
  by (simp add: commit_push_def Commit_def Push_def CurrentBranch_def eff_defs Let_def split: sum.splits option.splits)

lemma commit_push_obeys: "adds push_needs (commit_push gl po)" "adds pr_needs (commit_push gl po)"
proof -
  have "\<exists>es. w_log w' = es @ w_log w \<and> grown push_needs es (w_log w) \<and> grown pr_needs es (w_log w)"
    if "commit_push gl po w = (r, w')" for w r w'
  proof -
    obtain e where "r = Done e" using commit_push_runs [of gl po w] \<open>commit_push gl po w = (r, w')\<close> by auto
    with commit_push_outcome [of gl po w e w'] that show ?thesis
      by (auto intro: exI [of _ "[_]"] exI [of _ "[_, _]"])
  qed
  then show "adds push_needs (commit_push gl po)" "adds pr_needs (commit_push gl po)"
    unfolding adds_def by blast+
qed

lemma ProcessBranch_obeys: "adds push_needs (ProcessBranch gl bundle renv rp po)" "adds pr_needs (ProcessBranch gl bundle renv rp po)"
  unfolding ProcessBranch_def by (intro adds_rules obeys_rules commit_push_obeys)+

lemma sync_loop_pushes: "adds push_needs (sync_loop gl gh bundle renv render so repoName branches (syncErr, prs, rp))"
proof (induction branches arbitrary: syncErr prs rp)
  case Nil
  then show ?case by (simp add: adds_ret)
next
  case (Cons branch branches)
  show ?case unfolding sync_loop.simps Let_def
    by (intro adds_rules obeys_rules ProcessBranch_obeys Cons)
qed

text \<open>A pull request is asked for in worlds where its head was pushed.\<close>

lemma pr_obeys_after:
  assumes "adds (pr_event q) m" "Pushed (push_spec local (pq_PrBranch q)) a r \<in> S" "fetch_ok r"
  shows "adds_after S pr_needs m"
  unfolding adds_after_def
proof (intro allI impI)
  fix w x w' assume S: "S \<subseteq> set (w_log w)" and m: "m w = (x, w')"
  obtain es where es: "w_log w' = es @ w_log w" "grown (pr_event q) es (w_log w)" using addsD [OF assms(1) m] by blast
  have "grown (pr_event q) ds (w_log w) \<Longrightarrow> grown pr_needs ds (w_log w)" for ds
  proof (induction ds)
    case (Cons e ds)
    have "pr_needs e (ds @ w_log w)"
      using Cons.prems assms(2,3) S by (cases e) auto
    with Cons show ?case by simp
  qed simp
  with es show "\<exists>es. w_log w' = es @ w_log w \<and> grown pr_needs es (w_log w)" by blast
qed

lemma ProcessBranch_pushed:
  assumes "ProcessBranch gl bundle renv rp po w = (Done (None, rp'), w')"
  shows "\<exists>local a p. fetch_ok p \<and> Pushed (push_spec local (po_RemoteBranch po)) a p \<in> set (w_log w')"
proof -
  obtain e rp1 w1 where k: "(case e of Some e \<Rightarrow> eff_ret (Some e, rp1)
       | None \<Rightarrow> eff_bind (commit_push gl po) (\<lambda>e. eff_ret (e, rp1))) w1 = (Done (None, rp'), w')"
    using assms unfolding ProcessBranch_def eff_bind_Done by (auto split: prod.splits)
  then have "e = None" by (cases e) (simp_all add: eff_ret_def)
  with k have "commit_push gl po w1 = (Done None, w')" by (auto simp: eff_bind_Done eff_ret_def)
  from commit_push_outcome [OF this] show ?thesis by fastforce
qed

lemma sync_loop_prs: "adds pr_needs (sync_loop gl gh bundle renv render so repoName branches (syncErr, prs, rp))"
proof (induction branches arbitrary: syncErr prs rp)
  case Nil
  then show ?case by (simp add: adds_ret)
next
  case (Cons branch branches)
  have one: "adds pr_needs (eff_bind (ProcessBranch gl bundle renv rp (sync_push so repoName branch repo)) (\<lambda>(e, rp).
        if e = Some ErrNoChanges then
          eff_bind (eff_log (Printed (repoName @ ''/'' @ branch @ '' is already in sync, skipping''))) (\<lambda>_.
            sync_loop gl gh bundle renv render so repoName branches (None, prs, rp))
        else case e of
          Some e \<Rightarrow>
            eff_bind (eff_log (Printed (''Could not process '' @ repoName @ ''/'' @ branch))) (\<lambda>_.
            eff_bind (eff_log (Printed ''Will not process remaining branches'')) (\<lambda>_.
              eff_ret (Inr (Some (ProcessErr e), prs))))
        | None \<Rightarrow>
            if \<not> so_pr so then sync_loop gl gh bundle renv render so repoName branches (None, prs, rp)
            else eff_bind (CurrentBranch gl) (\<lambda>base.
                 eff_bind (CreatePR gh (render rp) (sync_request so repoName base (po_RemoteBranch (sync_push so repoName branch repo)))) (\<lambda>r. case r of
                     Inl e \<Rightarrow>
                       eff_bind (eff_log (Printed (''gh create pr --base '' @ base @ '' --head '' @ po_RemoteBranch (sync_push so repoName branch repo)))) (\<lambda>_.
                         sync_loop gl gh bundle renv render so repoName branches (Some (PRErr e), prs, rp))
                   | Inr p \<Rightarrow> sync_loop gl gh bundle renv render so repoName branches (None, prs @ [pl_HTMLURL p], rp)))))"
    (is "adds pr_needs (eff_bind ?m ?k)") for repo rp
  proof (rule adds_bind_post)
    show "adds pr_needs ?m" by (rule ProcessBranch_obeys)
  next
    fix w a w1 assume m: "?m w = (Done a, w1)"
    obtain e rp' where a: "a = (e, rp')" by force
    show "\<exists>S. S \<subseteq> set (w_log w1) \<and> adds_after S pr_needs (?k a)"
    proof (cases e)
      case (Some x)
      then have "adds pr_needs (?k a)"
        unfolding a by (simp only: prod.case option.case) (intro adds_rules obeys_rules Cons)
      then show ?thesis by (intro exI [of _ "{}"]) (simp add: adds_after_none)
    next
      case None
      obtain local b p where p: "fetch_ok p" "Pushed (push_spec local (so_prefix so @ branch)) b p \<in> set (w_log w1)"
        using ProcessBranch_pushed m unfolding a None by (force simp: sync_push_def)
      let ?S = "{Pushed (push_spec local (so_prefix so @ branch)) b p}"
      have "adds_after ?S pr_needs (?k a)"
        unfolding a None prod.case option.case
        by (simp only: option.distinct(1) if_False,
            intro adds_after_if adds_after_bind adds_after_sum
              pr_obeys_after [OF adds_CreatePR, where local = local and a = b and r = p] p(1),
            simp_all add: sync_request_def sync_push_def,
            (intro adds_after_weaken adds_rules obeys_rules Cons)+)
          (simp_all add: adds_after_weaken Cons)
      with p(2) show ?thesis by blast
    qed
  qed
  show ?case unfolding sync_loop.simps Let_def
    by (intro adds_rules obeys_rules one)
qed

lemma sync_cmd_obeys:
  "adds push_needs (sync_cmd gl gh bundle renv render load getpol so repoName)"
  "adds pr_needs (sync_cmd gl gh bundle renv render load getpol so repoName)"
  unfolding sync_cmd_def print_prs_def
  by (intro adds_rules sync_loop_pushes sync_loop_prs print_obeys)+

text \<open>A branch of the loop that was pushed, or whose commit was empty.\<close>

definition branch_done :: "sync_opts \<Rightarrow> string \<Rightarrow> string \<Rightarrow> event list \<Rightarrow> bool" where
  "branch_done so repoName branch l \<longleftrightarrow>
     (\<exists>local a p. fetch_ok p \<and> Pushed (push_spec local (so_prefix so @ branch)) a p \<in> set l) \<or>
     Printed (repoName @ ''/'' @ branch @ '' is already in sync, skipping'') \<in> set l \<and>
     (\<exists>key. Committed (so_msg so) key (Some EmptyCommit) \<in> set l)"

lemma branch_done_mono: "branch_done so repoName branch l \<Longrightarrow> set l \<subseteq> set l' \<Longrightarrow> branch_done so repoName branch l'"
  unfolding branch_done_def by blast

lemma stage_not_empty: "eff_until (stage_file gl) fs w = (Done e, w') \<Longrightarrow> e \<noteq> Some ErrNoChanges"
proof (induction fs arbitrary: w)
  case (Cons f fs)
  then obtain x w1 where "stage_file gl f w = (Done x, w1)" "x \<noteq> None \<and> e = x \<or> eff_until (stage_file gl) fs w1 = (Done e, w')"
    by (fastforce simp: eff_outcome)
  moreover have "x \<noteq> Some ErrNoChanges"
    using calculation(1) unfolding stage_file_def eff_outcome by (metis option.distinct(1) option.inject process_error.distinct sum.case sum.exhaust)
  ultimately show ?case using Cons.IH by blast
qed (simp add: eff_ret_def)

lemma prepare_not_empty:
  assumes "prepare_branch gl bundle renv rp po w = (Done (e, rp'), w')"
  shows "e \<noteq> Some ErrNoChanges"
  using assms unfolding prepare_branch_def eff_outcome by (auto dest: stage_not_empty)

lemma ProcessBranch_in_sync:
  assumes "ProcessBranch gl bundle renv rp po w = (Done (Some ErrNoChanges, rp'), w')"
  shows "\<exists>key. Committed (po_CommitMsg po) key (Some EmptyCommit) \<in> set (w_log w')"
proof -
  obtain e rp1 w1 where p: "prepare_branch gl bundle renv rp po w = (Done (e, rp1), w1)"
    and k: "(case e of Some e \<Rightarrow> eff_ret (Some e, rp1)
       | None \<Rightarrow> eff_bind (commit_push gl po) (\<lambda>e. eff_ret (e, rp1))) w1 = (Done (Some ErrNoChanges, rp'), w')"
    using assms unfolding ProcessBranch_def eff_bind_Done by (auto split: prod.splits)
  have "e = None" using k prepare_not_empty [OF p] by (cases e) (simp_all add: eff_ret_def)
  with k have "commit_push gl po w1 = (Done (Some ErrNoChanges), w')" by (auto simp: eff_bind_Done eff_ret_def)
  from commit_push_outcome [OF this] show ?thesis by fastforce
qed

text \<open>One iteration that does not end the loop goes on with a longer log, in which the branch is done.\<close>

lemma sync_pr_step:
  assumes "eff_bind (CurrentBranch gl) (\<lambda>base.
      eff_bind (CreatePR gh body (req base)) (\<lambda>r. case r of
          Inl e \<Rightarrow> eff_bind (eff_log (msg base)) (\<lambda>_. loop (Some (PRErr e), prs, rp))
        | Inr p \<Rightarrow> loop (None, prs @ [pl_HTMLURL p], rp))) w = (Done res, w')"
  obtains st v where "loop st v = (Done res, w')" "set (w_log w) \<subseteq> set (w_log v)"
  using assms
proof (elim eff_bind_DoneE, goal_cases)
  case (1 base w3 r w4)
  have w4: "set (w_log w) \<subseteq> set (w_log w4)"
    using log_grows [OF adds_CurrentBranch 1(2)] log_grows [OF adds_CreatePR 1(3)] by blast
  show ?case
  proof (cases r)
    case (Inl x)
    from 1(4) [unfolded Inl sum.case] show ?thesis
    proof (rule eff_bind_DoneE)
      fix u w5 assume "eff_log (msg base) w4 = (Done u, w5)" and l: "loop (Some (PRErr x), prs, rp) w5 = (Done res, w')"
      then have "set (w_log w4) \<subseteq> set (w_log w5)" by (auto simp: eff_log_def)
      with w4 show ?thesis by (intro 1(1) [OF l]) blast
    qed
  next
    case (Inr q)
    from 1(4) [unfolded Inr sum.case] w4 show ?thesis by (rule 1(1))
  qed
qed

lemma sync_loop_step:
  fixes gl gh bdl renv render so repoName branches
  defines "loop \<equiv> sync_loop gl gh bdl renv render so repoName branches"
  assumes "sync_loop gl gh bdl renv render so repoName (branch # branches) (syncErr, prs, rp) w = (Done (Inr (err, prs')), w')"
    and "\<nexists>e. err = Some (ProcessErr e)"
  obtains st v where "loop st v = (Done (Inr (err, prs')), w')" "branch_done so repoName branch (w_log v)"
  using assms(2) unfolding sync_loop.simps loop_def [symmetric]
proof (rule eff_bind_DoneE, goal_cases)
  case (1 x w1)
  note goal = 1(1)
  from 1(3) obtain repo where x: "x = Inr repo" by (cases x) (simp_all add: eff_ret_def)
  from 1(3) show ?case unfolding x sum.case Let_def
  proof (rule eff_bind_DoneE, goal_cases)
    case (1 a w2)
    obtain e rp1 where a: "a = (e, rp1)" by force
    note pb = 1(1) [unfolded a] and k = 1(2) [unfolded a prod.case]
    consider "e = Some ErrNoChanges" | y where "e = Some y" "y \<noteq> ErrNoChanges" | "e = None" by (cases e) auto
    then show ?case
    proof cases
      case 1
      define printed where "printed = Printed (repoName @ ''/'' @ branch @ '' is already in sync, skipping'')"
      define v where "v = w2\<lparr>w_log := printed # w_log w2\<rparr>"
      have "loop (None, prs, rp1) v = (Done (Inr (err, prs')), w')"
        using k unfolding printed_def [symmetric] v_def
        by (simp only: 1 simp_thms if_True eff_bind_def eff_log_def prod.case go.case)
      moreover have "branch_done so repoName branch (w_log v)"
        using ProcessBranch_in_sync [OF pb [unfolded 1]] unfolding branch_done_def printed_def [symmetric] v_def
        by (auto simp: sync_push_def)
      ultimately show ?thesis by (rule goal)
    next
      case 2
      then have "err = Some (ProcessErr y)"
        using k by (simp only: option.inject if_False option.case eff_bind_def eff_log_def prod.case go.case eff_ret_def) simp
      with assms(3) show ?thesis by blast
    next
      case 3
      have pushed: "branch_done so repoName branch (w_log v)" if "set (w_log w2) \<subseteq> set (w_log v)" for v
        using ProcessBranch_pushed [OF pb [unfolded 3]] that unfolding branch_done_def by (auto simp: sync_push_def)
      show ?thesis
      proof (cases "so_pr so")
        case False
        with k have "loop (None, prs, rp1) w2 = (Done (Inr (err, prs')), w')" by (simp only: 3 option.distinct if_False option.case if_True simp_thms)
        then show ?thesis by (rule goal) (simp add: pushed)
      next
        case True
        note k [unfolded 3, simplified True option.distinct if_False option.case simp_thms]
        then show ?thesis by (rule sync_pr_step) (rule goal, assumption, erule pushed)
      qed
    qed
  qed
qed

lemma sync_loop_covers:
  assumes "sync_loop gl gh bundle renv render so repoName branches (syncErr, prs, rp) w = (Done (Inr (err, prs')), w')"
    and "\<nexists>e. err = Some (ProcessErr e)" "b \<in> set branches"
  shows "branch_done so repoName b (w_log w')"
  using assms(1,3)
proof (induction branches arbitrary: syncErr prs rp w)
  case (Cons branch branches)
  obtain st v where st: "sync_loop gl gh bundle renv render so repoName branches st v = (Done (Inr (err, prs')), w')"
    and v: "branch_done so repoName branch (w_log v)"
    using sync_loop_step [OF Cons.prems(1) assms(2)] by blast
  show ?case
  proof (cases "b = branch")
    case True
    obtain x y z where "st = (x, y, z)" by (cases st)
    with log_grows [OF sync_loop_pushes] st have "set (w_log v) \<subseteq> set (w_log w')" by blast
    with v show ?thesis unfolding True by (rule branch_done_mono)
  next
    case False
    with st Cons show ?thesis by (cases st) auto
  qed
qed simp

lemma sync_cmd_covers:
  assumes "sync_cmd gl gh bundle renv render load getpol so repoName w = (Done None, w')"
  shows "\<exists>rp. getpol repoName = Done (Inr rp) \<and>
    (\<forall>b \<in> set (branches_of (so_branch so) rp). branch_done so repoName b (w_log w'))"
proof -
  have "\<not> (so_pr so \<and> so_token so = [])" "load = None"
    using assms by (auto simp: sync_cmd_def eff_ret_def split: option.splits if_splits)
  with assms have "eff_bind (eff_go (getpol repoName)) (\<lambda>r. case r of
              Inl e \<Rightarrow> eff_ret (Some (PolicyErr e))
            | Inr rp \<Rightarrow>
                eff_bind (sync_loop gl gh bundle renv render so repoName (branches_of (so_branch so) rp) (None, [], rp))
                  (\<lambda>r. case r of
                     Inl e \<Rightarrow> eff_ret (Some e)
                   | Inr (syncErr, prs) \<Rightarrow>
                       eff_bind (print_prs ''PRs created or updated:'' prs) (\<lambda>_. eff_ret syncErr))) w = (Done None, w')"
    by (simp only: sync_cmd_def if_False option.case simp_thms)
  then show ?thesis
  proof (rule eff_bind_DoneE, goal_cases)
    case (1 r w1)
    then obtain rp where r: "r = Inr rp" by (cases r) (simp_all add: eff_ret_def)
    from 1(2) show ?case unfolding r sum.case
    proof (rule eff_bind_DoneE, goal_cases)
      case (1 q w2)
      then obtain err prs where q: "q = Inr (err, prs)" by (cases q) (auto simp: eff_ret_def)
      from 1(2) have p: "eff_bind (print_prs ''PRs created or updated:'' prs) (\<lambda>_. eff_ret err) w2 = (Done None, w')"
        unfolding q sum.case prod.case .
      then have err: "err = None" by (rule eff_bind_DoneE) (simp add: eff_ret_def)
      have "adds pr_needs (eff_bind (print_prs ''PRs created or updated:'' prs) (\<lambda>_. eff_ret err))"
        unfolding print_prs_def by (intro adds_rules print_obeys)
      from log_grows [OF this p] have "set (w_log w2) \<subseteq> set (w_log w')" .
      with sync_loop_covers [OF 1(1) [unfolded q]] err
      have "\<forall>b \<in> set (branches_of (so_branch so) rp). branch_done so repoName b (w_log w')"
        using branch_done_mono by blast
      moreover have "getpol repoName = Done (Inr rp)"
        using \<open>eff_go (getpol repoName) w = (Done r, w1)\<close> r by (simp add: eff_go_def split: go.splits)
      ultimately show ?case by blast
    qed
  qed
qed

section \<open>Properties\<close>

lemma process_branch_ok:
  assumes "ProcessBranch gl bundle renv rp po w = (Done (None, rp'), w')"
  shows "\<exists>b files removed fe pe local. SetBranch (po_Branch po) rp = Some rp' \<and>
    bundle (bv_Features (rp_Branchvals rp')) = Done b \<and>
    RenderBundle (renv rp') (po_OpDir po) b (w_disk w) = Done (Inr files, w_disk w') \<and>
    fetch_ok fe \<and> fetch_ok pe \<and> (\<forall>e \<in> set removed. removal_of (bv_DeletedFiles (rp_Branchvals rp')) e) \<and>
    w_log w' = Pushed (push_spec local (po_RemoteBranch po)) (gr_auth (po_Repo po)) pe
      # Committed (po_CommitMsg po) (gr_SignKey (po_Repo po)) None
      # rev (List.map (\<lambda>f. Staged f None) files) @ removed @ Rendered (po_OpDir po) files
      # CheckedOut (BranchRef (po_Branch po)) None
      # RefSet (BranchRef (po_Branch po)) (RemoteRef ''origin'' (po_Branch po)) None
      # Fetched (fetch_spec (po_Branch po)) (gr_auth (po_Repo po)) fe # w_log w"
proof -
  obtain e rp1 w1 where pr: "prepare_branch gl bundle renv rp po w = (Done (e, rp1), w1)"
    and k: "(case e of Some e \<Rightarrow> eff_ret (Some e, rp1)
       | None \<Rightarrow> eff_bind (commit_push gl po) (\<lambda>e. eff_ret (e, rp1))) w1 = (Done (None, rp'), w')"
    using assms unfolding ProcessBranch_def eff_bind_Done by (auto split: prod.splits)
  have e: "e = None" using k by (cases e) (simp_all add: eff_ret_def)
  with k have c: "commit_push gl po w1 = (Done None, w')" and rp: "rp1 = rp'" by (auto simp: eff_bind_Done eff_ret_def)
  from commit_push_outcome [OF c] obtain local p where "fetch_ok p" "w_disk w' = w_disk w1"
    "w_log w' = Pushed (push_spec local (po_RemoteBranch po)) (gr_auth (po_Repo po)) p
        # Committed (po_CommitMsg po) (gr_SignKey (po_Repo po)) None # w_log w1" by auto
  moreover from prepare_ok [OF pr [unfolded e rp]] obtain b files removed fe where
    "SetBranch (po_Branch po) rp = Some rp'" "bundle (bv_Features (rp_Branchvals rp')) = Done b"
    "RenderBundle (renv rp') (po_OpDir po) b (w_disk w) = Done (Inr files, w_disk w1)"
    "fetch_ok fe" "\<forall>e \<in> set removed. removal_of (bv_DeletedFiles (rp_Branchvals rp')) e"
    "w_log w1 = rev (List.map (\<lambda>f. Staged f None) files) @ removed @ Rendered (po_OpDir po) files
      # CheckedOut (BranchRef (po_Branch po)) None
      # RefSet (BranchRef (po_Branch po)) (RemoteRef ''origin'' (po_Branch po)) None
      # Fetched (fetch_spec (po_Branch po)) (gr_auth (po_Repo po)) fe # w_log w" by blast
  ultimately show ?thesis by metis
qed

text \<open>What \<open>policy gen\<close> writes is what processing the branch renders.\<close>

lemma gen_cmd_ok:
  assumes "getpol repoName = Done (Inr rp)" "SetBranch polBranch rp = Some rp'"
    and "bundle (bv_Features (rp_Branchvals rp')) = Done b" "RenderBundle (renv rp') dir b (w_disk w) = Done (Inr files, d)"
  shows "gen_cmd bundle renv getpol polBranch repoName dir w
    = (Done None, w\<lparr>w_disk := d, w_log := Rendered dir files # w_log w\<rparr>)"
  using assms by (simp add: gen_cmd_def eff_defs eff_render_def)

text \<open>
  (C7) A processed branch that reports success went through the whole chain: the branch was fetched, pointed
  at its remote and checked out, its policy selected, its bundle rendered completely into the worktree,
  every rendered file staged after git was asked to remove files, each of them one the policy lists as
  deleted, the result committed, and that commit pushed to the requested branch; nothing else was sent.
\<close>

theorem process_branch_chain:
  assumes "ProcessBranch gl bundle renv rp po w = (Done (None, rp'), w')"
  shows "\<exists>b files removed fe pe local. SetBranch (po_Branch po) rp = Some rp' \<and>
    bundle (bv_Features (rp_Branchvals rp')) = Done b \<and>
    RenderBundle (renv rp') (po_OpDir po) b (w_disk w) = Done (Inr files, w_disk w') \<and>
    fetch_ok fe \<and> fetch_ok pe \<and> (\<forall>e \<in> set removed. removal_of (bv_DeletedFiles (rp_Branchvals rp')) e) \<and>
    w_log w' = Pushed (push_spec local (po_RemoteBranch po)) (gr_auth (po_Repo po)) pe
      # Committed (po_CommitMsg po) (gr_SignKey (po_Repo po)) None
      # rev (List.map (\<lambda>f. Staged f None) files) @ removed @ Rendered (po_OpDir po) files
      # CheckedOut (BranchRef (po_Branch po)) None
      # RefSet (BranchRef (po_Branch po)) (RemoteRef ''origin'' (po_Branch po)) None
      # Fetched (fetch_spec (po_Branch po)) (gr_auth (po_Repo po)) fe # w_log w"
  by (rule process_branch_ok [OF assms])

text \<open>
  (C4) In a run of \<open>policy sync\<close> nothing is pushed but a fresh commit: every push, whatever branch it is for
  and however the run ends, comes right after a commit that succeeded; and every pull request asked for
  has its head among the branches this run pushed before.  When the command reports success, every branch it was
  to process was pushed in this run or, where the rendered files made an empty commit, reported as in sync.
\<close>

theorem sync_orders_events:
  assumes "sync_cmd gl gh bundle renv render load getpol so repoName w = (r, w')" "w_log w = []"
  shows "(\<forall>newer s a p older. w_log w' = newer @ Pushed s a p # older \<longrightarrow>
      (\<exists>msg k rest. older = Committed msg k None # rest)) \<and>
    (\<forall>newer ow re np ok older. w_log w' = newer @ Created ow re np ok # older \<longrightarrow>
      (\<exists>local a p. fetch_ok p \<and> Pushed (push_spec local (np_Head np)) a p \<in> set older)) \<and>
    (r = Done None \<longrightarrow> (\<exists>rp. getpol repoName = Done (Inr rp) \<and>
      (\<forall>b \<in> set (branches_of (so_branch so) rp). branch_done so repoName b (w_log w'))))"
proof -
  have g: "grown push_needs (w_log w') []" "grown pr_needs (w_log w') []"
    using addsD [OF sync_cmd_obeys(1) assms(1)] addsD [OF sync_cmd_obeys(2) assms(1)] assms(2) by auto
  have "\<exists>msg k rest. older = Committed msg k None # rest" if "w_log w' = newer @ Pushed s a p # older" for newer s a p older
    using push_log.found [OF g(1) that] by simp
  moreover have "\<exists>local a p. fetch_ok p \<and> Pushed (push_spec local (np_Head np)) a p \<in> set older"
    if "w_log w' = newer @ Created ow re np ok # older" for newer ow re np ok older
    using pr_log.found [OF g(2) that] by simp
  moreover have "r = Done None \<longrightarrow> (\<exists>rp. getpol repoName = Done (Inr rp) \<and>
      (\<forall>b \<in> set (branches_of (so_branch so) rp). branch_done so repoName b (w_log w')))"
    using sync_cmd_covers assms(1) by blast
  ultimately show ?thesis by blast
qed

text \<open>
  The result of \<open>policy sync\<close> forgets failed pull requests: the error carried into an iteration has no
  influence on it, so only a failure for the last branch, or one that ends the loop, reaches the caller.
\<close>

theorem sync_forgets_pr_errors:
  "sync_loop gl gh bundle renv render so repoName (branch # branches) (Some err, prs, rp) w
     = sync_loop gl gh bundle renv render so repoName (branch # branches) (None, prs, rp) w"
  by (simp only: sync_loop.simps)

text \<open>
  \<open>createprs\<close> ends normally only if every pull request could be created: after a failure it prints the
  error and then dereferences the pull request that does not exist.
\<close>

theorem createprs_panics:
  assumes "create_branches gh render req branches prs w = (Done urls, w')"
  shows "\<exists>new. urls = prs @ new \<and> length new = length branches \<and>
    (\<forall>b \<in> set branches. \<exists>v pr v'. CreatePR gh render (req b) v = (Done (Inr pr), v') \<and> pl_HTMLURL pr \<in> set new)"
  using assms
proof (induction branches arbitrary: prs w)
  case Nil
  then show ?case by (simp add: eff_ret_def)
next
  case (Cons b bs)
  from Cons.prems obtain r w1 where c: "CreatePR gh render (req b) w = (Done r, w1)"
    and k: "(case r of
         Inl e \<Rightarrow> eff_bind (eff_log (Printed (''Could not create PR for '' @ b))) (\<lambda>_. eff_panic ''nil pointer dereference'')
       | Inr p \<Rightarrow> create_branches gh render req bs (prs @ [pl_HTMLURL p])) w1 = (Done urls, w')"
    unfolding create_branches.simps eff_bind_Done by blast
  obtain p where p: "r = Inr p" using k by (cases r) (simp_all add: eff_defs)
  with k have "create_branches gh render req bs (prs @ [pl_HTMLURL p]) w1 = (Done urls, w')" by simp
  from Cons.IH [OF this] obtain new where new: "urls = (prs @ [pl_HTMLURL p]) @ new" "length new = length bs"
    "\<forall>b \<in> set bs. \<exists>v pr v'. CreatePR gh render (req b) v = (Done (Inr pr), v') \<and> pl_HTMLURL pr \<in> set new" by blast
  show ?case
  proof (intro exI [of _ "pl_HTMLURL p # new"] conjI ballI)
    fix x assume "x \<in> set (b # bs)"
    then consider "x = b" | "x \<in> set bs" by auto
    then show "\<exists>v pr v'. CreatePR gh render (req x) v = (Done (Inr pr), v') \<and> pl_HTMLURL pr \<in> set (pl_HTMLURL p # new)"
    proof cases
      case 1
      with c p show ?thesis by auto
    next
      case 2
      with new(3) show ?thesis by fastforce
    qed
  qed (use new in auto)
qed

section \<open>A run\<close>

text \<open>Libraries for which everything succeeds, a policy with one branch, and a bundle of one file.\<close>

definition sample_gl :: git_lib where
  "sample_gl = \<lparr>gl_stat = (\<lambda>_ _. StatDir True), gl_mkdir = (\<lambda>_ _. None), gl_open = (\<lambda>_ _. None),
     gl_clone = (\<lambda>_ _ _ _ _. None), gl_worktree = (\<lambda>_. None), gl_fetch = (\<lambda>_ _ _. Some AlreadyUpToDate),
     gl_setref = (\<lambda>_ _ _. None), gl_checkout = (\<lambda>_ _. None), gl_pull = (\<lambda>_ _ _. None),
     gl_head = (\<lambda>_. Inr (True, ''master'')), gl_remove = (\<lambda>_ _. None), gl_add = (\<lambda>_ f. Inr f),
     gl_commit = (\<lambda>_ _ _. Inr ''c0ffee''), gl_object = (\<lambda>_ _. None), gl_valid = (\<lambda>_. None), gl_push = (\<lambda>_ _ _. None),
     gl_remote = (\<lambda>_. None), gl_list = (\<lambda>_ _. Inr []), gl_create = (\<lambda>_ _. None)\<rparr>"

definition sample_bundle :: "string list \<Rightarrow> string Bundle go" where
  "sample_bundle fs = Done \<lparr>bd_Name = [], bd_tree = Node [] [] None [Node ''f'' ''f'' (Some ''text'') []]\<rparr>"

definition sample_renv :: "RepoPolicy \<Rightarrow> (string, unit) render_env" where
  "sample_renv rp = \<lparr>re_exec = Inr, re_unmarshal = (\<lambda>s. Inr ()), re_vdrMap = [], re_yamlfmt = Inr, re_mkdir = (\<lambda>f. None),
     re_create = (\<lambda>f. None), re_write = (\<lambda>f c. (c, None)), re_chmod = (\<lambda>f. None)\<rparr>"

definition sample_rp :: RepoPolicy where
  "sample_rp = zero_repopolicy\<lparr>rp_Owner := ''o'', rp_Name := ''r'', rp_Branches := [(''master'', zero_branchvals\<lparr>bv_DeletedFiles := [''old'']\<rparr>)]\<rparr>"

definition sample_opts :: sync_opts where
  "sample_opts = \<lparr>so_pr = True, so_token = ''tok'', so_branch = [], so_prefix = ''releng/'', so_owner = ''o'', so_msg = ''m'',
     so_auto = True, so_title = ''t'', so_jira = ''TT-1''\<rparr>"

definition sample_repo :: GitRepo where
  "sample_repo = \<lparr>gr_url = ''u'', gr_auth = Some ''tok'', gr_dir = ''r'', gr_SignKey = None\<rparr>"

definition is_push :: "event \<Rightarrow> bool" where "is_push e = (case e of Pushed _ _ _ \<Rightarrow> True | _ \<Rightarrow> False)"
definition is_created :: "event \<Rightarrow> bool" where "is_created e = (case e of Created _ _ _ _ \<Rightarrow> True | _ \<Rightarrow> False)"

lemma process_branch_witness:
  "\<exists>rp' w'. ProcessBranch sample_gl sample_bundle sample_renv sample_rp (sync_push sample_opts ''r'' ''master'' sample_repo) empty_world
      = (Done (None, rp'), w') \<and> Committed ''m'' None None \<in> set (w_log w')"
proof -
  let ?run = "ProcessBranch sample_gl sample_bundle sample_renv sample_rp (sync_push sample_opts ''r'' ''master'' sample_repo) empty_world"
  have "case fst ?run of Done (e, rp) \<Rightarrow> e = None | _ \<Rightarrow> False" by code_simp
  then obtain rp' w' where run: "?run = (Done (None, rp'), w')"
    by (cases ?run) (auto split: go.splits prod.splits)
  from process_branch_chain [OF run] have "Committed ''m'' None None \<in> set (w_log w')"
    by (elim exE conjE) (simp add: sync_push_def sample_opts_def sample_repo_def)
  with run show ?thesis by blast
qed

lemma sample_CreatePR:
  "\<exists>np. CreatePR sample_gh (\<lambda>t. Done (Inr t)) (sync_request sample_opts ''r'' base remote) w = (Done (Inr sample_pull),
     w\<lparr>w_log := AutoMerged ''n7'' True # Created ''o'' ''r'' np True # GotBranch ''o'' ''r'' remote True # w_log w\<rparr>)"
  by (simp add: CreatePR_def submit_pr_def finish_pr_def EnableAutoMerge_def eff_defs sample_gh_def sync_request_def
      sample_opts_def sample_pull_def)
    (rule exI, rule refl)

lemma sync_one_branch:
  assumes "InitGit gl (''https://github.com/'' @ rp_Owner rp @ ''/'' @ repoName) branch repoName (so_token so) w = (Done (Inr repo), w0)"
    and "ProcessBranch gl bundle renv rp (sync_push so repoName branch repo) w0 = (Done (None, rp'), w1)"
    and "so_pr so" "CurrentBranch gl w1 = (Done base, w1)"
    and "CreatePR gh (render rp') (sync_request so repoName base (so_prefix so @ branch)) w1 = (Done (Inr p), w2)"
  shows "sync_loop gl gh bundle renv render so repoName [branch] (None, prs, rp) w = (Done (Inr (None, prs @ [pl_HTMLURL p])), w2)"
  using assms by (simp add: eff_bind_def eff_ret_def Let_def sync_push_def)

lemma sync_orders_witness:
  "\<exists>newer ow re np ok older local a p. w_log (snd (sync_cmd sample_gl sample_gh sample_bundle sample_renv (\<lambda>_ t. Done (Inr t)) None
      (\<lambda>_. Done (Inr sample_rp)) (sample_opts\<lparr>so_branch := ''master''\<rparr>) ''r'' empty_world)) = newer @ Created ow re np ok # older \<and>
    Pushed (push_spec local (np_Head np)) a p \<in> set older \<and>
    branch_done (sample_opts\<lparr>so_branch := ''master''\<rparr>) ''r'' ''master'' (newer @ Created ow re np ok # older)"
proof -
  let ?so = "sample_opts\<lparr>so_branch := ''master''\<rparr>"
  let ?run = "sync_cmd sample_gl sample_gh sample_bundle sample_renv (\<lambda>_ t. Done (Inr t)) None
      (\<lambda>_. Done (Inr sample_rp)) ?so ''r'' empty_world"
  define url where "url = ''https://github.com/'' @ rp_Owner sample_rp @ ''/'' @ ''r''"
  let ?w0 = "empty_world\<lparr>w_log := [GotWorktree None, Opened ''r'' None]\<rparr>"
  let ?repo = "\<lparr>gr_url = url, gr_auth = Some ''tok'', gr_dir = ''r'', gr_SignKey = None\<rparr>"
  have init: "InitGit sample_gl url ''master'' ''r'' (so_token ?so) empty_world = (Done (Inr ?repo), ?w0)"
    by (simp add: InitGit_def Let_def eff_defs sample_gl_def sample_opts_def empty_world_def)
  have "case fst (ProcessBranch sample_gl sample_bundle sample_renv sample_rp (sync_push ?so ''r'' ''master'' ?repo) ?w0) of
      Done (e, rp) \<Rightarrow> e = None | _ \<Rightarrow> False" unfolding url_def by code_simp
  then obtain rp' w1 where pr: "ProcessBranch sample_gl sample_bundle sample_renv sample_rp
      (sync_push ?so ''r'' ''master'' ?repo) ?w0 = (Done (None, rp'), w1)"
    by (cases "ProcessBranch sample_gl sample_bundle sample_renv sample_rp (sync_push ?so ''r'' ''master'' ?repo) ?w0")
      (auto split: go.splits prod.splits)
  have req: "sync_request ?so = sync_request sample_opts"
    by (intro ext) (simp add: sync_request_def)
  obtain np where c: "CreatePR sample_gh (\<lambda>t. Done (Inr t)) (sync_request sample_opts ''r'' ''master'' (so_prefix ?so @ ''master'')) w1
     = (Done (Inr sample_pull), w1\<lparr>w_log := AutoMerged ''n7'' True # Created ''o'' ''r'' np True
         # GotBranch ''o'' ''r'' (so_prefix ?so @ ''master'') True # w_log w1\<rparr>)"
    using sample_CreatePR by blast
  have b: "branches_of (so_branch ?so) sample_rp = [''master'']" by (simp add: sample_opts_def branches_of_def)
  have run: "fst ?run = Done None" "Created ''o'' ''r'' np True \<in> set (w_log (snd ?run))"
  proof -
    have loop: "sync_loop sample_gl sample_gh sample_bundle sample_renv (\<lambda>_ t. Done (Inr t)) ?so ''r'' [''master''] (None, [], sample_rp) empty_world
      = (Done (Inr (None, [] @ [pl_HTMLURL sample_pull])), w1\<lparr>w_log := AutoMerged ''n7'' True # Created ''o'' ''r'' np True
         # GotBranch ''o'' ''r'' (so_prefix ?so @ ''master'') True # w_log w1\<rparr>)"
      by (rule sync_one_branch [OF init [unfolded url_def] pr [unfolded url_def] _ _ c [folded req]])
        (simp_all add: sample_opts_def CurrentBranch_def eff_ask_def sample_gl_def)
    have "so_token ?so \<noteq> []" by (simp add: sample_opts_def)
    with b show "fst ?run = Done None" "Created ''o'' ''r'' np True \<in> set (w_log (snd ?run))"
      by (simp_all add: sync_cmd_def eff_bind_def eff_go_def loop print_prs_def eff_log_def eff_ret_def del: sync_loop.simps)
  qed
  from run(2) obtain newer older where l: "w_log (snd ?run) = newer @ Created ''o'' ''r'' np True # older"
    by (auto dest!: split_list)
  have "w_log empty_world = []" by (simp add: empty_world_def)
  note events = sync_orders_events [OF surjective_pairing this]
  from events [THEN conjunct2, THEN conjunct1, rule_format, OF l]
  obtain local a p where "Pushed (push_spec local (np_Head np)) a p \<in> set older" by blast
  moreover have "branch_done ?so ''r'' ''master'' (newer @ Created ''o'' ''r'' np True # older)"
    using events [THEN conjunct2, THEN conjunct2, rule_format, OF run(1)] b l by auto
  ultimately show ?thesis using l by (intro exI conjI)
qed

lemma createprs_witness:
  "\<exists>urls w'. create_branches sample_gh (\<lambda>t. Done (Inr t)) (\<lambda>_. sample_request) [''master''] [] empty_world = (Done urls, w') \<and>
     length urls = 1"
proof -
  let ?run = "create_branches sample_gh (\<lambda>t. Done (Inr t)) (\<lambda>_. sample_request) [''master''] [] empty_world"
  have "case fst ?run of Done _ \<Rightarrow> True | _ \<Rightarrow> False" by code_simp
  then obtain urls w' where run: "?run = (Done urls, w')" by (cases ?run) (auto split: go.splits)
  with createprs_panics [OF run] show ?thesis by auto
qed

end
