(* ===== verification/JsonParse.thy ===== *)
theory JsonParse
  imports GoJson
begin

text \<open>
  What the repository uses of \<open>json.Unmarshal\<close>: a parser of JSON text into the values of \<open>GoJson\<close>, and the
  law that it reads back what \<open>Marshal\<close> prints.  Numbers are decoded as Go decodes them into an
  \<open>interface{}\<close>, a 64-bit float; the model covers those that are integers the float holds exactly and
  gives no value for the others.  Text is taken to be valid UTF-8.
\<close>

section \<open>Tokens\<close>

definition json_ws :: "char \<Rightarrow> bool" where
  "json_ws c \<longleftrightarrow> c = CHR '' '' \<or> c = CHR 0x09 \<or> c = CHR 0x0A \<or> c = CHR 0x0D"

definition skip_ws :: "string \<Rightarrow> string" where "skip_ws = dropWhile json_ws"

definition token :: "string \<Rightarrow> (char \<times> string) option" where
  "token s = (case skip_ws s of [] \<Rightarrow> None | c # r \<Rightarrow> Some (c, r))"

definition hex_val :: "char \<Rightarrow> nat option" where
  "hex_val c = (let d = lower_char c in
     if d \<in> set hex_digits then Some (length (takeWhile (\<lambda>x. x \<noteq> d) hex_digits)) else None)"

fun hex4 :: "string \<Rightarrow> (nat \<times> string) option" where
  "hex4 (a # b # c # d # r) =
     Option.bind (hex_val a) (\<lambda>a. Option.bind (hex_val b) (\<lambda>b. Option.bind (hex_val c) (\<lambda>c.
       Option.bind (hex_val d) (\<lambda>d. Some (((a * 16 + b) * 16 + c) * 16 + d, r)))))"
| "hex4 _ = None"

text \<open>The bytes of a code point.\<close>

definition utf8 :: "nat \<Rightarrow> string" where
  "utf8 n = List.map char_of
     (if n < 128 then [n]
      else if n < 2048 then [192 + n div 64, 128 + n mod 64]
      else if n < 65536 then [224 + n div 4096, 128 + n div 64 mod 64, 128 + n mod 64]
      else [240 + n div 262144, 128 + n div 4096 mod 64, 128 + n div 64 mod 64, 128 + n mod 64])"

definition RuneError :: nat where "RuneError = 65533"

text \<open>A pair of surrogates is one code point; a lone surrogate is replaced.\<close>

definition second_surrogate :: "nat \<Rightarrow> string \<Rightarrow> (string \<times> string) option" where
  "second_surrogate n r =
     (if take 2 r = [CHR 0x5C, CHR ''u''] then
        (case hex4 (drop 2 r) of
           None \<Rightarrow> None
         | Some (m, t) \<Rightarrow>
             if n < 56320 \<and> 56320 \<le> m \<and> m < 57344
             then Some (utf8 (65536 + (n - 55296) * 1024 + (m - 56320)), t)
             else Some (utf8 RuneError, r))
      else Some (utf8 RuneError, r))"

definition unescape_u :: "string \<Rightarrow> (string \<times> string) option" where
  "unescape_u s =
     (case hex4 s of
        None \<Rightarrow> None
      | Some (n, r) \<Rightarrow> if 55296 \<le> n \<and> n < 57344 then second_surrogate n r else Some (utf8 n, r))"

text \<open>What stands for an escape, given the text after the backslash.\<close>

fun unescape :: "string \<Rightarrow> (string \<times> string) option" where
  "unescape [] = None"
| "unescape (c # r) =
     (if c = CHR 0x22 \<or> c = CHR 0x5C \<or> c = CHR ''/'' then Some ([c], r)
      else if c = CHR ''b'' then Some ([CHR 0x08], r)
      else if c = CHR ''f'' then Some ([CHR 0x0C], r)
      else if c = CHR ''n'' then Some ([CHR 0x0A], r)
      else if c = CHR ''r'' then Some ([CHR 0x0D], r)
      else if c = CHR ''t'' then Some ([CHR 0x09], r)
      else if c = CHR ''u'' then unescape_u r
      else None)"

lemma hex4_length: "hex4 s = Some (n, r) \<Longrightarrow> length s = length r + 4"
  by (induction s rule: hex4.induct) (auto split: Option.bind_splits)

lemma unescape_length: "unescape s = Some (b, r) \<Longrightarrow> length r < length s"
proof (cases s)
  case (Cons c t)
  have "length r < length t" if "unescape_u t = Some (b, r)"
    using that hex4_length
    by (fastforce simp: unescape_u_def second_surrogate_def split: option.splits if_splits)
  then show "unescape s = Some (b, r) \<Longrightarrow> length r < length s"
    using Cons by (auto split: if_splits)
qed simp

text \<open>The characters of a string up to its closing quote, and the text after it.\<close>

function parse_chars :: "string \<Rightarrow> (string \<times> string) option" where
  "parse_chars s =
     (case s of
        [] \<Rightarrow> None
      | c # r \<Rightarrow>
          if c = CHR 0x22 then Some ([], r)
          else if c = CHR 0x5C then
            (case unescape r of
               None \<Rightarrow> None
             | Some (b, t) \<Rightarrow> map_option (\<lambda>(x, y). (b @ x, y)) (parse_chars t))
          else if of_char c < (32 :: nat) then None
          else map_option (\<lambda>(x, y). (c # x, y)) (parse_chars r))"
  by pat_completeness auto
termination by (relation "measure length") (auto dest: unescape_length)

declare parse_chars.simps [simp del]

definition max_float_int :: int where "max_float_int = 2 ^ 53"

definition parse_number :: "string \<Rightarrow> (json \<times> string) option" where
  "parse_number s =
     (let neg = (take 1 s = ''-''); r = (if neg then drop 1 s else s);
          ds = takeWhile is_digit r; t = dropWhile is_digit r;
          v = (if neg then - int (digits_val ds) else int (digits_val ds))
      in if ds = [] \<or> (hd ds = CHR ''0'' \<and> tl ds \<noteq> []) then None
         else if t \<noteq> [] \<and> hd t \<in> set ''.eE'' then None
         else if \<bar>v\<bar> > max_float_int \<or> (neg \<and> v = 0) then None
         else Some (JNum v, t))"

definition parse_scalar :: "string \<Rightarrow> (json \<times> string) option" where
  "parse_scalar s =
     (if take 4 s = ''null'' then Some (JNull, drop 4 s)
      else if take 4 s = ''true'' then Some (JBool True, drop 4 s)
      else if take 5 s = ''false'' then Some (JBool False, drop 5 s)
      else parse_number s)"

section \<open>Values\<close>

text \<open>Each call has one unit of fuel less; a later member of an object replaces an earlier one.\<close>

fun parse_value :: "nat \<Rightarrow> string \<Rightarrow> (json \<times> string) option"
  and parse_elems :: "nat \<Rightarrow> string \<Rightarrow> (json list \<times> string) option"
  and parse_members :: "nat \<Rightarrow> (string \<times> json) list \<Rightarrow> string \<Rightarrow> ((string \<times> json) list \<times> string) option"
where
  "parse_value 0 s = None"
| "parse_value (Suc n) s = Option.bind (token s) (\<lambda>(c, r).
     if c = CHR ''{'' then Option.bind (token r) (\<lambda>(d, t).
       if d = CHR ''}'' then Some (JObj [], t)
       else map_option (\<lambda>(ms, t). (JObj ms, t)) (parse_members n [] r))
     else if c = CHR ''['' then Option.bind (token r) (\<lambda>(d, t).
       if d = CHR '']'' then Some (JArr [], t)
       else map_option (\<lambda>(xs, t). (JArr xs, t)) (parse_elems n r))
     else if c = CHR 0x22 then map_option (\<lambda>(x, t). (JStr x, t)) (parse_chars r)
     else parse_scalar (c # r))"
| "parse_elems 0 s = None"
| "parse_elems (Suc n) s = Option.bind (parse_value n s) (\<lambda>(v, t). Option.bind (token t) (\<lambda>(c, r).
     if c = CHR '','' then map_option (\<lambda>(vs, t). (v # vs, t)) (parse_elems n r)
     else if c = CHR '']'' then Some ([v], r)
     else None))"
| "parse_members 0 ms s = None"
| "parse_members (Suc n) ms s = Option.bind (token s) (\<lambda>(c, r).
     if c \<noteq> CHR 0x22 then None
     else Option.bind (parse_chars r) (\<lambda>(k, t). Option.bind (token t) (\<lambda>(c, r).
       if c \<noteq> CHR '':'' then None
       else Option.bind (parse_value n r) (\<lambda>(v, t). Option.bind (token t) (\<lambda>(c, r).
         if c = CHR '','' then parse_members n (gm_put k v ms) r
         else if c = CHR ''}'' then Some (gm_put k v ms, r)
         else None)))))"

text \<open>\<open>json.Unmarshal\<close> into an \<open>interface{}\<close>: one value and nothing after it.\<close>

definition unmarshal :: "string \<Rightarrow> json option" where
  "unmarshal s = Option.bind (parse_value (Suc (length s)) s) (\<lambda>(j, r). if skip_ws r = [] then Some j else None)"

section \<open>Reading back\<close>

text \<open>The value with the members of every object sorted, as printing orders them.\<close>

fun canon :: "json \<Rightarrow> json" where
  "canon (JArr xs) = JArr (List.map canon xs)"
| "canon (JObj ms) = JObj (sort_members (List.map (\<lambda>(k, v). (k, canon v)) ms))"
| "canon j = j"

text \<open>A value Go can hold: the members of an object have distinct keys, and numbers are exact.\<close>

fun json_ok :: "json \<Rightarrow> bool" where
  "json_ok (JArr xs) \<longleftrightarrow> list_all json_ok xs"
| "json_ok (JObj ms) \<longleftrightarrow> gm_ok ms \<and> list_all (\<lambda>(k, v). json_ok v) ms"
| "json_ok (JNum n) \<longleftrightarrow> \<bar>n\<bar> \<le> max_float_int"
| "json_ok j \<longleftrightarrow> True"

text \<open>
  The fuel is enough: a parse that succeeds with some fuel consumes something and succeeds alike with any
  fuel as large as the text it consumes.
\<close>

lemma token_length: "token s = Some (c, r) \<Longrightarrow> length r < length s"
proof -
  assume "token s = Some (c, r)"
  then have "dropWhile json_ws s = c # r" by (simp add: token_def skip_ws_def split: list.splits)
  then show ?thesis using length_dropWhile_le [of json_ws s] by simp
qed

lemma parse_chars_length: "parse_chars s = Some (x, r) \<Longrightarrow> length r < length s"
proof (induction s arbitrary: x r rule: parse_chars.induct)
  case (1 s)
  show ?case
  proof (cases s)
    case (Cons c t)
    consider "c = CHR 0x22" | "c = CHR 0x5C" | "c \<noteq> CHR 0x22" "c \<noteq> CHR 0x5C" "32 \<le> (of_char c :: nat)"
      using 1(3) Cons by (subst (asm) parse_chars.simps) (force split: if_splits)
    then show ?thesis
    proof cases
      case 1
      then show ?thesis using \<open>parse_chars s = Some (x, r)\<close> Cons by (simp add: parse_chars.simps)
    next
      case 2
      then obtain b u y where "unescape t = Some (b, u)" "parse_chars u = Some (y, r)"
        using \<open>parse_chars s = Some (x, r)\<close> Cons by (subst (asm) parse_chars.simps) (auto split: option.splits)
      then show ?thesis using "1.IH"(1) [OF Cons] 2 unescape_length [of t b u] Cons by fastforce
    next
      case 3
      then obtain y where "parse_chars t = Some (y, r)"
        using \<open>parse_chars s = Some (x, r)\<close> Cons by (subst (asm) parse_chars.simps) auto
      then show ?thesis using "1.IH"(2) [OF Cons] 3 Cons by fastforce
    qed
  qed (use 1 in \<open>simp add: parse_chars.simps\<close>)
qed

lemma parse_scalar_length: "parse_scalar s = Some (j, r) \<Longrightarrow> length r < length s"
proof -
  have kw: "take n s = c # w \<Longrightarrow> 0 < n \<Longrightarrow> length s - n < length s" for n c w
    by (cases s) auto
  have "parse_number s = Some (j, r) \<Longrightarrow> length r < length s"
  proof -
    assume *: "parse_number s = Some (j, r)"
    define u where "u = (if take 1 s = ''-'' then drop 1 s else s)"
    from * have ne: "takeWhile is_digit u \<noteq> []" and r: "r = dropWhile is_digit u"
      by (auto simp: parse_number_def Let_def u_def split: if_splits)
    have "length u = length (takeWhile is_digit u) + length r"
      unfolding r by (metis length_append takeWhile_dropWhile_id)
    moreover have "length u \<le> length s" by (simp add: u_def)
    ultimately show ?thesis using length_greater_0_conv [THEN iffD2, OF ne] by linarith
  qed
  then show "parse_scalar s = Some (j, r) \<Longrightarrow> length r < length s"
    by (auto simp: parse_scalar_def dest: kw split: if_splits)
qed

text \<open>A result with enough fuel for the text it consumes.\<close>

definition fueled :: "(nat \<Rightarrow> ('a \<times> string) option) \<Rightarrow> string \<Rightarrow> 'a \<Rightarrow> string \<Rightarrow> bool" where
  "fueled p s x r \<longleftrightarrow> length r < length s \<and> (\<forall>m \<ge> length s - length r. p m = Some (x, r))"

lemma fueled_const:
  assumes "\<And>m. p (Suc m) = Some (x, r)" "length r < length s"
  shows "fueled p s x r"
proof -
  have "p m = Some (x, r)" if "length s - length r \<le> m" for m
    using that assms by (cases m) auto
  then show ?thesis using assms(2) by (simp add: fueled_def)
qed

lemma fueled_step:
  assumes "fueled q u y t" "\<And>m. q m = Some (y, t) \<Longrightarrow> p (Suc m) = Some (x, r)"
    "length u \<le> length s" "length r \<le> length t" "length r + length u < length t + length s"
  shows "fueled p s x r"
proof -
  have "p m = Some (x, r)" if "length s - length r \<le> m" for m
    using that assms by (cases m) (auto simp: fueled_def)
  then show ?thesis using assms by (simp add: fueled_def)
qed

text \<open>Two parts in a row, the second after a separator at least.\<close>

lemma fueled_two:
  assumes "fueled q u y t" "fueled q' v z r" "length u \<le> length s" "length v < length t"
    "\<And>m. q m = Some (y, t) \<Longrightarrow> q' m = Some (z, r) \<Longrightarrow> p (Suc m) = Some (x, r)"
  shows "fueled p s x r"
proof -
  have "p m = Some (x, r)" if "length s - length r \<le> m" for m
    using that assms by (cases m) (auto simp: fueled_def)
  then show ?thesis using assms by (simp add: fueled_def)
qed

text \<open>One more unit of fuel, for each of the three functions.\<close>

lemma value_fuel_step:
  assumes elems: "\<And>s xs r. parse_elems n s = Some (xs, r) \<Longrightarrow> fueled (\<lambda>m. parse_elems m s) s xs r"
    and members: "\<And>s ms ys r. parse_members n ms s = Some (ys, r) \<Longrightarrow> fueled (\<lambda>m. parse_members m ms s) s ys r"
    and parsed: "parse_value (Suc n) s = Some (j, r)"
  shows "fueled (\<lambda>m. parse_value m s) s j r"
proof -
  obtain c t where t: "token s = Some (c, t)" using parsed by (auto split: Option.bind_splits)
  note l = token_length [OF t]
  consider "c = CHR ''{''" | "c = CHR ''[''" | "c \<noteq> CHR ''{''" "c \<noteq> CHR ''[''" by blast
  then show ?thesis
  proof cases
    case 1
    with parsed t obtain d u where u: "token t = Some (d, u)" by (auto split: Option.bind_splits)
    show ?thesis
    proof (cases "d = CHR ''}''")
      case True
      with parsed t 1 u have "j = JObj []" "r = u" by auto
      then show ?thesis using t 1 u True l token_length [OF u] by (intro fueled_const) auto
    next
      case False
      with parsed t 1 u obtain ms where ms: "parse_members n [] t = Some (ms, r)" "j = JObj ms" by auto
      from members [OF ms(1)] show ?thesis using t 1 u False ms(2) l by (elim fueled_step) auto
    qed
  next
    case 2
    with parsed t obtain d u where u: "token t = Some (d, u)" by (auto split: Option.bind_splits)
    show ?thesis
    proof (cases "d = CHR '']''")
      case True
      with parsed t 2 u have "j = JArr []" "r = u" by auto
      then show ?thesis using t 2 u True l token_length [OF u] by (intro fueled_const) auto
    next
      case False
      with parsed t 2 u obtain xs where xs: "parse_elems n t = Some (xs, r)" "j = JArr xs" by auto
      from elems [OF xs(1)] show ?thesis using t 2 u False xs(2) l by (elim fueled_step) auto
    qed
  next
    case 3
    have "length r < length s"
      using parsed t 3 l parse_scalar_length [of "c # t" j r] parse_chars_length [of t _ r]
      by (force split: if_splits)
    then show ?thesis using parsed t 3 by (intro fueled_const) auto
  qed
qed

lemma elems_fuel_step:
  assumes "\<And>s j r. parse_value n s = Some (j, r) \<Longrightarrow> fueled (\<lambda>m. parse_value m s) s j r"
    and "\<And>s xs r. parse_elems n s = Some (xs, r) \<Longrightarrow> fueled (\<lambda>m. parse_elems m s) s xs r"
    and elems: "parse_elems (Suc n) s = Some (xs, r)"
  shows "fueled (\<lambda>m. parse_elems m s) s xs r"
proof -
  obtain v t c u where v: "parse_value n s = Some (v, t)" and u: "token t = Some (c, u)"
    using elems by (auto split: Option.bind_splits)
  note f = assms(1) [OF v]
  show ?thesis
  proof (cases "c = CHR '',''")
    case True
    with elems v u obtain vs where vs: "parse_elems n u = Some (vs, r)" "xs = v # vs" by auto
    show ?thesis using True u vs(2) token_length [OF u] by (intro fueled_two [OF f assms(2) [OF vs(1)]]) auto
  next
    case False
    with elems v u have "c = CHR '']''" "xs = [v]" "r = u" by (auto split: if_splits)
    with u token_length [OF u] show ?thesis by (intro fueled_step [OF f]) auto
  qed
qed

lemma members_fuel_step:
  assumes "\<And>s j r. parse_value n s = Some (j, r) \<Longrightarrow> fueled (\<lambda>m. parse_value m s) s j r"
    and "\<And>s ms ys r. parse_members n ms s = Some (ys, r) \<Longrightarrow> fueled (\<lambda>m. parse_members m ms s) s ys r"
    and members: "parse_members (Suc n) ms s = Some (ys, r)"
  shows "fueled (\<lambda>m. parse_members m ms s) s ys r"
proof -
  obtain c t k u d w where t: "token s = Some (c, t)" "c = CHR 0x22" "parse_chars t = Some (k, u)"
      "token u = Some (d, w)" "d = CHR '':''"
    using members by (auto split: Option.bind_splits if_splits)
  with members obtain v x e y where v: "parse_value n w = Some (v, x)" "token x = Some (e, y)"
    by (auto split: Option.bind_splits if_splits)
  have l: "length w < length s" 
    using token_length [OF t(1)] parse_chars_length [OF t(3)] token_length [OF t(4)] by linarith
  note f = assms(1) [OF v(1)]
  show ?thesis
  proof (cases "e = CHR '',''")
    case True
    with members t v have ys: "parse_members n (gm_put k v ms) y = Some (ys, r)" by auto
    show ?thesis using t v(2) True l token_length [OF v(2)] by (intro fueled_two [OF f assms(2) [OF ys]]) auto
  next
    case False
    with members t v have "e = CHR ''}''" "ys = gm_put k v ms" "r = y" by (auto split: if_splits)
    with t v(2) token_length [OF v(2)] l show ?thesis by (intro fueled_step [OF f]) auto
  qed
qed

lemma parse_fuel:
  "parse_value n s = Some (j, r) \<Longrightarrow> fueled (\<lambda>m. parse_value m s) s j r"
  "parse_elems n s = Some (xs, r) \<Longrightarrow> fueled (\<lambda>m. parse_elems m s) s xs r"
  "parse_members n ms s = Some (ys, r) \<Longrightarrow> fueled (\<lambda>m. parse_members m ms s) s ys r"
proof (induction n arbitrary: s j r xs ms ys)
  case (Suc n)
  show "parse_value (Suc n) s = Some (j, r) \<Longrightarrow> fueled (\<lambda>m. parse_value m s) s j r" for s j r
    by (rule value_fuel_step [OF Suc.IH(2,3)])
  show "parse_elems (Suc n) s = Some (xs, r) \<Longrightarrow> fueled (\<lambda>m. parse_elems m s) s xs r" for s xs r
    by (rule elems_fuel_step [OF Suc.IH(1,2)])
  show "parse_members (Suc n) ms s = Some (ys, r) \<Longrightarrow> fueled (\<lambda>m. parse_members m ms s) s ys r" for s ms ys r
    by (rule members_fuel_step [OF Suc.IH(1,3)])
qed simp_all

theorem unmarshal_fuel:
  "parse_value n s = Some (j, r) \<Longrightarrow> parse_value (Suc (length s)) s = Some (j, r)"
  using parse_fuel(1) [of n s j r] unfolding fueled_def by (metis diff_le_self le_SucI)

text \<open>Reading back an escaped string.\<close>

lemma hex_val_digit: "i < 16 \<Longrightarrow> hex_val (hex_digits ! i) = Some i"
proof -
  have "\<forall>i \<in> set [0..<16]. hex_val (hex_digits ! i) = Some i" by code_simp
  then show "i < 16 \<Longrightarrow> hex_val (hex_digits ! i) = Some i" by simp
qed

lemma hex4_byte:
  "n < 256 \<Longrightarrow> hex4 (CHR ''0'' # CHR ''0'' # hex_digits ! (n div 16) # hex_digits ! (n mod 16) # r) = Some (n, r)"
proof -
  have "hex_val (CHR ''0'') = Some 0" by code_simp
  moreover assume "n < 256"
  ultimately show ?thesis by (simp add: hex_val_digit)
qed

lemma unescape_hex:
  "of_char c < (128 :: nat) \<Longrightarrow> unescape (tl (hex_char (of_char c)) @ r) = Some ([c], r)"
  by (simp add: hex_char_def unescape_u_def hex4_byte utf8_def del: hex4.simps)

lemma parse_chars_char:
  assumes "parse_chars t = Some (x, r)"
  shows "parse_chars (json_char c @ t) = Some (c # x, r)"
proof -
  consider "json_char c = [c]" "c \<noteq> CHR 0x22" "c \<noteq> CHR 0x5C" "\<not> of_char c < (32 :: nat)"
    | d where "json_char c = [CHR 0x5C, d]" "\<And>r. unescape (d # r) = Some ([c], r)"
    | "json_char c = hex_char (of_char c)" "of_char c < (128 :: nat)"
  proof -
    consider "c = CHR 0x22" | "c = CHR 0x5C" | "c = CHR 0x08" | "c = CHR 0x0C" | "c = CHR 0x0A"
      | "c = CHR 0x0D" | "c = CHR 0x09" | "json_char c = hex_char (of_char c)" "of_char c < (128 :: nat)"
      | "json_char c = [c]" "c \<noteq> CHR 0x22" "c \<noteq> CHR 0x5C" "\<not> of_char c < (32 :: nat)"
    proof (cases "c \<in> {CHR 0x22, CHR 0x5C, CHR 0x08, CHR 0x0C, CHR 0x0A, CHR 0x0D, CHR 0x09}")
      case False
      show ?thesis
      proof (cases "of_char c < (32 :: nat) \<or> c = CHR ''<'' \<or> c = CHR ''>'' \<or> c = CHR ''&''")
        case True
        with False have "json_char c = hex_char (of_char c)" by (simp add: json_char_def)
        moreover have "of_char c < (128 :: nat)" using True by auto
        ultimately show ?thesis by (rule that(8))
      next
        case no: False
        with False have "json_char c = [c]" by (simp add: json_char_def)
        then show ?thesis using that(9) False no by simp
      qed
    qed (use that in blast)
    then show thesis using that by cases (simp_all add: json_char_def)
  qed
  then show ?thesis
  proof cases
    case 1
    then show ?thesis using assms by (subst parse_chars.simps) simp
  next
    case 2
    then show ?thesis using assms by (subst parse_chars.simps) simp
  next
    case 3
    obtain h where h: "hex_char (of_char c) = CHR 0x5C # h" by (simp add: hex_char_def)
    then show ?thesis using assms 3 unescape_hex [of c t] by (subst parse_chars.simps) simp
  qed
qed

lemma parse_chars_string: "parse_chars (concat (List.map json_char s) @ CHR 0x22 # r) = Some (s, r)"
proof (induction s)
  case Nil
  then show ?case by (simp add: parse_chars.simps)
next
  case (Cons c s)
  then show ?case using parse_chars_char [OF Cons] by simp
qed

text \<open>Reading back a number.\<close>

lemma show_nat_leading: "0 < n \<Longrightarrow> hd (show_nat n) \<noteq> CHR ''0''"
proof (induction n rule: show_nat.induct)
  case (1 n)
  show ?case
  proof (cases "n < 10")
    case True
    then have "hd (show_nat n) = digit_char n" by (simp add: show_nat.simps [of n])
    moreover have "digit_val (CHR ''0'') = 0" by (simp add: digit_val_def digit_chars_def)
    ultimately show ?thesis using True 1 digit_val_digit_char [of n] by auto
  next
    case False
    then have "show_nat n = show_nat (n div 10) @ [digit_char (n mod 10)]" by (simp add: show_nat.simps [of n])
    moreover have "show_nat (n div 10) \<noteq> []" using show_nat_digits by blast
    ultimately show ?thesis using 1 False by simp
  qed
qed

definition value_end :: "string \<Rightarrow> bool" where
  "value_end r \<longleftrightarrow> r = [] \<or> hd r \<in> set '',]}''"

lemma value_end_digit: "value_end r \<Longrightarrow> r = [] \<or> \<not> is_digit (hd r) \<and> hd r \<notin> set ''.eE''"
  by (auto simp: value_end_def is_digit_def digit_chars_def)

lemma parse_number_show:
  assumes "\<bar>n\<bar> \<le> max_float_int" "value_end r"
  shows "parse_number (show_int n @ r) = Some (JNum n, r)"
proof -
  define ds where "ds = show_nat (nat \<bar>n\<bar>)"
  have ds: "ds \<noteq> []" "list_all is_digit ds" "digits_val ds = nat \<bar>n\<bar>" using show_nat_digits by (simp_all add: ds_def)
  have split: "takeWhile is_digit (ds @ r) = ds" "dropWhile is_digit (ds @ r) = r"
    using ds(2) value_end_digit [OF assms(2)]
    by (auto simp: takeWhile_append dropWhile_append list_all_iff takeWhile_eq_Nil_iff dropWhile_eq_self_iff)
  have lead: "hd ds = CHR ''0'' \<Longrightarrow> tl ds = []"
  proof -
    assume "hd ds = CHR ''0''"
    then have "nat \<bar>n\<bar> = 0" using show_nat_leading [of "nat \<bar>n\<bar>"] by (auto simp: ds_def)
    then show "tl ds = []" by (simp add: ds_def show_nat.simps)
  qed
  have sh: "show_int n = (if n < 0 then CHR ''-'' # ds else ds)" by (simp add: show_int_def ds_def)
  have hd: "take 1 (ds @ r) \<noteq> ''-''"
    using ds(1,2) by (cases ds) (auto simp: is_digit_def digit_chars_def)
  show ?thesis
    using assms(1) ds split lead hd value_end_digit [OF assms(2)]
    by (cases "n < 0") (auto simp: parse_number_def Let_def sh)
qed

lemma parse_scalar_show:
  assumes "\<bar>n\<bar> \<le> max_float_int" "value_end r"
  shows "parse_scalar (show_int n @ r) = Some (JNum n, r)"
proof -
  obtain c t where ct: "show_int n @ r = c # t" "c = CHR ''-'' \<or> is_digit c"
    by (metis append_Cons append_Nil list.exhaust list.set_intros(1) show_int_chars show_int_def show_nat_digits list.discI)
  then have "c \<noteq> CHR ''n''" "c \<noteq> CHR ''t''" "c \<noteq> CHR ''f''" by (auto simp: is_digit_def digit_chars_def)
  with ct parse_number_show [OF assms] show ?thesis by (simp add: parse_scalar_def)
qed

text \<open>Reading back a value.\<close>

lemma token_here [simp]: "\<not> json_ws c \<Longrightarrow> token (c # s) = Some (c, s)"
  by (simp add: token_def skip_ws_def)

lemma marshal_first:
  "\<exists>c t. marshal j = c # t \<and> \<not> json_ws c \<and> c \<noteq> CHR '']'' \<and> c \<noteq> CHR ''}''"
proof (cases j)
  case (JNum n)
  obtain c t where ct: "show_int n = c # t"
    by (metis list.exhaust list.discI show_int_def show_nat_digits)
  moreover have "c = CHR ''-'' \<or> is_digit c" using show_int_chars [of c n] by (simp add: ct)
  ultimately show ?thesis using JNum by (auto simp: json_ws_def is_digit_def digit_chars_def)
qed (auto simp: json_string_def json_ws_def)

lemma value_end_sep [simp]: "value_end (CHR '','' # r)" "value_end (CHR '']'' # r)" "value_end (CHR ''}'' # r)"
  by (simp_all add: value_end_def)

lemma not_ws_sep [simp]: "\<not> json_ws (CHR '','')" "\<not> json_ws (CHR '']'')" "\<not> json_ws (CHR ''}'')"
    "\<not> json_ws (CHR '':'')" "\<not> json_ws (CHR 0x22)" "\<not> json_ws (CHR ''['')" "\<not> json_ws (CHR ''{'')"
  by (simp_all add: json_ws_def)

definition reads_back :: "string \<Rightarrow> json \<Rightarrow> bool" where
  "reads_back s j \<longleftrightarrow> (\<forall>n r. value_end r \<longrightarrow> length s \<le> n \<longrightarrow> parse_value n (s @ r) = Some (j, r))"

lemma reads_backD: "reads_back s j \<Longrightarrow> value_end r \<Longrightarrow> length s \<le> n \<Longrightarrow> parse_value n (s @ r) = Some (j, r)"
  by (simp add: reads_back_def)

lemma reads_backI:
  assumes "s \<noteq> []" "\<And>n r. value_end r \<Longrightarrow> length s \<le> Suc n \<Longrightarrow> parse_value (Suc n) (s @ r) = Some (j, r)"
  shows "reads_back s j"
  unfolding reads_back_def
proof (intro allI impI)
  fix n r
  assume "value_end r" "length s \<le> n"
  with assms show "parse_value n (s @ r) = Some (j, r)" by (cases n) auto
qed

lemma parse_elems_list:
  assumes "xs \<noteq> []" "list_all (\<lambda>x. reads_back (marshal x) (canon x)) xs"
    "length (join_with '','' (List.map marshal xs)) < n"
  shows "parse_elems n (join_with '','' (List.map marshal xs) @ '']'' @ r) = Some (List.map canon xs, r)"
  using assms
proof (induction xs arbitrary: n)
  case (Cons x xs)
  obtain m where m: "n = Suc m" using Cons.prems(3) by (cases n) auto
  show ?case
  proof (cases "xs = []")
    case True
    then show ?thesis using Cons.prems reads_backD [of "marshal x" "canon x" "CHR '']'' # r" m] by (simp add: m)
  next
    case False
    let ?t = "join_with '','' (List.map marshal xs) @ '']'' @ r"
    have eq: "join_with '','' (List.map marshal (x # xs)) = marshal x @ CHR '','' # join_with '','' (List.map marshal xs)"
      using False join_with_Cons [of "List.map marshal xs"] by simp
    have "parse_value m (marshal x @ CHR '','' # ?t) = Some (canon x, CHR '','' # ?t)"
      using Cons.prems reads_backD [of "marshal x" "canon x"] unfolding eq by (simp add: m)
    moreover have "parse_elems m ?t = Some (List.map canon xs, r)"
      using Cons.prems False unfolding eq by (intro Cons.IH) (simp_all add: m)
    ultimately show ?thesis unfolding eq by (simp add: m)
  qed
qed simp

lemma put_new: "k \<notin> set (gm_keys m) \<Longrightarrow> gm_put k v m = m @ [(k, v)]"
  by (induction m) auto

definition member_text :: "string \<times> string \<times> 'a \<Rightarrow> string" where
  "member_text = (\<lambda>(k, s, v). json_string k @ '':'' @ s)"

lemma parse_member:
  assumes "reads_back s v" "value_end (c # r)" "length (member_text (k, s, v)) \<le> n" "\<not> json_ws c"
  shows "parse_members (Suc n) ms (member_text (k, s, v) @ c # r)
    = (if c = CHR '','' then parse_members n (gm_put k v ms) r
       else if c = CHR ''}'' then Some (gm_put k v ms, r) else None)"
proof -
  have "parse_value n (s @ c # r) = Some (v, c # r)"
    using assms by (intro reads_backD) (simp_all add: member_text_def)
  then show ?thesis
    using assms(4) parse_chars_string [of k "CHR '':'' # s @ c # r"]
    by (simp add: member_text_def json_string_def)
qed

lemma parse_members_list:
  assumes "ts \<noteq> []" "list_all (\<lambda>(k, s, v). reads_back s v) ts" "distinct (gm_keys ms @ List.map fst ts)"
    "length (join_with '','' (List.map member_text ts)) < n"
  shows "parse_members n ms (join_with '','' (List.map member_text ts) @ ''}'' @ r)
    = Some (ms @ List.map (\<lambda>(k, s, v). (k, v)) ts, r)"
  using assms
proof (induction ts arbitrary: n ms)
  case (Cons x ts)
  obtain k s v where x: "x = (k, s, v)" by (cases x) auto
  obtain m where m: "n = Suc m" using Cons.prems(4) by (cases n) auto
  have put: "gm_put k v ms = ms @ [(k, v)]" using Cons.prems(3) by (intro put_new) (auto simp: x)
  have rb: "reads_back s v" using Cons.prems(2) by (simp add: x)
  show ?case
  proof (cases "ts = []")
    case True
    with Cons.prems rb put parse_member [of s v "CHR ''}''" r k m ms] show ?thesis by (simp add: x m)
  next
    case False
    let ?t = "join_with '','' (List.map member_text ts) @ ''}'' @ r"
    have eq: "join_with '','' (List.map member_text (x # ts)) = member_text x @ CHR '','' # join_with '','' (List.map member_text ts)"
      using False join_with_Cons [of "List.map member_text ts"] by simp
    have "parse_members m (ms @ [(k, v)]) ?t = Some ((ms @ [(k, v)]) @ List.map (\<lambda>(k, s, v). (k, v)) ts, r)"
      using Cons.prems False unfolding eq by (intro Cons.IH) (auto simp: m x)
    then show ?thesis
      using Cons.prems(4) put parse_member [OF rb, of "CHR '',''" ?t k m ms] unfolding eq by (simp add: x m)
  qed
qed simp

lemma insort_members_map:
  "insort_key fst (k, f v) (List.map (\<lambda>(k, v). (k, f v)) ms) = List.map (\<lambda>(k, v). (k, f v)) (insort_key fst (k, v) ms)"
  by (induction ms) auto

lemma sort_members_map:
  "sort_members (List.map (\<lambda>(k, v). (k, f v)) ms) = List.map (\<lambda>(k, v). (k, f v)) (sort_members ms)"
  by (induction ms) (auto simp: sort_members_def insort_members_map)

lemma array_reads_back:
  assumes xs: "list_all (\<lambda>x. reads_back (marshal x) (canon x)) xs"
  shows "reads_back (marshal (JArr xs)) (canon (JArr xs))"
proof (rule reads_backI)
  fix n r
  assume l: "length (marshal (JArr xs)) \<le> Suc n"
  show "parse_value (Suc n) (marshal (JArr xs) @ r) = Some (canon (JArr xs), r)"
  proof (cases xs)
    case (Cons x ys)
    let ?t = "join_with '','' (List.map marshal xs)"
    have "?t = marshal x @ (if ys = [] then [] else '','' @ join_with '','' (List.map marshal ys))"
      using join_with_Cons [of "List.map marshal ys"] by (simp add: Cons)
    then obtain c t where c: "?t = c # t" "\<not> json_ws c" "c \<noteq> CHR '']''"
      using marshal_first [of x] by force
    then have "token (?t @ '']'' @ r) = Some (c, t @ '']'' @ r)" by simp
    with c(3) parse_elems_list [of xs n r] xs l Cons show ?thesis by simp
  qed simp
qed simp

lemma object_reads_back:
  assumes "\<And>k v. (k, v) \<in> set ms \<Longrightarrow> reads_back (marshal v) (canon v)" "gm_ok ms"
  shows "reads_back (marshal (JObj ms)) (canon (JObj ms))"
proof -
  define ts where "ts = List.map (\<lambda>(k, v). (k, marshal v, canon v)) (sort_members ms)"
  let ?t = "join_with '','' (List.map member_text ts)"
  have "List.map (\<lambda>(k, s). json_string k @ '':'' @ s) (sort_members (List.map (\<lambda>(k, v). (k, marshal v)) ms))
      = List.map member_text ts"
    unfolding sort_members_map ts_def by (simp add: member_text_def case_prod_unfold)
  then have m: "marshal (JObj ms) = ''{'' @ ?t @ ''}''" by simp
  have c: "canon (JObj ms) = JObj (List.map (\<lambda>(k, s, v). (k, v)) ts)"
    by (simp add: sort_members_map ts_def) (simp add: case_prod_unfold)
  have "reads_back (marshal v) (canon v)" if "(k, v) \<in> set ms" for k v
    using assms(1) that by blast
  then have rb: "list_all (\<lambda>(k, s, v). reads_back s v) ts"
    by (auto simp: ts_def list_all_iff sort_members_def)
  have "distinct (List.map fst (sort_members ms))"
    using assms(2) by (simp add: gm_ok_def sort_members_def distinct_map)
  then have d: "distinct (List.map fst ts)" by (simp add: ts_def case_prod_unfold comp_def)
  show ?thesis
    unfolding m c
  proof (rule reads_backI)
    fix n r
    assume l: "length (''{'' @ ?t @ ''}'') \<le> Suc n"
    show "parse_value (Suc n) ((''{'' @ ?t @ ''}'') @ r) = Some (JObj (List.map (\<lambda>(k, s, v). (k, v)) ts), r)"
    proof (cases ts)
      case (Cons x ys)
      have "?t = member_text x @ (if ys = [] then [] else '','' @ join_with '','' (List.map member_text ys))"
        using join_with_Cons [of "List.map member_text ys"] by (simp add: Cons)
      then obtain t where t: "?t = CHR 0x22 # t"
        by (cases x) (auto simp: member_text_def json_string_def)
      then have "token (?t @ ''}'' @ r) = Some (CHR 0x22, t @ ''}'' @ r)" by simp
      with parse_members_list [of ts "[]" n r] rb d l Cons show ?thesis by simp
    qed simp
  qed simp
qed

lemma marshal_reads_back: "json_ok j \<Longrightarrow> reads_back (marshal j) (canon j)"
proof (induction j)
  case (JNum n)
  obtain c t where ct: "show_int n = c # t" "c = CHR ''-'' \<or> is_digit c"
    by (metis list.exhaust list.discI list.set_intros(1) show_int_chars show_int_def show_nat_digits)
  then have "c \<noteq> CHR ''{''" "c \<noteq> CHR ''[''" "c \<noteq> CHR 0x22" "\<not> json_ws c"
    by (auto simp: is_digit_def digit_chars_def json_ws_def)
  then show ?case
    using parse_scalar_show [of n] JNum by (intro reads_backI) (simp_all add: ct)
next
  case (JStr s)
  then show ?case
    using parse_chars_string [of s] by (intro reads_backI) (simp_all add: json_string_def)
next
  case (JArr xs)
  then have "list_all (\<lambda>x. reads_back (marshal x) (canon x)) xs" by (simp add: list_all_iff)
  then show ?case by (rule array_reads_back)
next
  case (JObj ms)
  then show ?case by (intro object_reads_back) (auto simp: list_all_iff)
qed (auto intro!: reads_backI simp: parse_scalar_def json_ws_def)

theorem unmarshal_marshal: "json_ok j \<Longrightarrow> unmarshal (marshal j) = Some (canon j)"
  using reads_backD [OF marshal_reads_back, of j "[]" "Suc (length (marshal j))"]
  by (simp add: unmarshal_def value_end_def skip_ws_def del: parse_value.simps)

text \<open>Sorting once is enough, and it is what printing does.\<close>

lemma marshal_canon: "marshal (canon j) = marshal j"
proof (induction j)
  case (JArr xs)
  then have "List.map (\<lambda>x. marshal (canon x)) xs = List.map marshal xs" by simp
  then show ?case by (simp add: comp_def del: map_eq_conv)
next
  case (JObj ms)
  have s: "sort_members (sort_members ms) = sort_members ms" for ms :: "(string \<times> 'a) list"
    by (simp add: sort_members_def sort_key_id_if_sorted)
  have m: "List.map (\<lambda>(k, v). (k, marshal (canon v))) ms = List.map (\<lambda>(k, v). (k, marshal v)) ms"
    using JObj by (auto simp: case_prod_unfold)
  have "sort_members (List.map (\<lambda>(k, v). (k, marshal v)) (sort_members (List.map (\<lambda>(k, v). (k, canon v)) ms)))
      = sort_members (List.map (\<lambda>(k, v). (k, marshal (canon v))) ms)"
    unfolding sort_members_map [of marshal] sort_members_map [of canon] sort_members_map [of "\<lambda>v. marshal (canon v)"] s
    by (simp add: case_prod_unfold)
  then show ?case by (simp add: m)
qed simp_all

text \<open>What is read is a value Go can hold.\<close>

lemma update_ok: "gm_ok ms \<Longrightarrow> list_all (\<lambda>(k, v). P v) ms \<Longrightarrow> P v \<Longrightarrow>
    gm_ok (gm_put k v ms) \<and> list_all (\<lambda>(k, v). P v) (gm_put k v ms)"
  by (simp add: map_simps) (induction ms, auto simp: gm_ok_def)

lemma parse_scalar_ok: "parse_scalar s = Some (j, r) \<Longrightarrow> json_ok j"
  by (auto simp: parse_scalar_def parse_number_def Let_def split: if_splits)

lemma parse_ok:
  "parse_value n s = Some (j, r) \<Longrightarrow> json_ok j"
  "parse_elems n s = Some (xs, r) \<Longrightarrow> list_all json_ok xs"
  "parse_members n ms s = Some (ys, r) \<Longrightarrow> gm_ok ms \<Longrightarrow> list_all (\<lambda>(k, v). json_ok v) ms \<Longrightarrow>
     gm_ok ys \<and> list_all (\<lambda>(k, v). json_ok v) ys"
proof (induction n s and n s and n ms s arbitrary: j r and xs r and ys r
    rule: parse_value_parse_elems_parse_members.induct)
  case (2 n s)
  then obtain c t where t: "token s = Some (c, t)" by (auto split: Option.bind_splits)
  consider "c = CHR ''{''" | "c = CHR ''[''" | "c \<noteq> CHR ''{''" "c \<noteq> CHR ''[''" by blast
  then show ?case
  proof cases
    case 1
    with "2.prems" t "2.IH"(1) [OF t refl 1] show ?thesis
      by (auto split: Option.bind_splits if_splits simp: map_simps)
  next
    case 2
    with "2.prems" t "2.IH"(2) [OF t refl _ 2] show ?thesis
      by (auto split: Option.bind_splits if_splits)
  next
    case 3
    with "2.prems" t parse_scalar_ok show ?thesis by (auto split: if_splits)
  qed
next
  case (4 n s)
  then obtain v t c u where v: "parse_value n s = Some (v, t)" and u: "token t = Some (c, u)"
    by (auto split: Option.bind_splits)
  with "4.prems" "4.IH"(1) [OF v] "4.IH"(2) [OF v refl u refl] show ?case by (auto split: if_splits)
next
  case (6 n ms s)
  then obtain c t k u d w where t: "token s = Some (c, t)" "c = CHR 0x22" "parse_chars t = Some (k, u)"
      "token u = Some (d, w)" "d = CHR '':''"
    by (auto split: Option.bind_splits if_splits)
  with "6.prems" obtain v x e y where v: "parse_value n w = Some (v, x)" "token x = Some (e, y)"
    by (auto split: Option.bind_splits if_splits)
  have nt: "\<not> c \<noteq> CHR 0x22" "\<not> d \<noteq> CHR '':''" using t by auto
  have "json_ok v" by (rule "6.IH"(1) [OF t(1) refl nt(1) t(3) refl t(4) refl nt(2) v(1)])
  then have ok: "gm_ok (gm_put k v ms)" "list_all (\<lambda>(k, v). json_ok v) (gm_put k v ms)"
    using update_ok [of ms json_ok v k] "6.prems" by auto
  show ?case
  proof (cases "e = CHR '',''")
    case True
    with "6.prems" t v have "parse_members n (gm_put k v ms) y = Some (ys, r)" by auto
    from "6.IH"(2) [OF t(1) refl nt(1) t(3) refl t(4) refl nt(2) v(1) refl v(2) refl True this ok] show ?thesis .
  next
    case False
    with "6.prems" t v ok show ?thesis by (auto split: if_splits)
  qed
qed simp_all

theorem unmarshal_ok: "unmarshal s = Some j \<Longrightarrow> json_ok j"
  using parse_ok(1) [of "Suc (length s)" s]
  by (auto simp: unmarshal_def simp del: parse_value.simps split: Option.bind_splits if_splits)

lemma json_ok_canon: "json_ok j \<Longrightarrow> json_ok (canon j)"
proof (induction j)
  case (JObj ms)
  have "distinct (List.map fst (sort_members ms))"
    using JObj.prems by (simp add: gm_ok_def sort_members_def distinct_map)
  then have "gm_ok (List.map (\<lambda>(k, v). (k, canon v)) (sort_members ms))"
    by (simp add: gm_ok_def case_prod_unfold comp_def)
  moreover have "json_ok (canon v)" if "(k, v) \<in> set (sort_members ms)" for k v
    using JObj that by (fastforce simp: list_all_iff sort_members_def)
  moreover have "canon (JObj ms) = JObj (List.map (\<lambda>(k, v). (k, canon v)) (sort_members ms))"
    by (simp add: sort_members_map)
  ultimately show ?case by (auto simp: list_all_iff)
qed (auto simp: list_all_iff)

end
