(* ===== verification/Orgs.thy ===== *)
theory Orgs
  imports JsonParse
begin

text \<open>
  \<open>orgs/keys.go\<close> and \<open>orgs/restore.go\<close>: the keys of an organisation are picked out of blocks of Redis keys,
  written as one line of JSON per key, and read back in batches.  The answers of Redis and the JSON decoder are
  arguments; \<open>unmarshal\<close> is the decoder of the round trip.  The goroutines are in \<open>OrgsDump\<close>.
\<close>

section \<open>Keys\<close>

text \<open>\<open>rk_Value\<close> is an object, or null for the nil map.\<close>

record redisKey =
  rk_Name :: string
  rk_TTL :: int
  rk_Value :: json

definition redisKey_json :: "redisKey \<Rightarrow> json" where
  "redisKey_json k = JObj [(''name'', JStr (rk_Name k)), (''ttl'', JNum (rk_TTL k)), (''value'', rk_Value k)]"

text \<open>\<open>func getOrgId(jsonVal map[string]interface{}) (string, error)\<close>\<close>

definition getOrgId :: "(string, json) gomap \<Rightarrow> string + string" where
  "getOrgId jsonVal =
     (let dataContainer = (case gm_get jsonVal ''UserData'' of Some (JObj ud) \<Rightarrow> ud | _ \<Rightarrow> jsonVal)
      in case gm_get dataContainer ''org_id'' of
           Some (JStr v) \<Rightarrow> Inr v
         | Some _ \<Rightarrow> Inl ''org_id is not a string''
         | None \<Rightarrow> Inl ''org_id container not found'')"

text \<open>
  What Redis answers: the values of the keys of a block, and the time to live of the key at an index of a
  block, in nanoseconds.
\<close>

record redis_env =
  re_mget :: "nat \<Rightarrow> string list \<Rightarrow> string + string option list"
  re_ttl :: "nat \<Rightarrow> nat \<Rightarrow> string \<Rightarrow> string + int"
  re_decode :: "string \<Rightarrow> json option"

text \<open>\<open>int64(duration.Seconds())\<close>, which rounds towards zero.\<close>

definition seconds :: "int \<Rightarrow> int" where
  "seconds ns = (if ns < 0 then - (- ns div 10 ^ 9) else ns div 10 ^ 9)"

definition getTTL :: "redis_env \<Rightarrow> nat \<Rightarrow> nat \<Rightarrow> string \<Rightarrow> string + int" where
  "getTTL env b i keyName = (case re_ttl env b i keyName of Inl e \<Rightarrow> Inl e | Inr ns \<Rightarrow> Inr (seconds ns))"

text \<open>The target of \<open>json.Unmarshal\<close> is a map: null leaves it empty.\<close>

definition as_map :: "json \<Rightarrow> (string, json) gomap option" where
  "as_map j = (case j of JObj ms \<Rightarrow> Some ms | JNull \<Rightarrow> Some [] | _ \<Rightarrow> None)"

definition key_at :: "string list \<Rightarrow> nat \<Rightarrow> string go" where
  "key_at keys i = (if i < length keys then Done (keys ! i) else Panic ''index out of range'')"

definition key_line :: "redisKey \<Rightarrow> string" where
  "key_line k = marshal (redisKey_json k) @ [CHR 0x0A]"

text \<open>One turn of the inner loop of \<open>filterOrg\<close>: what it writes for the value at an index of a block.\<close>

definition filter_val :: "redis_env \<Rightarrow> string \<Rightarrow> nat \<Rightarrow> string list \<Rightarrow> nat \<Rightarrow> string option \<Rightarrow> string go" where
  "filter_val env org b keys i val =
     (case val of
        None \<Rightarrow> go_bind (key_at keys i) (\<lambda>_. Done [])
      | Some s \<Rightarrow>
          if s = ''0'' then go_bind (key_at keys i) (\<lambda>_. Done [])
          else (case Option.bind (re_decode env s) as_map of
                  None \<Rightarrow> Done []
                | Some jsonVal \<Rightarrow>
                    (case getOrgId jsonVal of
                       Inl e \<Rightarrow> Done []
                     | Inr orgIdValue \<Rightarrow>
                         if orgIdValue = org then
                           go_bind (key_at keys i) (\<lambda>k.
                             Done (key_line \<lparr>rk_Name = k,
                               rk_TTL = (case getTTL env b i k of Inl _ \<Rightarrow> 0 | Inr t \<Rightarrow> t),
                               rk_Value = JObj jsonVal\<rparr>))
                         else Done [])))"

text \<open>\<open>for i, val := range values\<close>\<close>

fun filter_vals :: "redis_env \<Rightarrow> string \<Rightarrow> nat \<Rightarrow> string list \<Rightarrow> nat \<Rightarrow> string option list \<Rightarrow> string go" where
  "filter_vals env org b keys i [] = Done []"
| "filter_vals env org b keys i (val # vals) =
     go_bind (filter_val env org b keys i val) (\<lambda>out.
       go_bind (filter_vals env org b keys (Suc i) vals) (\<lambda>rest. Done (out @ rest)))"

text \<open>\<open>for keys := range r.keysChans[org]\<close>, over the blocks received; a failed MGET yields no values.\<close>

fun filter_blocks :: "redis_env \<Rightarrow> string \<Rightarrow> nat \<Rightarrow> string list list \<Rightarrow> string go" where
  "filter_blocks env org b [] = Done []"
| "filter_blocks env org b (keys # blocks) =
     go_bind (filter_vals env org b keys 0 (case re_mget env b keys of Inl _ \<Rightarrow> [] | Inr vs \<Rightarrow> vs)) (\<lambda>out.
       go_bind (filter_blocks env org (Suc b) blocks) (\<lambda>rest. Done (out @ rest)))"

text \<open>\<open>func (r *RedisClient) filterOrg(org string)\<close>: the file it leaves.\<close>

definition filterOrg :: "(string \<Rightarrow> string option) \<Rightarrow> redis_env \<Rightarrow> (string, string) gomap \<Rightarrow> string \<Rightarrow> string list list \<Rightarrow> string go" where
  "filterOrg create env opFiles org blocks =
     (case create (gm_get0 [] opFiles org) of
        Some e \<Rightarrow> Fatal ''cannot create''
      | None \<Rightarrow> filter_blocks env org 0 blocks)"

section \<open>Restoring\<close>

definition batchSize :: nat where "batchSize = 100"

text \<open>\<open>json.Unmarshal\<close> into a \<open>redisKey\<close>; field names are matched ignoring case.\<close>

definition set_member :: "string \<times> json \<Rightarrow> redisKey \<Rightarrow> redisKey option" where
  "set_member = (\<lambda>(name, j) k.
     if to_lower name = ''name'' then
       (case j of JStr s \<Rightarrow> Some (k\<lparr>rk_Name := s\<rparr>) | JNull \<Rightarrow> Some k | _ \<Rightarrow> None)
     else if to_lower name = ''ttl'' then
       (case j of JNum n \<Rightarrow> Some (k\<lparr>rk_TTL := n\<rparr>) | JNull \<Rightarrow> Some k | _ \<Rightarrow> None)
     else if to_lower name = ''value'' then
       (case j of JObj ms \<Rightarrow> Some (k\<lparr>rk_Value := JObj ms\<rparr>) | JNull \<Rightarrow> Some (k\<lparr>rk_Value := JNull\<rparr>) | _ \<Rightarrow> None)
     else Some k)"

fun set_members :: "(string \<times> json) list \<Rightarrow> redisKey \<Rightarrow> redisKey option" where
  "set_members [] k = Some k"
| "set_members (m # ms) k = Option.bind (set_member m k) (set_members ms)"

definition no_key :: redisKey where "no_key = \<lparr>rk_Name = [], rk_TTL = 0, rk_Value = JNull\<rparr>"

definition decode_key :: "(string \<Rightarrow> json option) \<Rightarrow> string \<Rightarrow> redisKey option" where
  "decode_key decode line = Option.bind (decode line) (\<lambda>j. Option.bind (as_map j) (\<lambda>ms. set_members ms no_key))"

text \<open>The loop of \<open>streamKeys\<close>: the batches it sends, given the keys it holds back.\<close>

fun stream_lines :: "(string \<Rightarrow> redisKey option) \<Rightarrow> nat \<Rightarrow> redisKey list \<Rightarrow> string list \<Rightarrow> redisKey list list" where
  "stream_lines dec n redisKeys [] = (if redisKeys = [] then [] else [redisKeys])"
| "stream_lines dec n redisKeys (line # lines) =
     (case dec line of
        None \<Rightarrow> stream_lines dec n redisKeys lines
      | Some key \<Rightarrow>
          (let redisKeys = redisKeys @ [key]
           in if length redisKeys = n then redisKeys # stream_lines dec n [] lines
              else stream_lines dec n redisKeys lines))"

text \<open>\<open>func streamKeys(filepath string, keyChan chan<- []redisKey, batchSize int)\<close>: all that it sends.\<close>

definition streamKeys ::
  "(string \<Rightarrow> string + string) \<Rightarrow> (string \<Rightarrow> json option) \<Rightarrow> string \<Rightarrow> nat \<Rightarrow> redisKey list list go" where
  "streamKeys open_file decode path n =
     (case open_file path of
        Inl e \<Rightarrow> Panic e
      | Inr content \<Rightarrow> Done (stream_lines (decode_key decode) n [] (scan_lines content)))"

text \<open>\<open>writeKeys\<close>: its body is commented out, and it succeeds without a command to Redis.\<close>

datatype redis_command = SetKey string string int

definition writeKeys :: "redisKey list \<Rightarrow> string option \<times> redis_command list" where
  "writeKeys keys = (None, [])"

text \<open>
  \<open>func (r *RedisClient) RestoreKeys(dumpFile string)\<close>: the commands it sends, and the counts it logs as
  written.
\<close>

fun restore_batches :: "nat \<Rightarrow> redisKey list list \<Rightarrow> (redis_command list \<times> nat list) go" where
  "restore_batches nWrote [] = Done ([], [])"
| "restore_batches nWrote (redisKeys # rest) =
     (case writeKeys redisKeys of
        (Some e, _) \<Rightarrow> Fatal ''could not write to redis''
      | (None, cmds) \<Rightarrow>
          go_bind (restore_batches (nWrote + length redisKeys) rest) (\<lambda>(cmds', logged).
            Done (cmds @ cmds', (nWrote + length redisKeys) # logged)))"

definition RestoreKeys ::
  "(string \<Rightarrow> string + string) \<Rightarrow> (string \<Rightarrow> json option) \<Rightarrow> string \<Rightarrow> (redis_command list \<times> nat list) go" where
  "RestoreKeys open_file decode dumpFile = go_bind (streamKeys open_file decode dumpFile batchSize) (restore_batches 0)"

section \<open>What the files hold\<close>

text \<open>The specification: the records of the keys of an organisation, in the order they come.\<close>

definition of_org :: "(string \<Rightarrow> json option) \<Rightarrow> string \<Rightarrow> string \<Rightarrow> (string, json) gomap option" where
  "of_org decode org s =
     (if s = ''0'' then None
      else case Option.bind (decode s) as_map of
             None \<Rightarrow> None
           | Some ms \<Rightarrow> if getOrgId ms = Inr org then Some ms else None)"

definition record_of :: "redis_env \<Rightarrow> nat \<Rightarrow> nat \<Rightarrow> string \<Rightarrow> (string, json) gomap \<Rightarrow> redisKey" where
  "record_of env b i k ms = \<lparr>rk_Name = k,
     rk_TTL = (case re_ttl env b i k of Inl _ \<Rightarrow> 0 | Inr ns \<Rightarrow> seconds ns), rk_Value = JObj ms\<rparr>"

fun block_records :: "redis_env \<Rightarrow> string \<Rightarrow> nat \<Rightarrow> nat \<Rightarrow> string list \<Rightarrow> string option list \<Rightarrow> redisKey list" where
  "block_records env org b i (k # ks) (v # vs) =
     (case Option.bind v (of_org (re_decode env) org) of
        None \<Rightarrow> block_records env org b (Suc i) ks vs
      | Some ms \<Rightarrow> record_of env b i k ms # block_records env org b (Suc i) ks vs)"
| "block_records env org b i _ _ = []"

definition answered :: "redis_env \<Rightarrow> nat \<Rightarrow> string list \<Rightarrow> string option list" where
  "answered env b keys = (case re_mget env b keys of Inl _ \<Rightarrow> [] | Inr vs \<Rightarrow> vs)"

fun org_records :: "redis_env \<Rightarrow> string \<Rightarrow> nat \<Rightarrow> string list list \<Rightarrow> redisKey list" where
  "org_records env org b [] = []"
| "org_records env org b (keys # blocks) =
     block_records env org b 0 keys (answered env b keys) @ org_records env org (Suc b) blocks"

text \<open>MGET answers with a value, possibly nil, for each key.\<close>

definition mget_ok :: "redis_env \<Rightarrow> bool" where
  "mget_ok env \<longleftrightarrow> (\<forall>b keys vs. re_mget env b keys = Inr vs \<longrightarrow> length vs = length keys)"

lemma filter_val_spec:
  assumes "i < length keys"
  shows "filter_val env org b keys i v
    = Done (case Option.bind v (of_org (re_decode env) org) of
              None \<Rightarrow> [] | Some ms \<Rightarrow> key_line (record_of env b i (keys ! i) ms))"
proof (cases v)
  case (Some s)
  then show ?thesis
    using assms
    by (cases "Option.bind (re_decode env s) as_map"; cases "re_ttl env b i (keys ! i)")
      (auto simp: filter_val_def of_org_def key_at_def record_of_def getTTL_def split: sum.splits)
qed (use assms in \<open>simp add: filter_val_def key_at_def\<close>)

lemma filter_vals_spec:
  "length vs \<le> length keys - i \<Longrightarrow> i \<le> length keys \<Longrightarrow>
   filter_vals env org b keys i vs = Done (concat (List.map key_line (block_records env org b i (drop i keys) vs)))"
proof (induction vs arbitrary: i)
  case (Cons v vs)
  then have i: "i < length keys" by simp
  have "drop i keys = keys ! i # drop (Suc i) keys" using i by (simp add: Cons_nth_drop_Suc)
  with Cons i show ?case
    by (cases "Option.bind v (of_org (re_decode env) org)") (simp_all add: filter_val_spec)
qed (simp add: block_records.simps(2))

lemma answered_length: "mget_ok env \<Longrightarrow> length (answered env b keys) \<le> length keys"
  by (auto simp: answered_def mget_ok_def split: sum.splits)

lemma filter_blocks_spec:
  "mget_ok env \<Longrightarrow> filter_blocks env org b blocks = Done (concat (List.map key_line (org_records env org b blocks)))"
proof (induction blocks arbitrary: b)
  case (Cons keys blocks)
  then show ?case
    using filter_vals_spec [of "answered env b keys" keys 0] answered_length [of env b keys]
    by (simp add: answered_def)
qed simp

text \<open>
  What \<open>filterOrg\<close> leaves in the file of an organisation: one line for each key whose value is the
  JSON object of that organisation, in the order of the blocks, and nothing else; nil and zero values,
  values that do not decode and those of other organisations leave no trace.
\<close>

theorem filter_org_file:
  assumes "mget_ok env" "create (gm_get0 [] opFiles org) = None"
  shows "filterOrg create env opFiles org blocks = Done (concat (List.map key_line (org_records env org 0 blocks)))"
  using assms by (simp add: filterOrg_def filter_blocks_spec)

section \<open>Reading the files back\<close>

definition canon_key :: "redisKey \<Rightarrow> redisKey" where
  "canon_key k = k\<lparr>rk_Value := canon (rk_Value k)\<rparr>"

definition key_ok :: "redisKey \<Rightarrow> bool" where
  "key_ok k \<longleftrightarrow> json_ok (rk_Value k) \<and> as_map (rk_Value k) \<noteq> None \<and> \<bar>rk_TTL k\<bar> \<le> max_float_int"

lemma as_map_cases: "as_map j \<noteq> None \<Longrightarrow> j = JNull \<or> (\<exists>ms. j = JObj ms)"
  by (cases j) (auto simp: as_map_def)

lemma lower_members [simp]:
  "to_lower ''name'' = ''name''" "to_lower ''ttl'' = ''ttl''" "to_lower ''value'' = ''value''"
  by code_simp+

lemma decode_key_line:
  assumes "key_ok k"
  shows "decode_key unmarshal (marshal (redisKey_json k)) = Some (canon_key k)"
proof -
  have ok: "json_ok (redisKey_json k)" using assms by (simp add: key_ok_def redisKey_json_def gm_ok_def)
  have "canon (redisKey_json k) = JObj [(''name'', JStr (rk_Name k)), (''ttl'', JNum (rk_TTL k)), (''value'', canon (rk_Value k))]"
    by (simp add: redisKey_json_def sort_members_def)
  moreover have "rk_Value k = JNull \<or> (\<exists>ms. rk_Value k = JObj ms)"
    using as_map_cases assms by (auto simp: key_ok_def)
  ultimately show ?thesis
    using unmarshal_marshal [OF ok] by (auto simp: decode_key_def as_map_def set_member_def canon_key_def no_key_def)
qed

text \<open>The batches: what is sent is the keys of the lines that decode, cut into pieces of the batch size.\<close>

lemma stream_concat: "concat (stream_lines dec n held ls) = held @ List.map_filter dec ls"
  by (induction dec n held ls rule: stream_lines.induct)
    (auto simp: List.map_filter_def Let_def split: option.splits)

definition full_but_last :: "nat \<Rightarrow> 'a list list \<Rightarrow> bool" where
  "full_but_last n bs \<longleftrightarrow> (\<forall>b \<in> set bs. b \<noteq> [] \<and> length b \<le> n) \<and> (\<forall>b \<in> set (butlast bs). length b = n)"

lemma full_but_last_Cons:
  "full_but_last n bs \<Longrightarrow> length b = n \<Longrightarrow> 0 < n \<Longrightarrow> full_but_last n (b # bs)"
  by (auto simp: full_but_last_def)

lemma stream_sizes: "length held < n \<Longrightarrow> full_but_last n (stream_lines dec n held ls)"
proof (induction dec n held ls rule: stream_lines.induct)
  case (1 dec n held)
  then show ?case by (simp add: full_but_last_def)
next
  case (2 dec n held l ls)
  then show ?case by (auto simp: Let_def intro: full_but_last_Cons split: option.splits)
qed

text \<open>
  (C38) \<open>streamKeys\<close> sends no empty batch and none larger than the batch size, and only the last may be
  smaller; together the batches are the keys of the lines that decode, in order, each once.
\<close>

theorem stream_batches:
  assumes "open_file path = Inr content" "0 < n"
  shows "\<exists>bs. streamKeys open_file decode path n = Done bs \<and> full_but_last n bs
    \<and> concat bs = List.map_filter (decode_key decode) (scan_lines content)"
  using assms stream_concat [of "decode_key decode" n "[]"] stream_sizes [of "[]" n "decode_key decode"]
  by (simp add: streamKeys_def)

lemma key_line_no_newline: "CHR 0x0A \<notin> set (marshal (redisKey_json k)) \<and> last (marshal (redisKey_json k)) \<noteq> CHR 0x0D"
  using marshal_no_newline [of "redisKey_json k"] unfolding redisKey_json_def by simp

lemma scan_key_lines:
  "scan_lines (concat (List.map key_line ks))
    = takeWhile (\<lambda>l. length l < MaxScanTokenSize) (List.map (\<lambda>k. marshal (redisKey_json k)) ks)"
  using scan_lines_lines [of "List.map (\<lambda>k. marshal (redisKey_json k)) ks"] key_line_no_newline
  by (simp add: key_line_def [abs_def] comp_def)

lemma map_filter_all: "(\<And>x. x \<in> set xs \<Longrightarrow> f x = Some (g x)) \<Longrightarrow> List.map_filter f xs = List.map g xs"
  by (induction xs) (auto simp: List.map_filter_def)

definition short_line :: "redisKey \<Rightarrow> bool" where
  "short_line k \<longleftrightarrow> length (marshal (redisKey_json k)) < MaxScanTokenSize"

lemma decode_key_lines:
  assumes "\<forall>k \<in> set ks. key_ok k"
  shows "List.map_filter (decode_key unmarshal) (scan_lines (concat (List.map key_line ks)))
    = List.map canon_key (takeWhile short_line ks)"
proof -
  have "List.map_filter (decode_key unmarshal) (List.map (\<lambda>k. marshal (redisKey_json k)) (takeWhile short_line ks))
      = List.map_filter (\<lambda>k. decode_key unmarshal (marshal (redisKey_json k))) (takeWhile short_line ks)"
    by (simp add: List.map_filter_def comp_def filter_map)
  also have "\<dots> = List.map canon_key (takeWhile short_line ks)"
    using assms by (intro map_filter_all decode_key_line) (auto dest: set_takeWhileD)
  finally show ?thesis unfolding scan_key_lines takeWhile_map by (simp add: comp_def short_line_def [abs_def])
qed

lemma block_records_all:
  assumes "\<forall>i k s ms. of_org (re_decode env) org s = Some ms \<longrightarrow> P (record_of env b i k ms)"
  shows "list_all P (block_records env org b i ks vs)"
  using assms
  by (induction env org b i ks vs rule: block_records.induct) (auto split: option.splits Option.bind_splits)

lemma org_records_all:
  assumes "\<forall>b i k s ms. of_org (re_decode env) org s = Some ms \<longrightarrow> P (record_of env b i k ms)"
  shows "list_all P (org_records env org b blocks)"
  using assms by (induction blocks arbitrary: b) (auto intro!: block_records_all)

lemma seconds_bound: "\<bar>ns\<bar> < 2 ^ 63 \<Longrightarrow> \<bar>seconds ns\<bar> \<le> max_float_int"
  by (auto simp: seconds_def max_float_int_def)

text \<open>A duration is a 64-bit number of nanoseconds.\<close>

definition ttl_ok :: "redis_env \<Rightarrow> bool" where
  "ttl_ok env \<longleftrightarrow> (\<forall>b i k ns. re_ttl env b i k = Inr ns \<longrightarrow> \<bar>ns\<bar> < 2 ^ 63)"

lemma org_records_ok:
  assumes "re_decode env = unmarshal" "ttl_ok env"
  shows "list_all key_ok (org_records env org b blocks)"
proof (intro org_records_all allI impI)
  fix b i k s ms
  assume "of_org (re_decode env) org s = Some ms"
  then obtain j where j: "unmarshal s = Some j" "as_map j = Some ms" "getOrgId ms = Inr org"
    by (auto simp: of_org_def assms(1) split: if_splits option.splits Option.bind_splits)
  then have "j = JObj ms" by (cases j) (auto simp: as_map_def getOrgId_def)
  moreover have "0 \<le> max_float_int" by (simp add: max_float_int_def)
  ultimately show "key_ok (record_of env b i k ms)"
    using assms(2) unmarshal_ok [OF j(1)]
    by (auto simp: key_ok_def record_of_def as_map_def ttl_ok_def seconds_bound split: sum.splits)
qed


lemma restore_counts:
  "\<exists>cmds logged. restore_batches m bs = Done (cmds, logged) \<and> cmds = []
    \<and> (bs \<noteq> [] \<longrightarrow> last logged = m + length (concat bs)) \<and> (bs \<noteq> [] \<longrightarrow> logged \<noteq> [])"
proof (induction bs arbitrary: m)
  case (Cons b bs)
  from Cons [of "m + length b"] obtain logged where
    "restore_batches (m + length b) bs = Done ([], logged)"
    "bs \<noteq> [] \<longrightarrow> last logged = m + length b + length (concat bs) \<and> logged \<noteq> []" by auto
  then show ?case by (cases "bs = []") (auto simp: writeKeys_def)
qed simp

text \<open>
  \<open>RestoreKeys\<close> restores nothing: whatever the file, no command reaches Redis, while the last count it
  logs as written is the number of keys it read.
\<close>

theorem restore_writes_nothing:
  assumes "open_file dumpFile = Inr content" "List.map_filter (decode_key decode) (scan_lines content) \<noteq> []"
  shows "\<exists>logged. RestoreKeys open_file decode dumpFile = Done ([], logged)
    \<and> last logged = length (List.map_filter (decode_key decode) (scan_lines content))"
proof -
  let ?bs = "stream_lines (decode_key decode) batchSize [] (scan_lines content)"
  have c: "concat ?bs = List.map_filter (decode_key decode) (scan_lines content)" by (simp add: stream_concat)
  with assms(2) have "?bs \<noteq> []" by auto
  with restore_counts [of 0 ?bs] assms(1) c show ?thesis by (auto simp: RestoreKeys_def streamKeys_def)
qed

section \<open>Examples\<close>

definition sample_values :: "(string, string) gomap" where
  "sample_values =
     [(''apikey-1'', marshal (JObj [(''org_id'', JStr ''o1''), (''rate'', JNum 5)])),
      (''apikey-2'', marshal (JObj [(''UserData'', JObj [(''org_id'', JStr ''o1'')])])),
      (''apikey-3'', marshal (JObj [(''org_id'', JStr ''o2'')])),
      (''apikey-4'', ''0'')]"

definition sample_env :: redis_env where
  "sample_env = \<lparr>re_mget = (\<lambda>b keys. Inr (List.map (gm_get sample_values) keys)),
     re_ttl = (\<lambda>b i k. if k = ''apikey-2'' then Inl ''timeout'' else Inr 5500000000), re_decode = unmarshal\<rparr>"

definition sample_blocks :: "string list list" where
  "sample_blocks = [[''apikey-1'', ''apikey-4''], [], [''gone'', ''apikey-3'', ''apikey-2'']]"

lemma sample_env_ok: "mget_ok sample_env" "ttl_ok sample_env" "re_decode sample_env = unmarshal"
  by (auto simp: mget_ok_def ttl_ok_def sample_env_def split: if_splits)

lemma sample_records:
  "List.map rk_Name (org_records sample_env ''o1'' 0 sample_blocks) = [''apikey-1'', ''apikey-2''] \<and>
   List.map rk_TTL (org_records sample_env ''o1'' 0 sample_blocks) = [5, 0]"
  by code_simp

theorem filter_org_file_witness:
  "filterOrg (\<lambda>f. None) sample_env [(''o1'', ''o1.keys.jl'')] ''o1'' sample_blocks
    = Done (concat (List.map key_line (org_records sample_env ''o1'' 0 sample_blocks)))
   \<and> length (org_records sample_env ''o1'' 0 sample_blocks) = 2"
  using filter_org_file [OF sample_env_ok(1), of "\<lambda>f. None" "[(''o1'', ''o1.keys.jl'')]" "''o1''" sample_blocks]
    arg_cong [OF conjunct1 [OF sample_records], of length] by simp

theorem stream_batches_witness:
  "\<exists>bs. streamKeys (\<lambda>_. Inr ''{}'') unmarshal ''dump'' 2 = Done bs \<and> full_but_last 2 bs
    \<and> concat bs = List.map_filter (decode_key unmarshal) (scan_lines ''{}'')"
  by (rule stream_batches) simp_all


theorem restore_writes_nothing_witness:
  "\<exists>logged. RestoreKeys (\<lambda>_. Inr ''{}'') unmarshal ''dump'' = Done ([], logged) \<and> last logged = 1"
proof -
  define ks where "ks = List.map_filter (decode_key unmarshal) (scan_lines ''{}'')"
  have "scan_lines ''{}'' = [''{}'']" by (simp add: scan_lines_def drop_cr_def MaxScanTokenSize_def)
  moreover have "decode_key unmarshal ''{}'' = Some no_key" by code_simp
  ultimately have "length ks = 1" by (simp add: ks_def List.map_filter_def)
  then have "ks \<noteq> []" by auto
  then have "\<exists>logged. RestoreKeys (\<lambda>_. Inr ''{}'') unmarshal ''dump'' = Done ([], logged) \<and> last logged = length ks"
    unfolding ks_def by (intro restore_writes_nothing) simp_all
  then show ?thesis unfolding \<open>length ks = 1\<close> .
qed

end
