(* ===== verification/OrgsDump.thy ===== *)
theory OrgsDump
  imports Orgs
begin

text \<open>
  The goroutines of \<open>DumpOrgKeys\<close> (\<open>orgs/keys.go\<close>) as a step relation: the main goroutine spawns a worker per
  organisation, scans Redis and sends blocks of keys on the organisation's buffered channel; a worker takes
  the blocks and writes the file.  The wait group is a counter that a worker raises when it starts running.
\<close>

section \<open>The client\<close>

record RedisClient =
  rc_cap :: nat
  rc_opFiles :: "(string, string) gomap"

text \<open>\<open>func NewRedisClient\<close>: the capacity of its channels and the output files; a negative capacity panics.\<close>

definition NewRedisClient :: "int \<Rightarrow> string list \<Rightarrow> string \<Rightarrow> RedisClient go" where
  "NewRedisClient BatchSize orgs dir =
     (if orgs \<noteq> [] \<and> BatchSize < 0 then Panic ''makechan: size out of range''
      else Done \<lparr>rc_cap = nat BatchSize,
        rc_opFiles = fold (\<lambda>org. gm_put org (filepath_join [dir, org @ ''.keys.jl''])) orgs []\<rparr>)"

section \<open>States\<close>

text \<open>
  Where the main goroutine is.  After the organisation (or those left to do) come the patterns and the
  organisations left; \<open>ScanKeys\<close> and \<open>SendKeys\<close> carry the cursor.
\<close>

datatype main_pc =
    NextOrg "string list"
  | NextPattern string "string list" "string list"
  | ScanKeys string nat "string list" "string list"
  | SendKeys string "string list" nat "string list" "string list"
  | WaitGroup
  | Returned
  | Died string

text \<open>A worker has not run yet, or has taken some blocks, or is done.\<close>

datatype worker = Spawned | Running "string list list" | Finished

text \<open>The field \<open>d_sent\<close> is history: all blocks sent on a channel so far.\<close>

record dump_state =
  d_pc :: main_pc
  d_workers :: "(string \<times> worker) list"
  d_buf :: "string \<Rightarrow> string list list"
  d_closed :: "string \<Rightarrow> bool"
  d_count :: nat
  d_files :: "string \<Rightarrow> string option"
  d_sent :: "string \<Rightarrow> string list list"

record dump_cfg =
  c_env :: redis_env
  c_client :: RedisClient
  c_create :: "string \<Rightarrow> string option"
  c_patterns :: "string list"

definition opFile :: "dump_cfg \<Rightarrow> string \<Rightarrow> string" where
  "opFile c org = gm_get0 [] (rc_opFiles (c_client c)) org"

text \<open>
  \<open>gromit orgs dump\<close> (\<open>cmd/orgs.go\<close>): the configuration of the dump of the organisations \<open>args\<close>, from the flags
  \<open>--dir\<close>, \<open>--patterns\<close> and \<open>--count\<close>.  The error of \<open>MkdirAll\<close> is ignored.
\<close>

definition orgs_dump ::
  "redis_env \<Rightarrow> (string \<Rightarrow> string option) \<Rightarrow> string \<Rightarrow> string \<Rightarrow> int \<Rightarrow> string list \<Rightarrow> dump_cfg go" where
  "orgs_dump env create dir patterns count args =
     go_bind (NewRedisClient count args dir) (\<lambda>rdb.
       Done \<lparr>c_env = env, c_client = rdb, c_create = create, c_patterns = split_on (CHR '','') patterns\<rparr>)"

definition start_dump :: "string list \<Rightarrow> (string \<Rightarrow> string option) \<Rightarrow> dump_state" where
  "start_dump orgs files = \<lparr>d_pc = NextOrg orgs, d_workers = [], d_buf = (\<lambda>_. []), d_closed = (\<lambda>_. False),
     d_count = 0, d_files = files, d_sent = (\<lambda>_. [])\<rparr>"

definition running :: "dump_state \<Rightarrow> bool" where
  "running s \<longleftrightarrow> d_pc s \<noteq> Returned \<and> (\<forall>m. d_pc s \<noteq> Died m)"

text \<open>After a block is sent: the loop of \<open>scanKeys\<close> ends with the cursor 0.\<close>

definition after_send :: "string \<Rightarrow> nat \<Rightarrow> string list \<Rightarrow> string list \<Rightarrow> main_pc" where
  "after_send org cursor ps orgs = (if cursor = 0 then NextPattern org ps orgs else ScanKeys org cursor ps orgs)"

section \<open>Steps\<close>

text \<open>
  The rules of the main goroutine first; the answer to a SCAN is any block and cursor, and a failed SCAN is the
  empty block with cursor 0.  A send waits for room in the channel, or hands its block to a worker when the
  channel has none.  A worker enters (\<open>wg.Add(1)\<close>, then \<open>os.Create\<close>), receives, may have part of its output
  flushed by the buffered writer, and finishes on a closed and empty channel (flush, close, \<open>wg.Done()\<close>).
\<close>

inductive dump_step :: "dump_cfg \<Rightarrow> dump_state \<Rightarrow> dump_state \<Rightarrow> bool" for c where
  spawn: "d_pc s = NextOrg (org # orgs) \<Longrightarrow>
    dump_step c s (s\<lparr>d_pc := NextPattern org (c_patterns c) orgs, d_workers := d_workers s @ [(org, Spawned)]\<rparr>)"
| all_spawned: "d_pc s = NextOrg [] \<Longrightarrow> dump_step c s (s\<lparr>d_pc := WaitGroup\<rparr>)"
| pattern: "d_pc s = NextPattern org (p # ps) orgs \<Longrightarrow> dump_step c s (s\<lparr>d_pc := ScanKeys org 0 ps orgs\<rparr>)"
| scan: "d_pc s = ScanKeys org cursor ps orgs \<Longrightarrow> dump_step c s (s\<lparr>d_pc := SendKeys org keys cursor' ps orgs\<rparr>)"
| send: "d_pc s = SendKeys org keys cursor ps orgs \<Longrightarrow> \<not> d_closed s org \<Longrightarrow>
    length (d_buf s org) < rc_cap (c_client c) \<Longrightarrow>
    dump_step c s (s\<lparr>d_pc := after_send org cursor ps orgs,
      d_buf := (d_buf s)(org := d_buf s org @ [keys]), d_sent := (d_sent s)(org := d_sent s org @ [keys])\<rparr>)"
| hand_over: "d_pc s = SendKeys org keys cursor ps orgs \<Longrightarrow> \<not> d_closed s org \<Longrightarrow> d_buf s org = [] \<Longrightarrow>
    i < length (d_workers s) \<Longrightarrow> d_workers s ! i = (org, Running taken) \<Longrightarrow>
    dump_step c s (s\<lparr>d_pc := after_send org cursor ps orgs,
      d_workers := (d_workers s)[i := (org, Running (taken @ [keys]))], d_sent := (d_sent s)(org := d_sent s org @ [keys])\<rparr>)"
| send_closed: "d_pc s = SendKeys org keys cursor ps orgs \<Longrightarrow> d_closed s org \<Longrightarrow>
    dump_step c s (s\<lparr>d_pc := Died ''send on closed channel''\<rparr>)"
| close: "d_pc s = NextPattern org [] orgs \<Longrightarrow> \<not> d_closed s org \<Longrightarrow>
    dump_step c s (s\<lparr>d_pc := NextOrg orgs, d_closed := (d_closed s)(org := True)\<rparr>)"
| close_closed: "d_pc s = NextPattern org [] orgs \<Longrightarrow> d_closed s org \<Longrightarrow>
    dump_step c s (s\<lparr>d_pc := Died ''close of closed channel''\<rparr>)"
| wait: "d_pc s = WaitGroup \<Longrightarrow> d_count s = 0 \<Longrightarrow> dump_step c s (s\<lparr>d_pc := Returned\<rparr>)"
| enter: "running s \<Longrightarrow> i < length (d_workers s) \<Longrightarrow> d_workers s ! i = (org, Spawned) \<Longrightarrow>
    c_create c (opFile c org) = None \<Longrightarrow>
    dump_step c s (s\<lparr>d_workers := (d_workers s)[i := (org, Running [])], d_count := Suc (d_count s),
      d_files := (d_files s)(opFile c org := Some [])\<rparr>)"
| enter_fails: "running s \<Longrightarrow> i < length (d_workers s) \<Longrightarrow> d_workers s ! i = (org, Spawned) \<Longrightarrow>
    c_create c (opFile c org) \<noteq> None \<Longrightarrow> dump_step c s (s\<lparr>d_pc := Died ''cannot create''\<rparr>)"
| receive: "running s \<Longrightarrow> i < length (d_workers s) \<Longrightarrow> d_workers s ! i = (org, Running taken) \<Longrightarrow>
    d_buf s org = keys # rest \<Longrightarrow>
    dump_step c s (s\<lparr>d_workers := (d_workers s)[i := (org, Running (taken @ [keys]))], d_buf := (d_buf s)(org := rest)\<rparr>)"
| flush: "running s \<Longrightarrow> i < length (d_workers s) \<Longrightarrow> d_workers s ! i = (org, Running taken) \<Longrightarrow>
    filter_blocks (c_env c) org 0 taken = Done out \<Longrightarrow> prefix part out \<Longrightarrow>
    dump_step c s (s\<lparr>d_files := (d_files s)(opFile c org := Some part)\<rparr>)"
| crash: "running s \<Longrightarrow> i < length (d_workers s) \<Longrightarrow> d_workers s ! i = (org, Running taken) \<Longrightarrow>
    (\<And>out. filter_blocks (c_env c) org 0 taken \<noteq> Done out) \<Longrightarrow>
    dump_step c s (s\<lparr>d_pc := Died ''index out of range''\<rparr>)"
| finish: "running s \<Longrightarrow> i < length (d_workers s) \<Longrightarrow> d_workers s ! i = (org, Running taken) \<Longrightarrow>
    d_buf s org = [] \<Longrightarrow> d_closed s org \<Longrightarrow> filter_blocks (c_env c) org 0 taken = Done out \<Longrightarrow>
    dump_step c s (s\<lparr>d_workers := (d_workers s)[i := (org, Finished)], d_count := d_count s - 1,
      d_files := (d_files s)(opFile c org := Some out)\<rparr>)"

inductive reachable :: "dump_cfg \<Rightarrow> string list \<Rightarrow> (string \<Rightarrow> string option) \<Rightarrow> dump_state \<Rightarrow> bool"
  for c orgs files where
  start: "reachable c orgs files (start_dump orgs files)"
| step: "reachable c orgs files s \<Longrightarrow> dump_step c s s' \<Longrightarrow> reachable c orgs files s'"

interpretation dumping: transition_system "start_dump orgs files" "dump_step c" "reachable c orgs files"
  for c orgs files
proof
  show "I s" if "reachable c orgs files s" "I (start_dump orgs files)" "\<And>x y. I x \<Longrightarrow> dump_step c x y \<Longrightarrow> I y" for I s
    using that(1) by induction (use that(2,3) in blast)+
qed (auto intro: reachable.intros)

section \<open>The invariant\<close>

fun orgs_left :: "main_pc \<Rightarrow> string list" where
  "orgs_left (NextOrg os) = os"
| "orgs_left (NextPattern _ _ os) = os"
| "orgs_left (ScanKeys _ _ _ os) = os"
| "orgs_left (SendKeys _ _ _ _ os) = os"
| "orgs_left _ = []"

fun org_now :: "main_pc \<Rightarrow> string list" where
  "org_now (NextPattern org _ _) = [org]"
| "org_now (ScanKeys org _ _ _) = [org]"
| "org_now (SendKeys org _ _ _ _) = [org]"
| "org_now _ = []"

fun worker_ok :: "dump_cfg \<Rightarrow> (string \<Rightarrow> string option) \<Rightarrow> dump_state \<Rightarrow> string \<times> worker \<Rightarrow> bool" where
  "worker_ok c files s (org, Spawned) \<longleftrightarrow> d_sent s org = d_buf s org \<and> d_files s (opFile c org) = files (opFile c org)"
| "worker_ok c files s (org, Running taken) \<longleftrightarrow> d_sent s org = taken @ d_buf s org"
| "worker_ok c files s (org, Finished) \<longleftrightarrow> d_closed s org \<and> d_buf s org = [] \<and>
     (\<exists>out. filter_blocks (c_env c) org 0 (d_sent s org) = Done out \<and> d_files s (opFile c org) = Some out)"

fun is_running :: "string \<times> worker \<Rightarrow> bool" where
  "is_running (_, Running _) \<longleftrightarrow> True"
| "is_running _ \<longleftrightarrow> False"

definition dump_inv :: "dump_cfg \<Rightarrow> string list \<Rightarrow> (string \<Rightarrow> string option) \<Rightarrow> dump_state \<Rightarrow> bool" where
  "dump_inv c orgs files s \<longleftrightarrow>
     List.map fst (d_workers s) @ orgs_left (d_pc s) = orgs \<and>
     (\<exists>dn. List.map fst (d_workers s) = dn @ org_now (d_pc s) \<and> (\<forall>org. d_closed s org \<longleftrightarrow> org \<in> set dn)) \<and>
     (\<forall>w \<in> set (d_workers s). worker_ok c files s w) \<and>
     (\<forall>org. org \<notin> fst ` set (d_workers s) \<longrightarrow> d_sent s org = [] \<and> d_buf s org = []) \<and>
     (\<forall>org \<in> set (orgs_left (d_pc s)). d_files s (opFile c org) = files (opFile c org)) \<and>
     d_count s = length (List.filter is_running (d_workers s)) \<and>
     (\<forall>org. length (d_buf s org) \<le> rc_cap (c_client c))"

text \<open>Distinct organisations have distinct files.\<close>

definition dump_ok :: "dump_cfg \<Rightarrow> string list \<Rightarrow> bool" where
  "dump_ok c orgs \<longleftrightarrow> distinct orgs \<and> inj_on (opFile c) (set orgs)"

lemma count_update:
  "i < length ws \<Longrightarrow> length (List.filter P (ws[i := y])) + (if P (ws ! i) then 1 else 0)
    = length (List.filter P ws) + (if P y then 1 else (0 :: nat))"
proof (induction ws arbitrary: i)
  case (Cons w ws)
  then show ?case
  proof (cases i)
    case (Suc j)
    then show ?thesis using Cons.IH [of j] Cons.prems by simp
  qed auto
qed simp

lemma map_fst_update: "i < length ws \<Longrightarrow> ws ! i = (org, x) \<Longrightarrow> List.map fst (ws[i := (org, y)]) = List.map fst ws"
  by (simp add: map_update list_update_same_conv)

lemma worker_update:
  assumes "distinct (List.map fst ws)" "i < length ws" "ws ! i = (org, x)" "Q' (org, y)"
    "\<And>org' w. (org', w) \<in> set ws \<Longrightarrow> org' \<noteq> org \<Longrightarrow> Q' (org', w)"
  shows "\<forall>w \<in> set (ws[i := (org, y)]). Q' w"
proof
  fix w
  assume "w \<in> set (ws[i := (org, y)])"
  then obtain j where j: "j < length ws" "w = ws[i := (org, y)] ! j" by (metis in_set_conv_nth length_list_update)
  show "Q' w"
  proof (cases "j = i")
    case False
    with assms(1,2) j(1) have "fst (ws ! j) \<noteq> fst (ws ! i)"
      using nth_eq_iff_index_eq [OF assms(1), of j i] by simp
    then show ?thesis using j False assms(3) assms(5) [of "fst (ws ! j)" "snd (ws ! j)"] by simp
  qed (use j assms in simp)
qed

lemma worker_frame:
  assumes "d_sent s' (fst w) = d_sent s (fst w)" "d_buf s' (fst w) = d_buf s (fst w)"
    "d_closed s (fst w) \<Longrightarrow> d_closed s' (fst w)"
    "d_files s' (opFile c (fst w)) = d_files s (opFile c (fst w))"
  shows "worker_ok c files s w \<Longrightarrow> worker_ok c files s' w"
  using assms by (cases w; cases "snd w") auto

lemma inv_workers: "dump_inv c orgs files s \<Longrightarrow> w \<in> set (d_workers s) \<Longrightarrow> worker_ok c files s w"
  by (simp add: dump_inv_def)

lemma inv_orgs: "dump_inv c orgs files s \<Longrightarrow> List.map fst (d_workers s) @ orgs_left (d_pc s) = orgs"
  and inv_done: "dump_inv c orgs files s \<Longrightarrow>
    \<exists>dn. List.map fst (d_workers s) = dn @ org_now (d_pc s) \<and> (\<forall>org. d_closed s org \<longleftrightarrow> org \<in> set dn)"
  and inv_new: "dump_inv c orgs files s \<Longrightarrow> org \<notin> fst ` set (d_workers s) \<Longrightarrow> d_sent s org = [] \<and> d_buf s org = []"
  and inv_count: "dump_inv c orgs files s \<Longrightarrow> d_count s = length (List.filter is_running (d_workers s))"
  and inv_cap: "dump_inv c orgs files s \<Longrightarrow> length (d_buf s org) \<le> rc_cap (c_client c)"
  unfolding dump_inv_def by blast+

lemma inv_now:
  assumes "dump_inv c orgs files s" "org \<in> set (org_now (d_pc s))"
  shows "org \<in> fst ` set (d_workers s)"
proof -
  obtain dn where "List.map fst (d_workers s) = dn @ org_now (d_pc s)" using inv_done [OF assms(1)] by blast
  then have "org \<in> set (List.map fst (d_workers s))" using assms(2) by simp
  then show ?thesis by (simp only: list.set_map)
qed

lemma inv_running:
  assumes "dump_inv c orgs files s" "i < length (d_workers s)" "is_running (d_workers s ! i)"
  shows "0 < d_count s"
  unfolding inv_count [OF assms(1)] using assms(2,3) by (metis filter_empty_conv length_greater_0_conv nth_mem)

lemma inv_nth: "dump_inv c orgs files s \<Longrightarrow> i < length (d_workers s) \<Longrightarrow> d_workers s ! i = w \<Longrightarrow> worker_ok c files s w"
  using inv_workers nth_mem by blast

lemma inv_distinct:
  "dump_ok c orgs \<Longrightarrow> dump_inv c orgs files s \<Longrightarrow>
    distinct (List.map fst (d_workers s)) \<and> distinct (List.map fst (d_workers s) @ orgs_left (d_pc s))"
  by (simp add: dump_ok_def dump_inv_def) (metis distinct_append)

lemma inv_paths:
  assumes "dump_ok c orgs" "dump_inv c orgs files s"
    "org \<in> set (List.map fst (d_workers s) @ orgs_left (d_pc s))" "org' \<in> set (List.map fst (d_workers s) @ orgs_left (d_pc s))"
    "org \<noteq> org'"
  shows "opFile c org \<noteq> opFile c org'"
proof -
  have "List.map fst (d_workers s) @ orgs_left (d_pc s) = orgs" using assms(2) by (simp only: dump_inv_def)
  then show ?thesis using assms by (metis dump_ok_def inj_onD)
qed

text \<open>A worker takes a step of its own.\<close>

lemma inv_worker_step:
  assumes "dump_ok c orgs" "dump_inv c orgs files s" "i < length (d_workers s)" "d_workers s ! i = (org, x)"
    and s': "d_pc s' = d_pc s" "d_workers s' = (d_workers s)[i := (org, y)]" "d_closed s' = d_closed s" "d_sent s' = d_sent s"
    and count: "d_count s' + (if is_running (org, x) then 1 else 0) = d_count s + (if is_running (org, y) then 1 else 0)"
    and ok: "worker_ok c files s' (org, y)" "length (d_buf s' org) \<le> rc_cap (c_client c)"
    and frame: "\<And>org'. org' \<noteq> org \<Longrightarrow> d_buf s' org' = d_buf s org'"
      "\<And>f. f \<noteq> opFile c org \<Longrightarrow> d_files s' f = d_files s f"
  shows "dump_inv c orgs files s'"
proof -
  have dist: "distinct (List.map fst (d_workers s))" using inv_distinct assms(1,2) by blast
  have mem: "org \<in> fst ` set (d_workers s)" using assms(3,4) by (metis fst_conv image_eqI nth_mem)
  have names: "List.map fst (d_workers s') = List.map fst (d_workers s)"
    unfolding s' by (rule map_fst_update [OF assms(3,4)])
  then have "fst ` set (d_workers s') = fst ` set (d_workers s)" by (metis list.set_map)
  moreover have "\<forall>w \<in> set (d_workers s'). worker_ok c files s' w"
    unfolding s'(2)
  proof (rule worker_update [where Q' = "worker_ok c files s'", OF dist assms(3,4) ok(1)])
    fix org' w
    assume w: "(org', w) \<in> set (d_workers s)" "org' \<noteq> org"
    then have "org' \<in> set (List.map fst (d_workers s))" by (metis fst_conv image_eqI list.set_map)
    then have "opFile c org' \<noteq> opFile c org"
      using w(2) mem inv_paths [OF assms(1,2), of org' org] by simp
    with w frame s' show "worker_ok c files s' (org', w)"
      using inv_workers [OF assms(2) w(1)] by (intro worker_frame [of s' "(org', w)" s]) auto
  qed
  moreover have "d_files s' (opFile c org') = files (opFile c org')" if "org' \<in> set (orgs_left (d_pc s'))" for org'
  proof -
    have "org' \<noteq> org" using that mem inv_distinct [OF assms(1,2)] s' by (auto simp: disjoint_iff)
    then have "opFile c org' \<noteq> opFile c org"
      using that mem s' inv_paths [OF assms(1,2), of org' org] by simp
    then show ?thesis using that frame s' assms(2) by (simp add: dump_inv_def)
  qed
  moreover have "d_count s' = length (List.filter is_running (d_workers s'))"
    using count count_update [OF assms(3), of is_running "(org, y)"] assms(2,4) s' by (auto simp: dump_inv_def split: if_splits)
  moreover have "length (d_buf s' o') \<le> rc_cap (c_client c)" for o'
    using ok(2) frame(1) [of o'] assms(2) by (cases "o' = org") (auto simp: dump_inv_def)
  moreover have "d_sent s' o' = [] \<and> d_buf s' o' = []" if "o' \<notin> fst ` set (d_workers s)" for o'
  proof -
    have "o' \<noteq> org" using that mem by blast
    then show ?thesis using that assms(2) frame(1) s' by (simp add: dump_inv_def)
  qed
  ultimately show ?thesis
    using assms(2) unfolding dump_inv_def names s'(1,3) by (simp add: s')
qed

text \<open>Steps of the main goroutine that move only its program counter.\<close>

lemma inv_move:
  assumes "dump_inv c orgs files s" "orgs_left p = orgs_left (d_pc s)" "org_now p = org_now (d_pc s)"
  shows "dump_inv c orgs files (s\<lparr>d_pc := p\<rparr>)"
proof -
  have "worker_ok c files (s\<lparr>d_pc := p\<rparr>) w = worker_ok c files s w" for w by (cases w; cases "snd w") auto
  then show ?thesis using assms by (simp add: dump_inv_def)
qed

lemma inv_spawn:
  assumes "dump_ok c orgs" "dump_inv c orgs files s" "d_pc s = NextOrg (org # rest)"
  shows "dump_inv c orgs files (s\<lparr>d_pc := NextPattern org ps rest, d_workers := d_workers s @ [(org, Spawned)]\<rparr>)"
proof -
  let ?s = "s\<lparr>d_pc := NextPattern org ps rest, d_workers := d_workers s @ [(org, Spawned)]\<rparr>"
  have frame: "worker_ok c files ?s w = worker_ok c files s w" for w by (cases w; cases "snd w") auto
  have new: "org \<notin> fst ` set (d_workers s)" using inv_distinct [OF assms(1,2)] assms(3) by simp
  then have "worker_ok c files s (org, Spawned)" using assms(2,3) by (simp add: dump_inv_def)
  then show ?thesis using assms(2,3) by (simp add: dump_inv_def frame)
qed

lemma inv_close:
  assumes "dump_inv c orgs files s" "d_pc s = NextPattern org [] rest"
  shows "dump_inv c orgs files (s\<lparr>d_pc := NextOrg rest, d_closed := (d_closed s)(org := True)\<rparr>)"
proof -
  let ?s = "s\<lparr>d_pc := NextOrg rest, d_closed := (d_closed s)(org := True)\<rparr>"
  have "worker_ok c files s w \<Longrightarrow> worker_ok c files ?s w" for w by (rule worker_frame [of ?s w s]) auto
  moreover from assms obtain dn where "List.map fst (d_workers s) = dn @ [org]" "\<forall>o'. d_closed s o' \<longleftrightarrow> o' \<in> set dn"
    by (auto simp: dump_inv_def)
  ultimately show ?thesis using assms by (auto simp: dump_inv_def)
qed

lemma after_send_pc [simp]:
  "orgs_left (after_send org cursor ps rest) = rest" "org_now (after_send org cursor ps rest) = [org]"
  by (simp_all add: after_send_def)

lemma inv_send:
  assumes "dump_ok c orgs" "dump_inv c orgs files s" "d_pc s = SendKeys org keys cursor ps rest" "\<not> d_closed s org"
    "length (d_buf s org) < rc_cap (c_client c)"
  shows "dump_inv c orgs files (s\<lparr>d_pc := after_send org cursor ps rest,
      d_buf := (d_buf s)(org := d_buf s org @ [keys]), d_sent := (d_sent s)(org := d_sent s org @ [keys])\<rparr>)"
    (is "dump_inv c orgs files ?s")
proof -
  have "worker_ok c files ?s w" if "w \<in> set (d_workers s)" for w
    using inv_workers [OF assms(2) that] assms(4) by (cases w; cases "snd w") auto
  moreover have "org \<in> fst ` set (d_workers s)"
    using inv_now [OF assms(2)] assms(3) by simp
  moreover have "length (d_buf ?s o') \<le> rc_cap (c_client c)" for o'
    using inv_cap [OF assms(2), of o'] assms(5) by simp
  ultimately show ?thesis using assms(2,3) unfolding dump_inv_def by simp
qed

lemma inv_hand_over:
  assumes "dump_ok c orgs" "dump_inv c orgs files s" "d_pc s = SendKeys org keys cursor ps rest" "d_buf s org = []"
    "i < length (d_workers s)" "d_workers s ! i = (org, Running taken)"
  shows "dump_inv c orgs files (s\<lparr>d_pc := after_send org cursor ps rest,
      d_workers := (d_workers s)[i := (org, Running (taken @ [keys]))], d_sent := (d_sent s)(org := d_sent s org @ [keys])\<rparr>)"
    (is "dump_inv c orgs files ?s")
proof -
  have dist: "distinct (List.map fst (d_workers s))" using inv_distinct assms(1,2) by blast
  have mem: "org \<in> fst ` set (d_workers s)" using assms(5,6) by (metis fst_conv image_eqI nth_mem)
  have names: "List.map fst ((d_workers s)[i := (org, Running (taken @ [keys]))]) = List.map fst (d_workers s)"
    by (rule map_fst_update [OF assms(5,6)])
  then have names': "fst ` set ((d_workers s)[i := (org, Running (taken @ [keys]))]) = fst ` set (d_workers s)"
    by (metis list.set_map)
  have "worker_ok c files ?s (org, Running (taken @ [keys]))"
    using inv_nth [OF assms(2,5,6)] assms(4) by simp
  then have "\<forall>w \<in> set ((d_workers s)[i := (org, Running (taken @ [keys]))]). worker_ok c files ?s w"
  proof (rule worker_update [where Q' = "worker_ok c files ?s", OF dist assms(5,6)])
    fix org' w
    assume "(org', w) \<in> set (d_workers s)" "org' \<noteq> org"
    then show "worker_ok c files ?s (org', w)"
      using inv_workers [OF assms(2)] by (intro worker_frame [of ?s "(org', w)" s]) auto
  qed
  moreover have "d_count s = length (List.filter is_running ((d_workers s)[i := (org, Running (taken @ [keys]))]))"
    using count_update [OF assms(5), of is_running "(org, Running (taken @ [keys]))"] assms(2,6) by (simp add: dump_inv_def)
  ultimately show ?thesis
    using assms(2,3) mem unfolding dump_inv_def by (simp add: names names') 
qed

theorem inv_step:
  assumes "dump_ok c orgs" "dump_inv c orgs files s" "dump_step c s s'"
  shows "(\<exists>m. d_pc s' = Died m) \<or> dump_inv c orgs files s'"
  using assms(3)
proof cases
  case (enter i org)
  then show ?thesis using inv_nth [OF assms(2) enter(3,4)]
    by (intro disjI2 inv_worker_step [OF assms(1,2) enter(3,4), where y = "Running []"])
      (use inv_cap [OF assms(2)] in auto)
next
  case (receive i org taken keys rest)
  have "length rest \<le> rc_cap (c_client c)"
    using inv_cap [OF assms(2), of org] receive(5) by simp
  then show ?thesis using receive inv_nth [OF assms(2) receive(3,4)]
    by (intro disjI2 inv_worker_step [OF assms(1,2) receive(3,4), where y = "Running (taken @ [keys])"]) auto
next
  case (flush i org taken out part)
  have "s' = s\<lparr>d_workers := (d_workers s)[i := (org, Running taken)], d_files := (d_files s)(opFile c org := Some part)\<rparr>"
    using flush(1,4) by (metis (no_types, lifting) list_update_id dump_state.surjective dump_state.update_convs(2))
  then show ?thesis using inv_nth [OF assms(2) flush(3,4)]
    by (intro disjI2 inv_worker_step [OF assms(1,2) flush(3,4), where y = "Running taken"])
      (use inv_cap [OF assms(2)] in auto)
next
  case (finish i org taken out)
  have "0 < d_count s" using inv_running [OF assms(2) finish(3)] finish(4) by simp
  then show ?thesis using finish(1,5,6,7) inv_nth [OF assms(2) finish(3,4)]
    by (intro disjI2 inv_worker_step [OF assms(1,2) finish(3,4), where y = Finished]) auto
qed (use assms(1,2) in \<open>auto intro: inv_move inv_spawn inv_close inv_send inv_hand_over\<close>)

section \<open>Properties\<close>

lemma fold_put_get:
  "gm_get (fold (\<lambda>org. gm_put org (g org)) orgs m) org = (if org \<in> set orgs then Some (g org) else gm_get m org)"
  by (induction orgs arbitrary: m) (auto simp: update_conv)

text \<open>The files of a new client are distinct when the names of the organisations are plain file names.\<close>

lemma client_dump_ok:
  assumes "NewRedisClient BatchSize orgs dir = Done (c_client c)" "distinct orgs" "\<forall>org \<in> set orgs. CHR ''/'' \<notin> set org"
  shows "dump_ok c orgs"
proof -
  have path: "opFile c org = filepath_join [dir, join_with ''/'' [org @ ''.keys.jl'']]" if "org \<in> set orgs" for org
    using assms(1) that by (cases "c_client c")
      (auto simp: NewRedisClient_def opFile_def gm_get0_def fold_put_get split: if_splits)
  have plain: "list_all plain_comp [org @ ''.keys.jl'']" if "org \<in> set orgs" for org
    using assms(3) that by (auto simp: plain_comp_def append_eq_Cons_conv)
  have "inj_on (opFile c) (set orgs)"
  proof (rule inj_onI)
    fix a b
    assume ab: "a \<in> set orgs" "b \<in> set orgs" "opFile c a = opFile c b"
    have "[a @ ''.keys.jl''] = [b @ ''.keys.jl'']"
      using ab(3) unfolding path [OF ab(1)] path [OF ab(2)]
      by (rule filepath_join_inj) (simp_all only: plain ab not_Cons_self2 not_False_eq_True list.distinct)
    then show "a = b" by simp
  qed
  with assms(2) show ?thesis by (simp add: dump_ok_def)
qed

lemma orgs_dump_ok:
  assumes "orgs_dump env create dir patterns count args = Done c" "distinct args" "\<forall>org \<in> set args. CHR ''/'' \<notin> set org"
  shows "dump_ok c args"
proof -
  have "NewRedisClient count args dir = Done (c_client c)"
    using assms(1) by (cases "NewRedisClient count args dir") (auto simp: orgs_dump_def)
  then show ?thesis using assms(2,3) by (rule client_dump_ok)
qed

lemma reachable_inv:
  assumes "reachable c orgs files s" "dump_ok c orgs"
  shows "(\<exists>m. d_pc s = Died m) \<or> dump_inv c orgs files s \<and> (d_pc s = Returned \<longrightarrow> d_count s = 0)"
  using assms(1)
proof (induction rule: dumping.invariant)
  case init
  then show ?case by (simp add: start_dump_def dump_inv_def)
next
  case (inv s s')
  show ?case
  proof (cases "\<exists>m. d_pc s = Died m")
    case True
    with inv.hyps show ?thesis by cases (auto simp: running_def)
  next
    case False
    with inv have i: "dump_inv c orgs files s" by blast
    moreover have "d_count s' = 0" if "d_pc s' = Returned"
      using inv.hyps that by cases (auto simp: running_def after_send_def split: if_splits)
    ultimately show ?thesis using inv_step [OF assms(2) i inv.hyps] by blast
  qed
qed

lemma returned_files:
  assumes "dump_ok c orgs" "reachable c orgs files s" "d_pc s = Returned" "org \<in> set orgs"
  shows "(\<exists>out. filter_blocks (c_env c) org 0 (d_sent s org) = Done out \<and> d_files s (opFile c org) = Some out)
    \<or> (org, Spawned) \<in> set (d_workers s) \<and> d_files s (opFile c org) = files (opFile c org)
      \<and> length (d_sent s org) \<le> rc_cap (c_client c)"
proof -
  have inv: "dump_inv c orgs files s" and count: "d_count s = 0"
    using reachable_inv [OF assms(2,1)] assms(3) by auto
  obtain w where w: "(org, w) \<in> set (d_workers s)"
    using inv_orgs [OF inv] assms(3,4) by auto
  have "\<not> is_running (org, w)"
    using inv_count [OF inv] count w by (auto simp: filter_empty_conv)
  then consider "w = Spawned" | "w = Finished" by (cases w) auto
  then show ?thesis
  proof cases
    case 1
    then show ?thesis using inv_workers [OF inv w] inv_cap [OF inv, of org] w by simp
  next
    case 2
    then show ?thesis using inv_workers [OF inv w] by auto
  qed
qed


text \<open>The counter counts the workers that run, not those that are spawned.\<close>

lemma count_running:
  assumes "dump_ok c orgs" "reachable c orgs files s" "\<forall>m. d_pc s \<noteq> Died m"
  shows "d_count s = length (List.filter is_running (d_workers s))"
  using reachable_inv [OF assms(2,1)] assms(3) inv_count by blast

text \<open>Progress, by what the main goroutine is doing: a worker that can start or go on lets a sender or a waiter go on.\<close>

lemma spawned_can_enter:
  assumes "running s" "i < length (d_workers s)" "d_workers s ! i = (org, Spawned)"
  shows "\<exists>s'. dump_step c s s'"
  using dump_step.enter [OF assms] dump_step.enter_fails [OF assms] by blast

lemma send_can_step:
  assumes inv: "dump_inv c orgs files s" and r: "running s" and pc: "d_pc s = SendKeys org keys cursor ps os"
  shows "\<exists>s'. dump_step c s s'"
proof (cases "d_closed s org \<or> length (d_buf s org) < rc_cap (c_client c)")
  case True
  then show ?thesis using pc dump_step.send dump_step.send_closed by blast
next
  case False
  have "org \<in> fst ` set (d_workers s)" using inv_now [OF inv] pc by simp
  then obtain i w where i: "i < length (d_workers s)" "d_workers s ! i = (org, w)"
    by (metis imageE in_set_conv_nth prod.collapse)
  show ?thesis
  proof (cases w)
    case Spawned
    then show ?thesis using spawned_can_enter [OF r] i by blast
  next
    case (Running taken)
    note w = i [unfolded Running]
    show ?thesis
      using False dump_step.hand_over [OF pc _ _ w] dump_step.receive [OF r w] by (cases "d_buf s org") blast+
  next
    case Finished
    then show ?thesis using inv_nth [OF inv i] False by simp
  qed
qed

lemma wait_can_step:
  assumes inv: "dump_inv c orgs files s" and r: "running s" and pc: "d_pc s = WaitGroup"
  shows "\<exists>s'. dump_step c s s'"
proof (cases "d_count s = 0")
  case True
  then show ?thesis using dump_step.wait [OF pc] by blast
next
  case False
  then obtain org taken where "(org, Running taken) \<in> set (d_workers s)"
    unfolding inv_count [OF inv] by (metis filter_False is_running.elims(2) list.size(3))
  then obtain i where i: "i < length (d_workers s)" "d_workers s ! i = (org, Running taken)"
    by (metis in_set_conv_nth)
  have closed: "d_closed s org"
    using inv_done [OF inv] pc i nth_mem [OF i(1)] by (auto simp: image_iff) (metis fst_conv image_eqI list.set_map)
  show ?thesis
    using dump_step.receive [OF r i] dump_step.finish [OF r i _ closed] dump_step.crash [OF r i]
    by (cases "d_buf s org") blast+
qed

text \<open>
  (C25) The goroutines never block each other: in every state the dump reaches before it returns or dies, some
  goroutine can take a step, also when channels are full or have no capacity.
\<close>

theorem dump_never_stuck:
  assumes "dump_ok c orgs" "reachable c orgs files s" "running s"
  shows "\<exists>s'. dump_step c s s'"
proof -
  have inv: "dump_inv c orgs files s" using reachable_inv [OF assms(2,1)] assms(3) by (auto simp: running_def)
  show ?thesis
  proof (cases "d_pc s")
    case (NextOrg os)
    then show ?thesis using dump_step.spawn dump_step.all_spawned by (cases os) blast+
  next
    case (NextPattern org ps os)
    then show ?thesis using dump_step.pattern dump_step.close dump_step.close_closed by (cases ps) blast+
  next
    case (ScanKeys org cursor ps os)
    then show ?thesis using dump_step.scan by blast
  qed (use send_can_step [OF inv assms(3)] wait_can_step [OF inv assms(3)] assms(3) in \<open>auto simp: running_def\<close>)
qed

definition dup_inv :: "string \<Rightarrow> dump_state \<Rightarrow> bool" where
  "dup_inv org s \<longleftrightarrow> (\<exists>m. d_pc s = Died m) \<or>
     (org_now (d_pc s) @ orgs_left (d_pc s) = [org, org] \<and> d_pc s \<noteq> WaitGroup) \<or>
     (org_now (d_pc s) @ orgs_left (d_pc s) = [org] \<and> d_closed s org)"

lemma dup_step: "dup_inv org s \<Longrightarrow> dump_step c s s' \<Longrightarrow> dup_inv org s'"
  unfolding dup_inv_def by (elim dump_step.cases) (auto simp: running_def after_send_def)

text \<open>
  An organisation given twice: the dump never returns, as the second turn finds the channel closed.
\<close>

theorem duplicate_org_never_returns:
  assumes "reachable c [org, org] files s"
  shows "d_pc s \<noteq> Returned"
proof -
  have "dup_inv org s"
    using assms by (rule dumping.invariant) (simp add: dup_inv_def start_dump_def, blast intro: dup_step)
  then show ?thesis by (auto simp: dup_inv_def)
qed

section \<open>A dump that loses an organisation\<close>

definition sample_cfg :: dump_cfg where
  "sample_cfg = \<lparr>c_env = sample_env, c_client = \<lparr>rc_cap = 1000, rc_opFiles = [(''o1'', ''o1.keys.jl'')]\<rparr>,
     c_create = (\<lambda>_. None), c_patterns = [''apikey-*'']\<rparr>"

lemma sample_cfg_ok: "dump_ok sample_cfg [''o1'']"
  by (simp add: dump_ok_def)

text \<open>The main goroutine runs through before the worker of \<open>o1\<close> starts.\<close>

definition lost_state :: dump_state where
  "lost_state = \<lparr>d_pc = Returned, d_workers = [(''o1'', Spawned)], d_buf = (\<lambda>_. [])(''o1'' := [[''apikey-1'']]),
     d_closed = (\<lambda>_. False)(''o1'' := True), d_count = 0, d_files = (\<lambda>_. None),
     d_sent = (\<lambda>_. [])(''o1'' := [[''apikey-1'']])\<rparr>"

lemma lost_reachable: "reachable sample_cfg [''o1''] (\<lambda>_. None) lost_state"
proof -
  let ?r = "reachable sample_cfg [''o1''] (\<lambda>_. None)"
  define s0 where "s0 = start_dump [''o1''] (\<lambda>_. None)"
  define s1 where "s1 = s0\<lparr>d_pc := NextPattern ''o1'' (c_patterns sample_cfg) [], d_workers := d_workers s0 @ [(''o1'', Spawned)]\<rparr>"
  define s2 where "s2 = s1\<lparr>d_pc := ScanKeys ''o1'' 0 [] []\<rparr>"
  define s3 where "s3 = s2\<lparr>d_pc := SendKeys ''o1'' [''apikey-1''] 0 [] []\<rparr>"
  define s4 where "s4 = s3\<lparr>d_pc := after_send ''o1'' 0 [] [], d_buf := (d_buf s3)(''o1'' := d_buf s3 ''o1'' @ [[''apikey-1'']]),
    d_sent := (d_sent s3)(''o1'' := d_sent s3 ''o1'' @ [[''apikey-1'']])\<rparr>"
  define s5 where "s5 = s4\<lparr>d_pc := NextOrg [], d_closed := (d_closed s4)(''o1'' := True)\<rparr>"
  define s6 where "s6 = s5\<lparr>d_pc := WaitGroup\<rparr>"
  note sd = s0_def s1_def s2_def s3_def s4_def s5_def s6_def start_dump_def
  have "?r s0" unfolding s0_def by (rule start)
  then have "?r s1" unfolding s1_def by (rule reachable.step) (rule spawn, simp add: sd)
  then have "?r s2" unfolding s2_def by (rule reachable.step) (rule pattern [of _ _ "''apikey-*''"], simp add: sd sample_cfg_def)
  then have "?r s3" unfolding s3_def by (rule reachable.step) (rule scan [of _ _ 0], simp add: sd)
  then have "?r s4" unfolding s4_def by (rule reachable.step) (rule send, simp_all add: sd sample_cfg_def)
  then have "?r s5" unfolding s5_def by (rule reachable.step) (rule close, simp_all add: sd after_send_def)
  then have "?r s6" unfolding s6_def by (rule reachable.step) (rule all_spawned, simp add: sd)
  then have "?r (s6\<lparr>d_pc := Returned\<rparr>)" by (rule reachable.step) (rule wait, simp_all add: sd)
  moreover have "s6\<lparr>d_pc := Returned\<rparr> = lost_state" by (simp add: sd lost_state_def)
  ultimately show ?thesis by simp
qed

text \<open>
  The dump can return and leave an organisation out: a key of \<open>o1\<close> was scanned and sent, and there is no
  file, since the worker that was to raise the counter of the wait group had not run yet.
\<close>

theorem dump_can_lose_org:
  "reachable sample_cfg [''o1''] (\<lambda>_. None) lost_state \<and> d_pc lost_state = Returned
   \<and> org_records sample_env ''o1'' 0 (d_sent lost_state ''o1'') \<noteq> [] \<and> d_files lost_state (opFile sample_cfg ''o1'') = None"
proof -
  have "org_records sample_env ''o1'' 0 [[''apikey-1'']] \<noteq> []" by code_simp
  then show ?thesis using lost_reachable by (simp add: lost_state_def)
qed


theorem dump_never_stuck_witness: "\<exists>s. dump_step sample_cfg (start_dump [''o1''] (\<lambda>_. None)) s"
  by (rule dump_never_stuck [OF sample_cfg_ok reachable.start]) (simp add: running_def start_dump_def)

theorem duplicate_org_never_returns_witness: "d_pc (start_dump [''o1'', ''o1''] (\<lambda>_. None)) \<noteq> Returned"
  by (rule duplicate_org_never_returns [OF reachable.start])

end
