(* ===== verification/Env.thy ===== *)
theory Env
  imports GoRegexp JsonParse
begin

text \<open>
  The package \<open>env\<close> and its commands (\<open>cmd/env.go\<close>): records in Route53 for the tasks of an ECS cluster, and
  trial licenses stored in SSM.  The answers of AWS and of the license service are arguments; pointers in
  the answers are options, and reading through a nil pointer panics.
\<close>

section \<open>The cluster map\<close>

record attachment_detail =
  ad_Name :: "string option"
  ad_Value :: "string option"

record task =
  tk_LastStatus :: "string option"
  tk_Attachments :: "attachment_detail list list"
  tk_Containers :: "string option list"

definition deref :: "'a option \<Rightarrow> 'a go" where
  "deref p = (case p of None \<Rightarrow> Panic ''nil pointer'' | Some x \<Rightarrow> Done x)"

definition first_of :: "'a list \<Rightarrow> 'a go" where
  "first_of xs = (case xs of [] \<Rightarrow> Panic ''index out of range'' | x # _ \<Rightarrow> Done x)"

type_synonym clusterMap = "(string, string) gomap"

text \<open>The inner loop of \<open>getClusterMap\<close>, over the details of a task's first attachment.\<close>

fun scan_details :: "string \<Rightarrow> task \<Rightarrow> attachment_detail list \<Rightarrow> clusterMap \<Rightarrow> clusterMap go" where
  "scan_details cluster t [] cm = Done cm"
| "scan_details cluster t (d # ds) cm =
     go_bind (deref (ad_Name d)) (\<lambda>name.
       if name = ''networkInterfaceId'' then
         go_bind (deref (ad_Value d)) (\<lambda>eni.
         go_bind (go_bind (first_of (tk_Containers t)) deref) (\<lambda>container.
           scan_details cluster t ds (gm_put (container @ ''.'' @ cluster) eni cm)))
       else scan_details cluster t ds cm)"

fun scan_tasks :: "string \<Rightarrow> task list \<Rightarrow> clusterMap \<Rightarrow> clusterMap go" where
  "scan_tasks cluster [] cm = Done cm"
| "scan_tasks cluster (t # ts) cm =
     go_bind (deref (tk_LastStatus t)) (\<lambda>status.
       if status = ''RUNNING'' then
         go_bind (first_of (tk_Attachments t)) (\<lambda>details.
         go_bind (scan_details cluster t details cm) (scan_tasks cluster ts))
       else scan_tasks cluster ts cm)"

text \<open>What AWS answers: the running tasks of a cluster, their description, the addresses of an interface, the zones.\<close>

record aws =
  aw_ListTasks :: "string \<Rightarrow> string + string list"
  aw_DescribeTasks :: "string \<Rightarrow> string list \<Rightarrow> string + task list"
  aw_Interfaces :: "string \<Rightarrow> string + string option option list"
  aw_Zones :: "string \<Rightarrow> string + (string \<times> string option) list"
  aw_Region :: string

definition getClusterMap :: "aws \<Rightarrow> string \<Rightarrow> (string + clusterMap) go" where
  "getClusterMap aws cluster =
     (case aw_ListTasks aws cluster of
        Inl e \<Rightarrow> Done (Inl e)
      | Inr arns \<Rightarrow>
          (case aw_DescribeTasks aws cluster arns of
             Inl e \<Rightarrow> Done (Inl e)
           | Inr tasks \<Rightarrow>
               if length tasks < 1 then Done (Inl (''no tasks in cluster '' @ cluster))
               else go_bind (scan_tasks cluster tasks []) (\<lambda>cm. Done (Inr cm))))"

text \<open>\<open>getPublicIP\<close>: the first interface, its association and the address in it.\<close>

definition getPublicIP :: "aws \<Rightarrow> string \<Rightarrow> string + string" where
  "getPublicIP aws eni =
     (case aw_Interfaces aws eni of
        Inl e \<Rightarrow> Inl e
      | Inr ((Some (Some ip)) # _) \<Rightarrow> Inr ip
      | Inr _ \<Rightarrow> Inl ''no public IP'')"

section \<open>Expose\<close>

record change =
  ch_Name :: string
  ch_Region :: string
  ch_TTL :: nat
  ch_Type :: string
  ch_SetIdentifier :: string
  ch_Values :: "string list"

text \<open>An upsert of record sets in a zone.\<close>

record change_batch =
  cb_HostedZoneId :: string
  cb_Changes :: "change list"

definition upsert :: "aws \<Rightarrow> string \<Rightarrow> string \<Rightarrow> string \<times> string \<Rightarrow> change" where
  "upsert aws cluster zone = (\<lambda>(name, eni).
     \<lparr>ch_Name = name @ ''.'' @ zone, ch_Region = aw_Region aws, ch_TTL = 10, ch_Type = ''A'', ch_SetIdentifier = cluster,
      ch_Values = [case getPublicIP aws eni of Inl _ \<Rightarrow> [] | Inr ip \<Rightarrow> ip]\<rparr>)"

text \<open>
  \<open>func (c *Client) Expose(cluster, zone string) error\<close>: the error, and the batch it submits.  The order of the
  changes is that of the range over the map.
\<close>

definition Expose :: "aws \<Rightarrow> (change_batch \<Rightarrow> string option) \<Rightarrow> string \<Rightarrow> string \<Rightarrow> (string option \<times> change_batch option) go" where
  "Expose aws submit cluster zone =
     (case aw_Zones aws zone of
        Inl e \<Rightarrow> Done (Some (''could not find zone for '' @ zone @ '': '' @ e), None)
      | Inr zones \<Rightarrow>
          go_bind (case zones of [] \<Rightarrow> Done [] | (_, zid) # _ \<Rightarrow> deref zid) (\<lambda>zid.
          go_bind (getClusterMap aws cluster) (\<lambda>r.
            case r of
              Inl e \<Rightarrow> Done (Some e, None)
            | Inr cm \<Rightarrow>
                (let batch = \<lparr>cb_HostedZoneId = zid, cb_Changes = List.map (upsert aws cluster zone) cm\<rparr>
                 in Done (submit batch, Some batch)))))"

text \<open>\<open>gromit env expose\<close>\<close>

definition expose_cmd :: "aws \<Rightarrow> (change_batch \<Rightarrow> string option) \<Rightarrow> string \<Rightarrow> string + string \<Rightarrow> (string option \<times> change_batch option) go" where
  "expose_cmd aws submit envName zone =
     (case zone of
        Inl _ \<Rightarrow> Done (Some ''expose requires zoneid'', None)
      | Inr z \<Rightarrow> if z = [] then Done (Some ''expose requires zoneid'', None) else Expose aws submit envName z)"

text \<open>
  \<open>func NewClientFromProfile(profile string) (*Client, error)\<close>: the configuration for a profile, once AWS confirmed
  an identity; what it says of it is only logged, but through pointers.
\<close>

definition NewClientFromProfile ::
  "(string \<Rightarrow> string + 'c) \<Rightarrow> ('c \<Rightarrow> string + (string option \<times> string option \<times> string option)) \<Rightarrow> string \<Rightarrow> (string + 'c) go" where
  "NewClientFromProfile load identity profile =
     (case load profile of
        Inl e \<Rightarrow> Done (Inl e)
      | Inr cfg \<Rightarrow>
          (case identity cfg of
             Inl e \<Rightarrow> Done (Inl (''failed client self-test: '' @ e))
           | Inr (account, arn, user) \<Rightarrow>
               go_bind (deref account) (\<lambda>_. go_bind (deref arn) (\<lambda>_. go_bind (deref user) (\<lambda>_. Done (Inr cfg))))))"

definition env_prerun ::
  "(string \<Rightarrow> string + 'c) \<Rightarrow> ('c \<Rightarrow> string + (string option \<times> string option \<times> string option)) \<Rightarrow> (string \<Rightarrow> string) \<Rightarrow> (string + 'c) go" where
  "env_prerun load identity getenv = NewClientFromProfile load identity (getenv ''AWS_PROFILE'')"

text \<open>No command of the group runs with a client whose identity AWS did not confirm.\<close>

lemma env_prerun_confirmed:
  "env_prerun load identity getenv = Done (Inr cfg) \<longleftrightarrow>
     load (getenv ''AWS_PROFILE'') = Inr cfg \<and> (\<exists>a r u. identity cfg = Inr (Some a, Some r, Some u))"
  by (auto simp: env_prerun_def NewClientFromProfile_def go_bind_Done_iff deref_def split: sum.splits option.splits)

section \<open>Licenses\<close>

definition fence :: string where "fence = ''```''"

definition key_rx :: rx where
  "key_rx = rxseq [Lit fence, Grp 1 (plus1 (\<lambda>c. c \<noteq> CHR 0x0A)), Lit fence]"

text \<open>\<open>FindStringSubmatch\<close> without an anchor: the leftmost position that matches.\<close>

fun find_submatch :: "rx \<Rightarrow> string \<Rightarrow> capture list option" where
  "find_submatch r [] = submatch r []"
| "find_submatch r (c # s) = (case submatch r (c # s) of Some m \<Rightarrow> Some m | None \<Rightarrow> find_submatch r s)"

text \<open>\<open>json.Unmarshal\<close> into a \<open>wireStruct\<close>: its only exported field is \<open>Key\<close>, named \<open>text\<close>.\<close>

fun wire_key :: "(string \<times> json) list \<Rightarrow> string \<Rightarrow> string option" where
  "wire_key [] k = Some k"
| "wire_key ((name, j) # ms) k =
     (if to_lower name = ''text'' then
        (case j of JStr s \<Rightarrow> wire_key ms s | JNull \<Rightarrow> wire_key ms k | _ \<Rightarrow> None)
      else wire_key ms k)"

definition wire_decode :: "(string \<Rightarrow> json option) \<Rightarrow> string \<Rightarrow> string option" where
  "wire_decode decode b = Option.bind (decode b) (\<lambda>j.
     case j of JObj ms \<Rightarrow> wire_key ms [] | JNull \<Rightarrow> Some [] | _ \<Rightarrow> None)"

text \<open>\<open>func parseKey(r io.Reader) (string, error)\<close>, of a body that is an error or text.\<close>

definition parseKey :: "(string \<Rightarrow> json option) \<Rightarrow> string + string \<Rightarrow> string + string" where
  "parseKey decode body = res_bind body (\<lambda>b.
     case wire_decode decode b of
       None \<Rightarrow> Inl (''error when parsing raw response '' @ b)
     | Some key \<Rightarrow>
         (case find_submatch key_rx key of
            None \<Rightarrow> Inl (''did not find license key in: '' @ key)
          | Some m \<Rightarrow> Inr (trim_suffix (gm_get0 [] m 1) [CHR 0x0A])))"

text \<open>A request URL: what is before the path, the path, and the query as parsed.\<close>

record req_url =
  ru_Host :: string
  ru_Path :: string
  ru_Query :: "(string \<times> string) list"

text \<open>
  \<open>func (l *Licenser) Fetch(baseURL, product, token string) (string, error)\<close>; building the request and doing it
  are arguments.
\<close>

definition Fetch ::
  "(string \<Rightarrow> string + req_url) \<Rightarrow> (req_url \<Rightarrow> string + (string + string)) \<Rightarrow> (string \<Rightarrow> json option) \<Rightarrow>
   string \<Rightarrow> string \<Rightarrow> string \<Rightarrow> string + string" where
  "Fetch new_request client_do decode baseURL product tok =
     res_bind (new_request baseURL) (\<lambda>u.
     res_bind (client_do (u\<lparr>ru_Path := ru_Path u @ product, ru_Query := ru_Query u @ [(''token'', tok)]\<rparr>))
       (parseKey decode))"

text \<open>\<open>StoreLicense\<close>: the parameter put into SSM.\<close>

record put_parameter =
  pp_Name :: string
  pp_Value :: string
  pp_Type :: string
  pp_KeyId :: string
  pp_Overwrite :: bool
  pp_Tier :: string

definition StoreLicense :: "(put_parameter \<Rightarrow> string option) \<Rightarrow> string \<Rightarrow> string \<Rightarrow> string \<Rightarrow> string option" where
  "StoreLicense put value path keyid = put \<lparr>pp_Name = path, pp_Value = value, pp_Type = ''SecureString'', pp_KeyId = keyid,
     pp_Overwrite = True, pp_Tier = ''Standard''\<rparr>"

text \<open>
  \<open>gromit env licenser\<close>: the token is that of the variable \<open>LICENSER_TOKEN\<close>; the flag \<open>--token\<close> is not read.
\<close>

definition licenser_cmd ::
  "(string \<Rightarrow> string + req_url) \<Rightarrow> (req_url \<Rightarrow> string + (string + string)) \<Rightarrow> (string \<Rightarrow> json option) \<Rightarrow>
   (put_parameter \<Rightarrow> string option) \<Rightarrow> (string \<Rightarrow> string) \<Rightarrow> (string \<Rightarrow> string) \<Rightarrow> string \<Rightarrow> string \<Rightarrow> string option" where
  "licenser_cmd new_request client_do decode put getenv flag product opPath =
     (case Fetch new_request client_do decode (flag ''baseurl'') product (getenv ''LICENSER_TOKEN'') of
        Inl e \<Rightarrow> Some (''Could not fetch licenses for '' @ product @ '' from '' @ flag ''baseurl'' @ '': '' @ e)
      | Inr license \<Rightarrow> StoreLicense put license opPath (flag ''key''))"

section \<open>Properties\<close>

text \<open>What the loops read without a check, and the entries of a task.\<close>

definition detail_ok :: "task \<Rightarrow> attachment_detail \<Rightarrow> bool" where
  "detail_ok t d \<longleftrightarrow> (case ad_Name d of None \<Rightarrow> False | Some n \<Rightarrow> n = ''networkInterfaceId'' \<longrightarrow>
     ad_Value d \<noteq> None \<and> tk_Containers t \<noteq> [] \<and> hd (tk_Containers t) \<noteq> None)"

definition task_ok :: "task \<Rightarrow> bool" where
  "task_ok t \<longleftrightarrow> (case tk_LastStatus t of None \<Rightarrow> False | Some s \<Rightarrow> s = ''RUNNING'' \<longrightarrow>
     tk_Attachments t \<noteq> [] \<and> list_all (detail_ok t) (hd (tk_Attachments t)))"

definition detail_entry :: "string \<Rightarrow> task \<Rightarrow> attachment_detail \<Rightarrow> (string \<times> string) list" where
  "detail_entry cluster t d =
     (case (ad_Name d, ad_Value d, tk_Containers t) of
        (Some n, Some eni, Some container # _) \<Rightarrow> if n = ''networkInterfaceId'' then [(container @ ''.'' @ cluster, eni)] else []
      | _ \<Rightarrow> [])"

definition task_entries :: "string \<Rightarrow> task \<Rightarrow> (string \<times> string) list" where
  "task_entries cluster t =
     (if tk_LastStatus t = Some ''RUNNING'' \<and> tk_Attachments t \<noteq> []
      then concat (List.map (detail_entry cluster t) (hd (tk_Attachments t))) else [])"

definition put_all :: "(string \<times> string) list \<Rightarrow> clusterMap \<Rightarrow> clusterMap" where
  "put_all = fold (\<lambda>(k, v). gm_put k v)"

lemma scan_details_spec:
  "(\<exists>cm'. scan_details cluster t ds cm = Done cm') \<longleftrightarrow> list_all (detail_ok t) ds"
  "scan_details cluster t ds cm = Done cm' \<Longrightarrow> cm' = put_all (concat (List.map (detail_entry cluster t) ds)) cm"
proof -
  have step: "scan_details cluster t (d # ds) cm
      = (if detail_ok t d then scan_details cluster t ds (put_all (detail_entry cluster t d) cm)
         else scan_details cluster t (d # ds) cm) \<and> (\<not> detail_ok t d \<longrightarrow> (\<exists>m. scan_details cluster t (d # ds) cm = Panic m))" for d ds cm
    by (cases "ad_Name d"; cases "ad_Value d"; cases "tk_Containers t"; cases "hd (tk_Containers t)")
      (auto simp: detail_ok_def detail_entry_def deref_def first_of_def put_all_def)
  show "(\<exists>cm'. scan_details cluster t ds cm = Done cm') \<longleftrightarrow> list_all (detail_ok t) ds"
  proof (induction ds arbitrary: cm)
    case (Cons d ds)
    show ?case using step [of d ds cm] Cons by (cases "detail_ok t d") (auto simp del: scan_details.simps(2))
  qed simp
  show "scan_details cluster t ds cm = Done cm' \<Longrightarrow> cm' = put_all (concat (List.map (detail_entry cluster t) ds)) cm"
  proof (induction ds arbitrary: cm)
    case Nil
    then show ?case by (simp add: put_all_def)
  next
    case (Cons d ds)
    then have "detail_ok t d" using step [of d ds cm] by (auto simp del: scan_details.simps(2))
    with Cons step [of d ds cm] show ?case by (auto simp: put_all_def simp del: scan_details.simps(2))
  qed
qed

lemma scan_tasks_spec:
  "(\<exists>cm'. scan_tasks cluster ts cm = Done cm') \<longleftrightarrow> list_all task_ok ts"
  "scan_tasks cluster ts cm = Done cm' \<Longrightarrow> cm' = put_all (concat (List.map (task_entries cluster) ts)) cm"
proof -
  show "(\<exists>cm'. scan_tasks cluster ts cm = Done cm') \<longleftrightarrow> list_all task_ok ts"
  proof (induction ts arbitrary: cm)
    case (Cons t ts)
    show ?case
    proof (cases "tk_LastStatus t = Some ''RUNNING'' \<and> tk_Attachments t \<noteq> []")
      case True
      then obtain ds as where "tk_Attachments t = ds # as" by (cases "tk_Attachments t") auto
      with True Cons scan_details_spec(1) [of cluster t ds cm] show ?thesis
        by (auto simp: task_ok_def deref_def first_of_def go_bind_Done_iff)
    next
      case False
      with Cons show ?thesis
        by (cases "tk_LastStatus t"; cases "tk_Attachments t") (auto simp: task_ok_def deref_def first_of_def)
    qed
  qed simp
  show "scan_tasks cluster ts cm = Done cm' \<Longrightarrow> cm' = put_all (concat (List.map (task_entries cluster) ts)) cm"
  proof (induction ts arbitrary: cm)
    case Nil
    then show ?case by (simp add: put_all_def)
  next
    case (Cons t ts)
    then obtain s where s: "tk_LastStatus t = Some s" by (auto simp: deref_def split: option.splits)
    show ?case
    proof (cases "s = ''RUNNING''")
      case True
      with Cons.prems s obtain ds as cm1 where ds: "tk_Attachments t = ds # as"
        and "scan_details cluster t ds cm = Done cm1" "scan_tasks cluster ts cm1 = Done cm'"
        by (auto simp: deref_def first_of_def go_bind_Done_iff split: list.splits)
      with Cons.IH scan_details_spec(2) True s show ?thesis by (simp add: task_entries_def put_all_def)
    next
      case False
      with Cons s show ?thesis by (simp add: task_entries_def deref_def)
    qed
  qed
qed

lemma get_put_all:
  "gm_get (put_all kvs m) k = (case List.filter (\<lambda>(k', v). k' = k) (rev kvs) of [] \<Rightarrow> gm_get m k | (_, v) # _ \<Rightarrow> Some v)"
  by (induction kvs arbitrary: m rule: rev_induct) (auto simp: put_all_def update_conv split: prod.splits list.splits)

text \<open>
  The map \<open>getClusterMap\<close> builds from the answers of ECS: it returns exactly when each running task has an
  attachment and the pointers it reads are set, and then a name has the interface of the last running task
  with that name; for other tasks there is no entry.
\<close>

theorem cluster_map:
  assumes "aw_ListTasks aws cluster = Inr arns" "aw_DescribeTasks aws cluster arns = Inr tasks" "tasks \<noteq> []"
  shows "((\<exists>r. getClusterMap aws cluster = Done r) \<longleftrightarrow> list_all task_ok tasks)
    \<and> (\<forall>cm name. getClusterMap aws cluster = Done (Inr cm) \<longrightarrow> gm_get cm name =
        (case List.filter (\<lambda>(k, v). k = name) (rev (concat (List.map (task_entries cluster) tasks))) of
           [] \<Rightarrow> None | (_, eni) # _ \<Rightarrow> Some eni))"
proof -
  have g: "getClusterMap aws cluster = go_bind (scan_tasks cluster tasks []) (\<lambda>cm. Done (Inr cm))"
    using assms by (cases tasks) (auto simp: getClusterMap_def)
  have "(\<exists>r. getClusterMap aws cluster = Done r) \<longleftrightarrow> list_all task_ok tasks"
    using scan_tasks_spec(1) [of cluster tasks "[]"] unfolding g by (auto simp: go_bind_Done_iff)
  moreover have "gm_get cm name = (case List.filter (\<lambda>(k, v). k = name) (rev (concat (List.map (task_entries cluster) tasks))) of
      [] \<Rightarrow> None | (_, eni) # _ \<Rightarrow> Some eni)" if "getClusterMap aws cluster = Done (Inr cm)" for cm name
  proof -
    have "scan_tasks cluster tasks [] = Done cm" using that unfolding g by (auto simp: go_bind_Done_iff)
    from scan_tasks_spec(2) [OF this] have cm: "cm = put_all (concat (List.map (task_entries cluster) tasks)) []" .
    show ?thesis unfolding cm get_put_all by (simp cong: list.case_cong)
  qed
  ultimately show ?thesis by blast
qed

text \<open>
  \<open>Expose\<close> does not look at the name of the zone it is given back: the records of all tasks go to the first
  zone Route53 lists from the name on, or to the empty id if there is none, and a task without a public
  address gets a record with an empty value.
\<close>

theorem expose_any_zone:
  assumes "aw_Zones aws zone = Inr zones" "zones = [] \<and> zid = [] \<or> (\<exists>other rest. zones = (other, Some zid) # rest)"
    "getClusterMap aws cluster = Done (Inr cm)"
  shows "\<exists>batch. Expose aws submit cluster zone = Done (submit batch, Some batch) \<and> cb_HostedZoneId batch = zid
    \<and> List.map ch_Name (cb_Changes batch) = List.map (\<lambda>(name, eni). name @ ''.'' @ zone) cm
    \<and> List.map ch_Values (cb_Changes batch)
        = List.map (\<lambda>(name, eni). [case getPublicIP aws eni of Inl _ \<Rightarrow> [] | Inr ip \<Rightarrow> ip]) cm"
  using assms by (auto simp: Expose_def deref_def Let_def upsert_def)

text \<open>The license between its fences.\<close>

definition tick :: char where "tick = CHR ''`''"

lemma fence_ticks: "fence = [tick, tick, tick]"
  by (simp add: fence_def tick_def)

definition one_line :: "string \<Rightarrow> bool" where "one_line s \<longleftrightarrow> CHR 0x0A \<notin> set s"

lemma key_rx_runs:
  "(a, rest, c) \<in> set (runs key_rx s) \<longleftrightarrow>
    (\<exists>k. a = fence @ k @ fence \<and> c = [(1, k)] \<and> s = fence @ k @ fence @ rest \<and> k \<noteq> [] \<and> one_line k)"
proof -
  have "Suc 0 \<le> length k \<longleftrightarrow> k \<noteq> []" "list_all (\<lambda>c. c \<noteq> CHR 0x0A) k \<longleftrightarrow> one_line k" for k :: string
    by (cases k, simp_all) (auto simp: list_all_iff one_line_def)
  then show ?thesis
    unfolding key_rx_def rxseq.simps plus1_def runs_iff by auto
qed

text \<open>A text with no other backticks on the line of the key.\<close>

lemma fenced_unique:
  assumes "key @ fence @ post = k @ fence @ rest" "tick \<notin> set key" "tick \<notin> set (takeWhile (\<lambda>c. c \<noteq> CHR 0x0A) post)" "one_line k"
  shows "k = key"
proof -
  have nl: "tick \<noteq> CHR 0x0A" by (simp add: tick_def)
  from assms(1) consider u where "k = key @ u" "fence @ post = u @ fence @ rest"
    | u where "key = k @ u" "u @ fence @ post = fence @ rest"
    unfolding append_eq_append_conv2 [of key "fence @ post" k "fence @ rest"] by blast
  then show ?thesis
  proof cases
    case 1
    have "u = []"
    proof (rule ccontr)
      assume "u \<noteq> []"
      have post: False if "post = v @ tick # w" "one_line v" for v w
        using assms(3) that nl by (auto simp: one_line_def takeWhile_append list_all_iff split: if_splits)
      from \<open>u \<noteq> []\<close> obtain x v where u: "u = x # v" by (cases u) auto
      show False
      proof (cases v)
        case Nil
        with 1(2) u have "post = tick # rest" by (simp add: fence_ticks)
        with post [of "[]"] show False by (simp add: one_line_def)
      next
        case (Cons y w)
        show False
        proof (cases w)
          case Nil
          with 1(2) u Cons have "post = tick # tick # rest" by (simp add: fence_ticks)
          with post [of "[]"] show False by (simp add: one_line_def)
        next
          case (Cons z w')
          with 1(2) u \<open>v = y # w\<close> have "post = w' @ tick # tick # tick # rest" by (simp add: fence_ticks)
          moreover have "one_line w'" using assms(4) 1(1) u \<open>v = y # w\<close> Cons by (simp add: one_line_def)
          ultimately show False using post by blast
        qed
      qed
    qed
    with 1 show ?thesis by simp
  next
    case 2
    with assms(2) show ?thesis by (cases u) (auto simp: fence_ticks)
  qed
qed

lemma submatch_key:
  assumes "tick \<notin> set key" "tick \<notin> set (takeWhile (\<lambda>c. c \<noteq> CHR 0x0A) post)"
  shows "submatch key_rx (fence @ key @ fence @ post) = (if key \<noteq> [] \<and> one_line key then Some [(1, key)] else None)"
proof -
  let ?s = "fence @ key @ fence @ post"
  have some: "k = key" if "?s = fence @ k @ fence @ rest" "one_line k" for k rest
    using that fenced_unique [OF _ assms(1,2)] by auto
  show ?thesis
  proof (cases "key \<noteq> [] \<and> one_line key")
    case True
    then have "(fence @ key @ fence, post, [(1, key)]) \<in> set (runs key_rx ?s)" unfolding key_rx_runs by blast
    then have "submatch key_rx ?s \<noteq> None" unfolding submatch_None by blast
    then obtain c where c: "submatch key_rx ?s = Some c" by blast
    from submatch_Some [OF c] obtain k rest where "c = [(1, k)]" "?s = fence @ k @ fence @ rest" "one_line k"
      unfolding key_rx_runs by blast
    with some c True show ?thesis by auto
  next
    case False
    have "m \<notin> set (runs key_rx ?s)" for m
      using some False by (cases m) (auto simp: key_rx_runs)
    then have "submatch key_rx ?s = None" unfolding submatch_None by blast
    with False show ?thesis by (simp only: if_False)
  qed
qed

lemma submatch_other: "s = [] \<or> hd s \<noteq> tick \<Longrightarrow> submatch key_rx s = None"
proof -
  assume "s = [] \<or> hd s \<noteq> tick"
  then have "m \<notin> set (runs key_rx s)" for m by (cases m) (auto simp: key_rx_runs fence_ticks)
  then show ?thesis unfolding submatch_None by blast
qed

lemma find_skip: "tick \<notin> set pre \<Longrightarrow> find_submatch key_rx (pre @ s) = find_submatch key_rx s"
  by (induction pre) (auto simp: submatch_other)

text \<open>A match needs six backticks.\<close>

lemma find_few: "count_list s tick < 6 \<Longrightarrow> find_submatch key_rx s = None"
proof (induction s)
  case (Cons c s)
  have "m \<notin> set (runs key_rx (c # s))" for m
    using Cons.prems by (cases m) (auto simp: key_rx_runs fence_ticks)
  then have "submatch key_rx (c # s) = None" unfolding submatch_None by blast
  with Cons show ?case by (simp split: if_splits)
qed (simp add: submatch_other)


section \<open>Examples\<close>

definition eni_detail :: "string \<Rightarrow> attachment_detail" where
  "eni_detail eni = \<lparr>ad_Name = Some ''networkInterfaceId'', ad_Value = Some eni\<rparr>"

definition sample_tasks :: "task list" where
  "sample_tasks =
     [\<lparr>tk_LastStatus = Some ''RUNNING'', tk_Attachments = [[\<lparr>ad_Name = Some ''subnetId'', ad_Value = None\<rparr>, eni_detail ''eni-1'']],
        tk_Containers = [Some ''tyk'']\<rparr>,
      \<lparr>tk_LastStatus = Some ''PENDING'', tk_Attachments = [], tk_Containers = []\<rparr>,
      \<lparr>tk_LastStatus = Some ''RUNNING'', tk_Attachments = [[eni_detail ''eni-2'']], tk_Containers = [Some ''pump'']\<rparr>]"

definition sample_aws :: aws where
  "sample_aws = \<lparr>aw_ListTasks = (\<lambda>c. Inr [''arn'']), aw_DescribeTasks = (\<lambda>c arns. Inr sample_tasks),
     aw_Interfaces = (\<lambda>eni. if eni = ''eni-1'' then Inr [Some (Some ''3.4.5.6'')] else Inr [None]),
     aw_Zones = (\<lambda>z. Inr [(''zzz.example.'', Some ''Z9'')]), aw_Region = ''eu''\<rparr>"

theorem cluster_map_witness:
  "\<exists>cm. getClusterMap sample_aws ''c'' = Done (Inr cm) \<and> gm_get cm ''tyk.c'' = Some ''eni-1'' \<and> gm_get cm ''dash.c'' = None"
proof -
  have a: "aw_ListTasks sample_aws ''c'' = Inr [''arn'']" "aw_DescribeTasks sample_aws ''c'' [''arn''] = Inr sample_tasks"
    "sample_tasks \<noteq> []" by (simp_all add: sample_aws_def sample_tasks_def)
  have ok: "list_all task_ok sample_tasks" by code_simp
  have e: "concat (List.map (task_entries ''c'') sample_tasks) = [(''tyk.c'', ''eni-1''), (''pump.c'', ''eni-2'')]" by code_simp
  obtain r where r: "getClusterMap sample_aws ''c'' = Done r" using cluster_map [OF a] ok by blast
  have "\<exists>cm. r = Inr cm" using r a by (auto simp: getClusterMap_def go_bind_Done_iff)
  then show ?thesis using cluster_map [OF a] r by (auto simp: e)
qed

theorem expose_any_zone_witness:
  "\<exists>batch. Expose sample_aws (\<lambda>_. None) ''c'' ''dev.tyk'' = Done (None, Some batch) \<and> cb_HostedZoneId batch = ''Z9''
    \<and> List.map ch_Values (cb_Changes batch) = [[''3.4.5.6''], [[]]]"
proof -
  have cm: "getClusterMap sample_aws ''c'' = Done (Inr [(''tyk.c'', ''eni-1''), (''pump.c'', ''eni-2'')])" by code_simp
  have z: "aw_Zones sample_aws ''dev.tyk'' = Inr [(''zzz.example.'', Some ''Z9'')]" by (simp add: sample_aws_def)
  have ip: "getPublicIP sample_aws ''eni-1'' = Inr ''3.4.5.6''" "getPublicIP sample_aws ''eni-2'' = Inl ''no public IP''" by code_simp+
  show ?thesis
    using expose_any_zone [OF z _ cm, of "''Z9''" "\<lambda>_. None"] ip by auto
qed


end
