(* ===== verification/GpgAgent.thy ===== *)
theory GpgAgent
  imports JsonParse
begin

text \<open>
  \<open>util/gpgagent\<close> and \<open>util/gpg.go\<close>: the conversation with the GPG agent that yields a passphrase, and the choice
  of the signing key.  The agent is an argument: it answers each line it is sent, knowing all lines before.
\<close>

section \<open>The conversation\<close>

text \<open>The answer to a line: writing it or reading the answer failed, or a line, without its newline.\<close>

datatype agent_reply = SendFailed string | ReadFailed string | Replied string

type_synonym agent = "string list \<Rightarrow> agent_reply"

datatype agent_error = ErrNoAgent | ErrNoData | ErrCancel | AgentErr string

definition newline :: string where "newline = [CHR 0x0A]"

text \<open>\<open>NewGpgAgentConn\<close>, given the outcome of connecting and the greeting.\<close>

definition NewGpgAgentConn :: "(string \<Rightarrow> string + (string + string)) \<Rightarrow> string \<Rightarrow> agent_error option" where
  "NewGpgAgentConn dial sp =
     (if sp = [] then Some ErrNoAgent
      else case dial sp of
        Inl e \<Rightarrow> Some (AgentErr e)
      | Inr (Inl e) \<Rightarrow> Some (AgentErr e)
      | Inr (Inr line) \<Rightarrow>
          if prefix ''OK'' line then None else Some (AgentErr (''gpgagent: did not get OK; got '' @ line)))"

text \<open>
  The Windows variant, which takes no path: the output of \<open>gpg-connect-agent\<close> names a file that holds a
  port, a newline and a nonce; the nonce is sent to the port, and the greeting read.
\<close>

definition NewGpgAgentConn_windows ::
  "string \<Rightarrow> (string \<Rightarrow> string + string) \<Rightarrow> (string \<Rightarrow> string + (string \<Rightarrow> string + string)) \<Rightarrow> agent_error option" where
  "NewGpgAgentConn_windows agentOut readFile dial =
     (let firstLine = hd (split_on (CHR 0x0A) agentOut) in
      if length firstLine < 3 then Some ErrNoAgent
      else case readFile (trim_space (drop 2 firstLine)) of
        Inl e \<Rightarrow> Some (AgentErr e)
      | Inr sc \<Rightarrow>
     (case cut_at (CHR 0x0A) sc of
        None \<Rightarrow> Some (AgentErr ''Invalid socket file'')
      | Some (port, nonce) \<Rightarrow>
          if length nonce \<noteq> 16 then Some (AgentErr ''Invalid socket file nonce'')
          else case dial (''127.0.0.1:'' @ port) of
            Inl e \<Rightarrow> Some (AgentErr e)
          | Inr conn \<Rightarrow>
              (case conn nonce of
                 Inl e \<Rightarrow> Some (AgentErr e)
               | Inr line \<Rightarrow>
                   if prefix ''OK'' line then None else Some (AgentErr (''gpgagent: did not get OK; got '' @ line)))))"

lemma windows_connected:
  assumes "NewGpgAgentConn_windows agentOut readFile dial = None"
  shows "\<exists>path port nonce conn line. readFile path = Inr (port @ (CHR 0x0A) # nonce) \<and> (CHR 0x0A) \<notin> set port \<and>
    length nonce = 16 \<and> dial (''127.0.0.1:'' @ port) = Inr conn \<and> conn nonce = Inr (''OK'' @ line)"
proof -
  let ?path = "trim_space (drop 2 (hd (split_on (CHR 0x0A) agentOut)))"
  obtain sc where sc: "readFile ?path = Inr sc"
    using assms by (cases "readFile ?path") (auto simp: NewGpgAgentConn_windows_def Let_def split: if_splits)
  obtain port nonce where c: "cut_at (CHR 0x0A) sc = Some (port, nonce)"
    using assms sc by (cases "cut_at (CHR 0x0A) sc") (auto simp: NewGpgAgentConn_windows_def Let_def split: if_splits)
  have n: "length nonce = 16" using assms sc c by (simp add: NewGpgAgentConn_windows_def Let_def split: if_splits)
  obtain conn where d: "dial (''127.0.0.1:'' @ port) = Inr conn"
    using assms sc c n
    by (cases "dial (''127.0.0.1:'' @ port)") (auto simp: NewGpgAgentConn_windows_def Let_def split: if_splits)
  obtain line where "conn nonce = Inr line" "prefix ''OK'' line"
    using assms sc c n d
    by (cases "conn nonce") (auto simp: NewGpgAgentConn_windows_def Let_def split: if_splits)
  with sc cut_at_Some [OF c] n d show ?thesis unfolding prefix_def by metis
qed

text \<open>\<open>url.QueryEscape\<close>\<close>

definition unreserved :: "char \<Rightarrow> bool" where
  "unreserved c \<longleftrightarrow> is_digit c \<or> c \<in> set upper_letters \<or> c \<in> set lower_letters \<or> c \<in> set ''-_.~''"

definition escape_char :: "char \<Rightarrow> string" where
  "escape_char c =
     (if unreserved c then [c] else if c = CHR '' '' then ''+''
      else CHR ''%'' # to_upper [hex_digits ! (of_char c div 16), hex_digits ! (of_char c mod 16)])"

definition QueryEscape :: "string \<Rightarrow> string" where "QueryEscape s = concat (List.map escape_char s)"

text \<open>\<open>hex.DecodeString\<close>\<close>

fun hex_decode :: "string \<Rightarrow> string option" where
  "hex_decode [] = Some []"
| "hex_decode [c] = None"
| "hex_decode (a # b # s) =
     Option.bind (hex_val a) (\<lambda>x. Option.bind (hex_val b) (\<lambda>y. map_option ((#) (char_of (16 * x + y))) (hex_decode s)))"

record PassphraseRequest =
  pr_CacheKey :: string
  pr_Error :: string
  pr_Prompt :: string
  pr_Desc :: string
  pr_NoAsk :: bool

definition encOrX :: "string \<Rightarrow> string" where
  "encOrX s = (if s = [] then ''X'' else QueryEscape s)"

definition request_line :: "PassphraseRequest \<Rightarrow> string" where
  "request_line pr = ''GET_PASSPHRASE '' @ (if pr_NoAsk pr then ''--no-ask '' else []) @ QueryEscape (pr_CacheKey pr) @ '' ''
     @ encOrX (pr_Error pr) @ '' '' @ encOrX (pr_Prompt pr) @ '' '' @ encOrX (pr_Desc pr) @ newline"

text \<open>The closure \<open>set\<close>: the message it panics with, if any, and all lines sent so far.\<close>

definition set_option :: "agent \<Rightarrow> string \<Rightarrow> string \<Rightarrow> string list \<Rightarrow> string option \<times> string list" where
  "set_option agent cmd val sent =
     (if val = [] then (None, sent)
      else let sent = sent @ [cmd @ '' '' @ val @ newline] in
        (case agent sent of
           SendFailed _ \<Rightarrow> Some (''gpgagent: failed to send '' @ cmd)
         | ReadFailed _ \<Rightarrow> Some (''gpgagent: failed to read '' @ cmd)
         | Replied line \<Rightarrow> if prefix ''OK'' line then None else Some (''gpgagent: response to '' @ cmd @ '' was '' @ line), sent))"

fun set_options :: "agent \<Rightarrow> (string \<times> string) list \<Rightarrow> string list \<Rightarrow> string option \<times> string list" where
  "set_options agent [] sent = (None, sent)"
| "set_options agent ((cmd, val) # cvs) sent =
     (case set_option agent cmd val sent of
        (Some m, sent) \<Rightarrow> (Some m, sent)
      | (None, sent) \<Rightarrow> set_options agent cvs sent)"

text \<open>The environment of the process: the variables and the link of its standard input.\<close>

record pass_env =
  pe_DISPLAY :: string
  pe_tty :: "string option"
  pe_TERM :: string

definition env_options :: "pass_env \<Rightarrow> (string \<times> string) list" where
  "env_options e =
     (if pe_DISPLAY e \<noteq> [] then [(''OPTION'', ''display='' @ pe_DISPLAY e)] else [])
     @ (case pe_tty e of Some tty \<Rightarrow> [(''OPTION'', ''ttyname='' @ tty)] | None \<Rightarrow> [])
     @ [(''OPTION'', ''ttytype='' @ (if pe_TERM e = [] then ''vt100'' else pe_TERM e))]"

text \<open>What the answer to the request means.\<close>

definition read_answer :: "string \<Rightarrow> agent_error + string" where
  "read_answer line =
     (if prefix ''OK '' line then
        (case hex_decode (drop 3 line) of None \<Rightarrow> Inl (AgentErr ''encoding/hex'') | Some p \<Rightarrow> Inr p)
      else
        (case split_on (CHR '' '') (line @ newline) of
           w # code # _ \<Rightarrow>
             if w = ''ERR'' \<and> code = ''67108922'' then Inl ErrNoData
             else if w = ''ERR'' \<and> code = ''83886179'' then Inl ErrCancel
             else Inl (AgentErr (line @ newline))
         | _ \<Rightarrow> Inl (AgentErr (line @ newline))))"

text \<open>
  \<open>func (c *Conn) GetPassphrase(pr *PassphraseRequest) (passphrase string, outerr error)\<close>; the panics of \<open>set\<close>
  are recovered and returned as errors.
\<close>

definition GetPassphrase :: "agent \<Rightarrow> pass_env \<Rightarrow> PassphraseRequest \<Rightarrow> string list \<Rightarrow> (agent_error + string) \<times> string list" where
  "GetPassphrase agent e pr sent =
     (case set_options agent (env_options e) sent of
        (Some m, sent) \<Rightarrow> (Inl (AgentErr m), sent)
      | (None, sent) \<Rightarrow>
          let sent = sent @ [request_line pr] in
          ((case agent sent of
              SendFailed err \<Rightarrow> Inl (AgentErr err)
            | ReadFailed err \<Rightarrow> Inl (AgentErr err)
            | Replied line \<Rightarrow> read_answer line), sent))"

definition RemoveFromCache :: "agent \<Rightarrow> string \<Rightarrow> string list \<Rightarrow> agent_error option \<times> string list" where
  "RemoveFromCache agent cacheKey sent =
     (let sent = sent @ [''CLEAR_PASSPHRASE '' @ QueryEscape cacheKey @ newline] in
      (case agent sent of
         SendFailed err \<Rightarrow> Some (AgentErr err)
       | ReadFailed err \<Rightarrow> Some (AgentErr err)
       | Replied line \<Rightarrow> if prefix ''OK'' line then None else Some (AgentErr (''gpgagent: CLEAR_PASSPHRASE returned '' @ line @ newline)), sent))"

section \<open>The signing key\<close>

record entity =
  en_KeyId :: nat
  en_Fingerprint :: string
  en_Encrypted :: bool

text \<open>
  What the key is found with: the keyring, its parser, the keys of a list that sign for an id, decryption,
  the output of \<open>gpgconf\<close>, and the connection to the agent.
\<close>

record gpg_lib =
  gl_open :: "string + string"
  gl_ReadKeyRing :: "string \<Rightarrow> string + entity list"
  gl_KeysByIdUsage :: "entity list \<Rightarrow> nat \<Rightarrow> entity list"
  gl_Decrypt :: "entity \<Rightarrow> string \<Rightarrow> string option"
  gl_gpgconf :: "string + string"
  gl_dial :: "string \<Rightarrow> string + (string + string)"
  gl_agent :: agent
  gl_env :: pass_env

definition hex_encode :: "string \<Rightarrow> string" where
  "hex_encode s = concat (List.map (\<lambda>c. [hex_digits ! (of_char c div 16), hex_digits ! (of_char c mod 16)]) s)"

definition agent_error_text :: "agent_error \<Rightarrow> string" where
  "agent_error_text e = (case e of ErrNoAgent \<Rightarrow> ''GPG_AGENT_INFO not set in environment''
     | ErrNoData \<Rightarrow> ''GPG_ERR_NO_DATA cache miss'' | ErrCancel \<Rightarrow> ''gpgagent: Cancel'' | AgentErr m \<Rightarrow> m)"

definition trim_right_newlines :: "string \<Rightarrow> string" where
  "trim_right_newlines s = rev (dropWhile (\<lambda>c. c = CHR 0x0A) (rev s))"

definition gpgconfBinary :: "gpg_lib \<Rightarrow> string + string" where
  "gpgconfBinary lib = (case gl_gpgconf lib of
     Inl e \<Rightarrow> Inl (''cannot get output from gpgconf: '' @ e) | Inr out \<Rightarrow> Inr (trim_right_newlines out))"

definition getPassphrase :: "gpg_lib \<Rightarrow> string \<Rightarrow> string + string" where
  "getPassphrase lib fp =
     (case gpgconfBinary lib of
        Inl e \<Rightarrow> Inl (''getting agent socket: '' @ e)
      | Inr sock \<Rightarrow>
          (case NewGpgAgentConn (gl_dial lib) sock of
             Some e \<Rightarrow> Inl (''connecting to gpg-agent: '' @ agent_error_text e)
           | None \<Rightarrow>
               (case fst (GetPassphrase (gl_agent lib) (gl_env lib)
                   \<lparr>pr_CacheKey = to_upper fp, pr_Error = [], pr_Prompt = [], pr_Desc = [], pr_NoAsk = False\<rparr> []) of
                  Inl e \<Rightarrow> Inl (''getting passphrase: '' @ agent_error_text e)
                | Inr p \<Rightarrow> Inr p)))"

text \<open>\<open>func GetSigningEntity(kid uint64) (*openpgp.Entity, error)\<close>\<close>

definition GetSigningEntity :: "gpg_lib \<Rightarrow> nat \<Rightarrow> (string + entity) go" where
  "GetSigningEntity lib kid =
     (case gl_open lib of
        Inl e \<Rightarrow> Done (Inl ''cannot find keyring'')
      | Inr content \<Rightarrow>
          (case gl_ReadKeyRing lib content of
             Inl e \<Rightarrow> Done (Inl e)
           | Inr entityList \<Rightarrow>
               if length (gl_KeysByIdUsage lib entityList kid) < 1 then Done (Inl (''No signing key for keyid '' @ show_nat kid))
               else (case entityList of
                  [] \<Rightarrow> Panic ''index out of range''
                | key # _ \<Rightarrow>
                    if en_Encrypted key then
                      (case getPassphrase lib (hex_encode (en_Fingerprint key)) of
                         Inl e \<Rightarrow> Done (Inl (''getting passphrase from agent: '' @ e))
                       | Inr passphrase \<Rightarrow>
                           (case gl_Decrypt lib key passphrase of
                              Some e \<Rightarrow> Done (Inl e)
                            | None \<Rightarrow> Done (Inr (key\<lparr>en_Encrypted := False\<rparr>))))
                    else Done (Inr key))))"

section \<open>Properties\<close>

lemma char_nibbles: "of_char c div 16 < (16 :: nat)" "of_char c mod 16 < (16 :: nat)"
  using nat_of_char_less_256 [of c] by (simp_all add: less_mult_imp_div_less)

lemma hex_digit_upper: "i < 16 \<Longrightarrow> unreserved (hex_digits ! i) \<and> unreserved (upper_char (hex_digits ! i))"
proof -
  have "\<forall>i \<in> set [0..<16]. unreserved (hex_digits ! i) \<and> unreserved (upper_char (hex_digits ! i))" by code_simp
  then show "i < 16 \<Longrightarrow> unreserved (hex_digits ! i) \<and> unreserved (upper_char (hex_digits ! i))" by simp
qed

definition plain_word :: "string \<Rightarrow> bool" where
  "plain_word s \<longleftrightarrow> CHR '' '' \<notin> set s \<and> CHR 0x0A \<notin> set s"

lemma escape_plain: "plain_word (QueryEscape s)"
proof -
  have u: "unreserved c \<Longrightarrow> c \<noteq> CHR '' '' \<and> c \<noteq> CHR 0x0A" for c
    by (auto simp: unreserved_def is_digit_def digit_chars_def upper_letters_def lower_letters_def)
  have "d \<noteq> CHR '' '' \<and> d \<noteq> CHR 0x0A" if "d \<in> set (escape_char c)" for c d
  proof -
    have "unreserved (upper_char (hex_digits ! (of_char c div 16)))" "unreserved (upper_char (hex_digits ! (of_char c mod 16)))"
      using hex_digit_upper char_nibbles by blast+
    with that u show ?thesis by (auto simp: escape_char_def to_upper_def split: if_splits)
  qed
  then show ?thesis by (auto simp: plain_word_def QueryEscape_def)
qed

lemma encOrX_plain: "plain_word (encOrX s)" "encOrX s \<noteq> []"
proof -
  show "plain_word (encOrX s)" using escape_plain by (simp add: encOrX_def plain_word_def)
  have "escape_char c \<noteq> []" for c by (simp add: escape_char_def)
  then show "encOrX s \<noteq> []" by (cases s) (simp_all add: encOrX_def QueryEscape_def)
qed

text \<open>
  Whatever the request holds, it is one line of the protocol: the command, the option, and four words
  with neither space nor newline, so no field can be taken for another or for a second command.
\<close>

theorem request_is_one_line:
  "split_on (CHR '' '') (request_line pr) = ''GET_PASSPHRASE'' # (if pr_NoAsk pr then [''--no-ask''] else [])
     @ [QueryEscape (pr_CacheKey pr), encOrX (pr_Error pr), encOrX (pr_Prompt pr), encOrX (pr_Desc pr) @ newline]
   \<and> CHR 0x0A \<notin> set (butlast (request_line pr)) \<and> last (request_line pr) = CHR 0x0A"
proof -
  let ?ws = "''GET_PASSPHRASE'' # (if pr_NoAsk pr then [''--no-ask''] else [])
     @ [QueryEscape (pr_CacheKey pr), encOrX (pr_Error pr), encOrX (pr_Prompt pr), encOrX (pr_Desc pr) @ newline]"
  note p = escape_plain [of "pr_CacheKey pr"] encOrX_plain(1) [of "pr_Error pr"] encOrX_plain(1) [of "pr_Prompt pr"]
    encOrX_plain(1) [of "pr_Desc pr"]
  have r: "request_line pr = join_with '' '' ?ws" by (simp add: request_line_def)
  have "split_on (CHR '' '') (join_with [CHR '' ''] ?ws) = ?ws"
    using p by (intro split_join) (auto simp: plain_word_def newline_def)
  moreover have "CHR 0x0A \<notin> set (butlast (request_line pr)) \<and> last (request_line pr) = CHR 0x0A"
    using p by (auto simp: request_line_def newline_def plain_word_def butlast_append)
  ultimately show ?thesis unfolding r by blast
qed

lemma set_options_ok:
  "set_options agent cvs sent = (None, sent') \<Longrightarrow>
   \<exists>ls. sent' = sent @ ls \<and> (\<forall>i < length ls. \<exists>l. agent (sent @ take (Suc i) ls) = Replied l \<and> prefix ''OK'' l)"
proof (induction cvs arbitrary: sent)
  case (Cons cv cvs)
  obtain cmd val where cv: "cv = (cmd, val)" by force
  show ?case
  proof (cases "val = []")
    case True
    with Cons cv show ?thesis by (simp add: set_option_def)
  next
    case False
    let ?l = "cmd @ '' '' @ val @ newline"
    from False Cons.prems cv obtain l where l: "agent (sent @ [?l]) = Replied l" "prefix ''OK'' l"
      and rest: "set_options agent cvs (sent @ [?l]) = (None, sent')"
      by (auto simp: set_option_def Let_def split: agent_reply.splits if_splits)
    from Cons.IH [OF rest] obtain ls where ls: "sent' = (sent @ [?l]) @ ls"
      "\<forall>i < length ls. \<exists>l. agent ((sent @ [?l]) @ take (Suc i) ls) = Replied l \<and> prefix ''OK'' l" by blast
    have "\<exists>l. agent (sent @ take (Suc i) (?l # ls)) = Replied l \<and> prefix ''OK'' l" if "i < length (?l # ls)" for i
      using that l ls(2) by (cases i) auto
    with ls(1) show ?thesis by (intro exI [of _ "?l # ls"]) simp
  qed
qed simp

text \<open>
  (C30) A passphrase is returned only from an answer to the request: the agent said OK to every option sent before,
  the request was the last line sent, and its answer is OK with the passphrase in hexadecimal.
\<close>

theorem passphrase_from_answer:
  assumes "GetPassphrase agent e pr [] = (Inr p, sent)"
  shows "\<exists>ls h. sent = ls @ [request_line pr] \<and> agent sent = Replied (''OK '' @ h) \<and> hex_decode h = Some p
    \<and> (\<forall>i < length ls. \<exists>l. agent (take (Suc i) ls) = Replied l \<and> prefix ''OK'' l)"
proof -
  obtain ls where o: "set_options agent (env_options e) [] = (None, ls)"
    using assms by (auto simp: GetPassphrase_def split: prod.splits option.splits)
  then have "sent = ls @ [request_line pr]" "agent sent = Replied line \<Longrightarrow> read_answer line = Inr p"
      "\<exists>line. agent sent = Replied line" for line
    using assms by (auto simp: GetPassphrase_def Let_def split: agent_reply.splits)
  moreover have "\<exists>h. line = ''OK '' @ h \<and> hex_decode h = Some p" if "read_answer line = Inr p" for line
    using that by (auto simp: read_answer_def prefix_def split: if_splits option.splits list.splits)
  ultimately show ?thesis using set_options_ok [OF o] by (metis append_Nil)
qed

lemma hex_decode_encode: "hex_decode (hex_encode p) = Some p"
proof (induction p)
  case (Cons c p)
  then show ?case using char_nibbles [of c] by (simp add: hex_encode_def hex_val_digit)
qed (simp add: hex_encode_def)

text \<open>
  Any passphrase comes through: an agent that accepts the options and answers with the passphrase in
  hexadecimal yields exactly that passphrase, whatever bytes it is made of.
\<close>

theorem passphrase_roundtrip:
  assumes "\<And>ls l. \<not> prefix ''GET_PASSPHRASE'' l \<Longrightarrow> agent (ls @ [l]) = Replied ''OK''"
    "\<And>ls l. prefix ''GET_PASSPHRASE'' l \<Longrightarrow> agent (ls @ [l]) = Replied (''OK '' @ hex_encode p)"
  shows "fst (GetPassphrase agent e pr []) = Inr p"
proof -
  have opt: "\<exists>sent'. set_options agent cvs sent = (None, sent')" if "\<forall>(cmd, val) \<in> set cvs. cmd = ''OPTION''" for cvs sent
    using that
  proof (induction cvs arbitrary: sent)
    case (Cons cv cvs)
    then show ?case using assms(1) [of "''OPTION '' @ snd cv @ newline" sent]
      by (cases cv) (auto simp: set_option_def Let_def)
  qed simp
  have "\<forall>(cmd, val) \<in> set (env_options e). cmd = ''OPTION''"
    by (auto simp: env_options_def split: option.splits if_splits)
  from opt [OF this, of "[]"] obtain ls where ls: "set_options agent (env_options e) [] = (None, ls)" by blast
  have "agent (ls @ [request_line pr]) = Replied (''OK '' @ hex_encode p)"
    by (rule assms(2)) (simp add: request_line_def)
  with ls show ?thesis by (simp add: GetPassphrase_def read_answer_def hex_decode_encode)
qed

text \<open>
  \<open>GetSigningEntity\<close> checks that some key of the ring signs for the id it is given, and then returns the
  first entity of the ring, whatever its id.
\<close>

theorem signs_with_first_key:
  assumes "gl_open lib = Inr content" "gl_ReadKeyRing lib content = Inr (key # others)" "\<not> en_Encrypted key"
    "gl_KeysByIdUsage lib (key # others) kid \<noteq> []"
  shows "GetSigningEntity lib kid = Done (Inr key)"
  using assms by (cases "gl_KeysByIdUsage lib (key # others) kid") (simp_all add: GetSigningEntity_def)

section \<open>Examples\<close>

definition polite_agent :: "string \<Rightarrow> agent" where
  "polite_agent p ls = (if ls \<noteq> [] \<and> prefix ''GET_PASSPHRASE'' (last ls) then Replied (''OK '' @ hex_encode p) else Replied ''OK'')"

definition sample_request :: PassphraseRequest where
  "sample_request = \<lparr>pr_CacheKey = ''AB CD'', pr_Error = [], pr_Prompt = ''one two'', pr_Desc = [], pr_NoAsk = True\<rparr>"

theorem passphrase_roundtrip_witness:
  "fst (GetPassphrase (polite_agent ''s3cret'') \<lparr>pe_DISPLAY = '':0'', pe_tty = None, pe_TERM = []\<rparr> sample_request []) = Inr ''s3cret''"
  by (rule passphrase_roundtrip) (simp_all add: polite_agent_def)

theorem passphrase_from_answer_witness:
  "\<exists>ls h. snd (GetPassphrase (polite_agent ''x'') \<lparr>pe_DISPLAY = [], pe_tty = None, pe_TERM = []\<rparr> sample_request [])
      = ls @ [request_line sample_request] \<and> hex_decode h = Some ''x''"
proof -
  let ?r = "GetPassphrase (polite_agent ''x'') \<lparr>pe_DISPLAY = [], pe_tty = None, pe_TERM = []\<rparr> sample_request []"
  have "fst ?r = Inr ''x''" by code_simp
  then have "?r = (Inr ''x'', snd ?r)" by (metis prod.collapse)
  from passphrase_from_answer [OF this] show ?thesis by blast
qed

definition sample_lib :: gpg_lib where
  "sample_lib = \<lparr>gl_open = Inr [],
     gl_ReadKeyRing = (\<lambda>_. Inr [\<lparr>en_KeyId = 1, en_Fingerprint = [], en_Encrypted = False\<rparr>, \<lparr>en_KeyId = 2, en_Fingerprint = [], en_Encrypted = False\<rparr>]),
     gl_KeysByIdUsage = (\<lambda>es kid. List.filter (\<lambda>e. en_KeyId e = kid) es), gl_Decrypt = (\<lambda>_ _. None), gl_gpgconf = Inl [],
     gl_dial = (\<lambda>_. Inl []), gl_agent = (\<lambda>_. ReadFailed []), gl_env = \<lparr>pe_DISPLAY = [], pe_tty = None, pe_TERM = []\<rparr>\<rparr>"

theorem signs_with_first_key_witness:
  "\<exists>key. GetSigningEntity sample_lib 2 = Done (Inr key) \<and> en_KeyId key = 1"
proof -
  have "GetSigningEntity sample_lib 2 = Done (Inr \<lparr>en_KeyId = 1, en_Fingerprint = [], en_Encrypted = False\<rparr>)"
    by (rule signs_with_first_key [where content = "[]"
          and others = "[\<lparr>en_KeyId = 2, en_Fingerprint = [], en_Encrypted = False\<rparr>]"]) (simp_all add: sample_lib_def)
  then show ?thesis by simp
qed

end
