(* ===== verification/Dhi.thy ===== *)
theory Dhi
  imports JsonParse
begin

text \<open>
  \<open>dhi/manifest.go\<close> and the command \<open>customization-equal\<close>: two customizations are equal when their canonical
  JSON is, without the id the server assigns and the annotation CI stamps.  A reader is the list of outcomes
  of decoding its YAML documents one after the other; values are those of \<open>GoJson\<close>.
\<close>

section \<open>Decoding\<close>

type_synonym reader = "(string + json) list"

definition RebuildTriggerAnnotation :: string where
  "RebuildTriggerAnnotation = ''io.tyk.rebuild-trigger''"

text \<open>The first document is decoded into a map.\<close>

definition decode_first :: "reader \<Rightarrow> string + (string, json) gomap" where
  "decode_first r =
     (case r of
        [] \<Rightarrow> Inl ''EOF''
      | Inl e # _ \<Rightarrow> Inl e
      | Inr (JObj value) # _ \<Rightarrow> Inr value
      | Inr JNull # _ \<Rightarrow> Inr []
      | Inr _ # _ \<Rightarrow> Inl ''cannot unmarshal into map'')"

text \<open>What is left out of the comparison.\<close>

definition without_stamp :: "(string, json) gomap \<Rightarrow> (string, json) gomap" where
  "without_stamp value =
     (let value = gm_del ''id'' value in
      case gm_get value ''annotations'' of
        Some (JObj annotations) \<Rightarrow>
          (let annotations = gm_del RebuildTriggerAnnotation annotations
           in if annotations = [] then gm_del ''annotations'' value
              else gm_put ''annotations'' (JObj annotations) value)
      | _ \<Rightarrow> value)"

definition decodeCustomization :: "reader \<Rightarrow> string + (string, json) gomap" where
  "decodeCustomization r =
     (case decode_first r of
        Inl e \<Rightarrow> Inl e
      | Inr value \<Rightarrow>
          if value = [] then Inl ''customization is empty''
          else (case tl r of
             [] \<Rightarrow> Inr (without_stamp value)
           | Inl e # _ \<Rightarrow> Inl e
           | Inr _ # _ \<Rightarrow> Inl ''customization contains multiple YAML documents''))"

text \<open>\<open>func EqualCustomizations(left, right io.Reader) (bool, error)\<close>; these values marshal without an error.\<close>

definition EqualCustomizations :: "reader \<Rightarrow> reader \<Rightarrow> string + bool" where
  "EqualCustomizations left right =
     (case decodeCustomization left of
        Inl e \<Rightarrow> Inl (''decode desired customization: '' @ e)
      | Inr leftValue \<Rightarrow>
          (case decodeCustomization right of
             Inl e \<Rightarrow> Inl (''decode remote customization: '' @ e)
           | Inr rightValue \<Rightarrow> Inr (marshal (JObj leftValue) = marshal (JObj rightValue))))"

text \<open>\<open>customization-equal\<close>: the exit status and what it prints.\<close>

definition customization_equal :: "(string \<Rightarrow> string + reader) \<Rightarrow> string list \<Rightarrow> nat \<times> string" where
  "customization_equal open_file args =
     (case args of
        [l, r] \<Rightarrow>
          (case open_file l of
             Inl e \<Rightarrow> (2, e)
           | Inr left \<Rightarrow>
               (case open_file r of
                  Inl e \<Rightarrow> (2, e)
                | Inr right \<Rightarrow>
                    (case EqualCustomizations left right of
                       Inl e \<Rightarrow> (2, e)
                     | Inr equal \<Rightarrow> (0, if equal then ''equal'' else ''different''))))
      | _ \<Rightarrow> (2, ''usage: customization-equal <left.yaml> <right.yaml>''))"

section \<open>Canonical values\<close>

text \<open>Two values print alike exactly if they are the same up to the order of members.\<close>

lemma marshal_eq_iff: "json_ok a \<Longrightarrow> json_ok b \<Longrightarrow> marshal a = marshal b \<longleftrightarrow> canon a = canon b"
  by (metis marshal_canon unmarshal_marshal option.inject)

lemma value_ok_del: "json_ok (JObj ms) \<Longrightarrow> json_ok (JObj (gm_del k ms))"
  by (auto simp: map_simps list_all_iff AList.delete_eq)

lemma value_ok_put:
  assumes "json_ok (JObj ms)" "json_ok v"
  shows "json_ok (JObj (gm_put k v ms))"
  using assms update_ok [of ms json_ok v k] by simp

lemma value_ok_get: "json_ok (JObj ms) \<Longrightarrow> gm_get ms k = Some v \<Longrightarrow> json_ok v"
  by (auto simp: list_all_iff dest: map_of_SomeD)

lemma without_stamp_ok: "json_ok (JObj ms) \<Longrightarrow> json_ok (JObj (without_stamp ms))"
proof -
  assume ok: "json_ok (JObj ms)"
  have d: "json_ok (JObj (gm_del ''id'' ms))" by (rule value_ok_del [OF ok])
  show ?thesis
  proof (cases "gm_get (gm_del ''id'' ms) ''annotations''")
    case None
    then show ?thesis using d by (simp add: without_stamp_def)
  next
    case (Some j)
    with value_ok_get [OF d Some] d show ?thesis
      by (cases j) (auto simp: without_stamp_def Let_def simp del: json_ok.simps intro: value_ok_put value_ok_del)
  qed
qed

lemma get_map_canon: "gm_get (List.map (\<lambda>(k, v). (k, f v)) ms) k = map_option f (gm_get ms k)"
  by (induction ms) auto

lemma keys_map: "List.map fst (List.map (\<lambda>(k, v). (k, f v)) ms) = List.map fst ms"
  by (simp add: case_prod_unfold comp_def)

lemma distinct_sort_members: "distinct (List.map fst xs) \<Longrightarrow> distinct (List.map fst (sort_members xs))"
  by (simp add: sort_members_def distinct_map)

lemma canon_obj_iff:
  assumes "gm_ok ms" "gm_ok ns"
  shows "canon (JObj ms) = canon (JObj ns) \<longleftrightarrow> (\<forall>k. map_option canon (gm_get ms k) = map_option canon (gm_get ns k))"
proof -
  let ?c = "List.map (\<lambda>(k, v). (k, canon v))"
  have d: "distinct (List.map fst (?c ms))" "distinct (List.map fst (?c ns))"
    using assms by (simp_all only: keys_map gm_ok_def)
  have ds: "distinct (List.map fst (sort_members (?c ms)))" "distinct (List.map fst (sort_members (?c ns)))"
    using d distinct_sort_members by blast+
  have "canon (JObj ms) = canon (JObj ns) \<longleftrightarrow> sort_members (?c ms) = sort_members (?c ns)" by simp
  also have "\<dots> \<longleftrightarrow> set (?c ms) = set (?c ns)"
  proof
    assume "sort_members (?c ms) = sort_members (?c ns)"
    then have "set (sort_members (?c ms)) = set (sort_members (?c ns))" by (rule arg_cong)
    then show "set (?c ms) = set (?c ns)" by (simp only: sort_members_def set_sort)
  next
    assume s: "set (?c ms) = set (?c ns)"
    show "sort_members (?c ms) = sort_members (?c ns)"
    proof (rule map_sorted_distinct_set_unique [where f = fst])
      show "inj_on fst (set (sort_members (?c ms)) \<union> set (sort_members (?c ns)))"
        using d(1)[unfolded distinct_map [of fst]] s by (simp only: sort_members_def set_sort Un_absorb)
      show "set (sort_members (?c ms)) = set (sort_members (?c ns))" using s by (simp only: sort_members_def set_sort)
    qed (use ds in \<open>simp_all only: sort_members_def sorted_sort_key\<close>)
  qed
  also have "\<dots> \<longleftrightarrow> map_of (?c ms) = map_of (?c ns)" using map_of_inject_set [OF d] by blast
  also have "\<dots> \<longleftrightarrow> (\<forall>k. map_option canon (gm_get ms k) = map_option canon (gm_get ns k))"
    by (auto simp: fun_eq_iff get_map_canon)
  finally show ?thesis .
qed

section \<open>Equality of customizations\<close>

text \<open>The specification: what a customization says under a key.\<close>

definition says :: "(string, json) gomap \<Rightarrow> string \<Rightarrow> json option" where
  "says value k =
     (if k = ''id'' then None
      else case gm_get value k of
        Some (JObj as) \<Rightarrow>
          if k = ''annotations'' then
            (if \<exists>a. a \<noteq> RebuildTriggerAnnotation \<and> gm_get as a \<noteq> None then Some (JObj (gm_del RebuildTriggerAnnotation as)) else None)
          else Some (JObj as)
      | v \<Rightarrow> v)"

lemma del_empty_iff: "gm_del x as = [] \<longleftrightarrow> \<not> (\<exists>a. a \<noteq> x \<and> gm_get as a \<noteq> None)"
  by (induction as) (auto simp: delete_conv split: if_splits)

lemma get_without_stamp:
  assumes "gm_ok value"
  shows "gm_get (without_stamp value) k = says value k"
proof -
  have id: "''annotations'' \<noteq> ''id''" by simp
  have get: "gm_get (gm_del ''id'' value) k = (if k = ''id'' then None else gm_get value k)" for k
    using assms by (simp add: map_simps)
  have ok: "gm_ok (gm_del ''id'' value)" using assms by (simp add: map_simps)
  show ?thesis
  proof (cases "gm_get value ''annotations''")
    case None
    then show ?thesis using get id by (auto simp: without_stamp_def says_def split: option.splits json.splits)
  next
    case (Some j)
    show ?thesis
    proof (cases j)
      case (JObj as)
      with Some get id ok show ?thesis
        by (auto simp: without_stamp_def says_def Let_def del_empty_iff map_simps split: option.splits json.splits)
    qed (use Some get id in \<open>auto simp: without_stamp_def says_def split: option.splits json.splits\<close>)
  qed
qed


definition stamped :: "json \<Rightarrow> json \<Rightarrow> (string, json) gomap \<Rightarrow> (string, json) gomap" where
  "stamped i t value = gm_put ''id'' i
     (case gm_get value ''annotations'' of
        None \<Rightarrow> gm_put ''annotations'' (JObj [(RebuildTriggerAnnotation, t)]) value
      | Some (JObj as) \<Rightarrow> gm_put ''annotations'' (JObj (gm_put RebuildTriggerAnnotation t as)) value
      | Some _ \<Rightarrow> value)"

lemma stamped_ok:
  assumes "json_ok (JObj value)" "json_ok i" "json_ok t"
  shows "json_ok (JObj (stamped i t value))"
proof (cases "gm_get value ''annotations''")
  case None
  have "json_ok (JObj [(RebuildTriggerAnnotation, t)])" using assms(3) by (simp add: gm_ok_def)
  with None assms show ?thesis by (simp add: stamped_def value_ok_put del: json_ok.simps)
next
  case (Some j)
  with value_ok_get [OF assms(1) Some] assms show ?thesis
    by (cases j) (simp_all add: stamped_def value_ok_put del: json_ok.simps)
qed

lemma says_stamped: "says (stamped i t value) k = says value k"
proof (cases "gm_get value ''annotations''")
  case None
  then show ?thesis
    by (auto simp: says_def stamped_def update_conv RebuildTriggerAnnotation_def split: option.splits json.splits)
next
  case (Some j)
  show ?thesis
  proof (cases j)
    case (JObj as)
    have "(\<exists>a. a \<noteq> x \<and> gm_get (gm_put x t as) a \<noteq> None) \<longleftrightarrow> (\<exists>a. a \<noteq> x \<and> gm_get as a \<noteq> None)" for x
      by (auto simp: update_conv)
    with Some JObj show ?thesis
      by (auto simp: says_def stamped_def update_conv delete_update_same split: option.splits json.splits)
  qed (use Some in \<open>auto simp: says_def stamped_def update_conv split: option.splits json.splits\<close>)
qed

text \<open>
  A release stamp never counts as a difference: whatever id the server assigns and whatever the stamp is,
  a customization equals itself with both added or replaced.
\<close>

theorem stamp_is_no_difference:
  assumes "json_ok (JObj value)" "json_ok i" "json_ok t" "value \<noteq> []"
  shows "EqualCustomizations [Inr (JObj value)] [Inr (JObj (stamped i t value))] = Inr True"
proof -
  note ok = without_stamp_ok [OF assms(1)] without_stamp_ok [OF stamped_ok [OF assms(1-3)]]
  have g: "gm_ok value" "gm_ok (stamped i t value)" "gm_ok (without_stamp value)" "gm_ok (without_stamp (stamped i t value))"
    using assms(1) stamped_ok [OF assms(1-3)] ok by simp_all
  have ne: "stamped i t value \<noteq> []" by (simp add: stamped_def split: option.splits json.splits)
  have "EqualCustomizations [Inr (JObj value)] [Inr (JObj (stamped i t value))]
      = Inr (marshal (JObj (without_stamp value)) = marshal (JObj (without_stamp (stamped i t value))))"
    using assms(4) ne by (simp add: EqualCustomizations_def decodeCustomization_def decode_first_def del: marshal.simps)
  then show ?thesis
    unfolding marshal_eq_iff [OF ok] canon_obj_iff [OF g(3,4)] get_without_stamp [OF g(1)] get_without_stamp [OF g(2)]
    by (simp add: says_stamped)
qed

section \<open>Examples\<close>

definition sample_value :: "(string, json) gomap" where
  "sample_value = [(''name'', JStr ''tyk''), (''annotations'', JObj [(''owner'', JStr ''sre''), (RebuildTriggerAnnotation, JNum 7)])]"

lemma sample_value_ok: "json_ok (JObj sample_value)" "sample_value \<noteq> []"
  by code_simp+


theorem stamp_is_no_difference_witness:
  "EqualCustomizations [Inr (JObj sample_value)] [Inr (JObj (stamped (JStr ''id7'') (JStr ''run'') sample_value))] = Inr True"
  by (rule stamp_is_no_difference [OF sample_value_ok(1) _ _ sample_value_ok(2)]) simp_all

end
