(* ===== verification/Confgen.thy ===== *)
theory Confgen
  imports GoStrings
begin

text \<open>
  \<open>confgen/templates.go\<close>: the configuration tree of an environment, made once from embedded templates.  The
  embedded file system is a tree of entries with the outcome of reading each; the template engine and the
  outcome of creating a file are arguments.
\<close>

section \<open>Trees\<close>

datatype entry = File string "string + string" | Dir string folder
  and folder = Unreadable string | Folder "entry list"

record tree_state =
  ts_files :: "(string, string) gomap"
  ts_dirs :: "string list"

text \<open>
  Parsing a template of a name, executing it for an environment (the text written and the error), making a
  directory, creating a file, and whether looking at a path fails other than by its absence.
\<close>

record 't conf_env =
  cf_parse :: "string \<Rightarrow> string \<Rightarrow> 't option"
  cf_execute :: "'t \<Rightarrow> string \<Rightarrow> string \<times> string option"
  cf_mkdir :: "string \<Rightarrow> bool"
  cf_create :: "string \<Rightarrow> string option"
  cf_denied :: "string \<Rightarrow> bool"

definition mkdir :: "'t conf_env \<Rightarrow> string \<Rightarrow> tree_state \<Rightarrow> tree_state" where
  "mkdir e dest s = (if cf_mkdir e dest then s\<lparr>ts_dirs := dest # ts_dirs s\<rparr> else s)"

definition put_file :: "string \<Rightarrow> string \<Rightarrow> tree_state \<Rightarrow> tree_state" where
  "put_file path text s = s\<lparr>ts_files := gm_put path text (ts_files s)\<rparr>"

text \<open>The branch of the loop for a file: the error, if any, that ends the loop.\<close>

definition copy_file ::
  "'t conf_env \<Rightarrow> string \<Rightarrow> string \<Rightarrow> string \<Rightarrow> string + string \<Rightarrow> tree_state \<Rightarrow> (string option \<times> tree_state) go" where
  "copy_file e envName name destPath content s =
     (case content of
        Inl err \<Rightarrow> Done (Some err, s)
      | Inr tempStr \<Rightarrow>
          (case cf_parse e name tempStr of
             None \<Rightarrow> Panic ''template''
           | Some t \<Rightarrow>
               (case cf_create e destPath of
                  Some err \<Rightarrow> Done (Some err, s)
                | None \<Rightarrow> (let (out, err) = cf_execute e t envName in Done (err, put_file destPath out s)))))"

text \<open>
  \<open>func makeConfigTree(fs, src, dest, tVars) error\<close> and its loop over the entries of a directory.
\<close>

fun makeConfigTree ::
    "'t conf_env \<Rightarrow> string \<Rightarrow> folder \<Rightarrow> string \<Rightarrow> tree_state \<Rightarrow> (string option \<times> tree_state) go"
  and copy_entries ::
    "'t conf_env \<Rightarrow> string \<Rightarrow> entry list \<Rightarrow> string \<Rightarrow> tree_state \<Rightarrow> (string option \<times> tree_state) go" where
  "makeConfigTree e envName (Unreadable err) dest s = Done (Some err, s)"
| "makeConfigTree e envName (Folder entries) dest s = copy_entries e envName entries dest (mkdir e dest s)"
| "copy_entries e envName [] dest s = Done (None, s)"
| "copy_entries e envName (Dir name sub # es) dest s =
     go_bind (makeConfigTree e envName sub (filepath_join [dest, name]) s) (\<lambda>(_, s).
       copy_entries e envName es dest s)"
| "copy_entries e envName (File name content # es) dest s =
     go_bind (copy_file e envName name (filepath_join [dest, name]) content s) (\<lambda>(err, s).
       case err of Some _ \<Rightarrow> Done (err, s) | None \<Rightarrow> copy_entries e envName es dest s)"

definition absent :: "'t conf_env \<Rightarrow> tree_state \<Rightarrow> string \<Rightarrow> bool" where
  "absent e s p \<longleftrightarrow> \<not> cf_denied e p \<and> p \<notin> set (ts_dirs s) \<and> gm_get (ts_files s) p = None"

text \<open>\<open>func Must(confPath string, envName string) error\<close>\<close>

definition Must :: "'t conf_env \<Rightarrow> folder \<Rightarrow> string \<Rightarrow> string \<Rightarrow> tree_state \<Rightarrow> (string option \<times> tree_state) go" where
  "Must e templates confPath envName s =
     (let confDir = filepath_join [confPath, envName]
      in if absent e s confDir then makeConfigTree e envName templates confDir s else Done (None, s))"

section \<open>What is written\<close>

text \<open>
  The outcome of one file, seen from outside: the text that reaches it, if it was created, and whether
  the loop goes on.
\<close>

definition file_result :: "'t conf_env \<Rightarrow> string \<Rightarrow> string \<Rightarrow> string \<Rightarrow> string + string \<Rightarrow> string option \<times> bool" where
  "file_result e envName path name content =
     (case content of Inl _ \<Rightarrow> (None, False) | Inr text \<Rightarrow>
        (case cf_parse e name text of None \<Rightarrow> (None, False) | Some t \<Rightarrow>
          if cf_create e path \<noteq> None then (None, False)
          else (Some (fst (cf_execute e t envName)), snd (cf_execute e t envName) = None)))"

definition below :: "string \<Rightarrow> string list \<Rightarrow> string" where
  "below base cs = filepath_join [base, join_with ''/'' cs]"

text \<open>The files written below a directory, by the components of their paths.\<close>

fun folder_out :: "'t conf_env \<Rightarrow> string \<Rightarrow> string \<Rightarrow> string list \<Rightarrow> folder \<Rightarrow> (string list \<times> string) list"
  and entries_out :: "'t conf_env \<Rightarrow> string \<Rightarrow> string \<Rightarrow> string list \<Rightarrow> entry list \<Rightarrow> (string list \<times> string) list" where
  "folder_out e v base cs (Unreadable err) = []"
| "folder_out e v base cs (Folder es) = entries_out e v base cs es"
| "entries_out e v base cs [] = []"
| "entries_out e v base cs (Dir n sub # es) = folder_out e v base (cs @ [n]) sub @ entries_out e v base cs es"
| "entries_out e v base cs (File n c # es) =
     (case file_result e v (below base (cs @ [n])) n c of
        (w, ok) \<Rightarrow> (case w of None \<Rightarrow> [] | Some out \<Rightarrow> [(cs @ [n], out)]) @ (if ok then entries_out e v base cs es else []))"

fun plain_folder :: "folder \<Rightarrow> bool" and plain_entry :: "entry \<Rightarrow> bool" where
  "plain_folder (Unreadable err) \<longleftrightarrow> True"
| "plain_folder (Folder es) \<longleftrightarrow> list_all plain_entry es"
| "plain_entry (Dir n sub) \<longleftrightarrow> plain_comp n \<and> plain_folder sub"
| "plain_entry (File n c) \<longleftrightarrow> plain_comp n"

text \<open>The files directly in a directory are copied without an error.\<close>

definition entry_ok :: "'t conf_env \<Rightarrow> string \<Rightarrow> string \<Rightarrow> entry \<Rightarrow> bool" where
  "entry_ok e v dest en =
     (case en of Dir _ _ \<Rightarrow> True | File n c \<Rightarrow> snd (file_result e v (filepath_join [dest, n]) n c))"

definition root_ok :: "'t conf_env \<Rightarrow> string \<Rightarrow> string \<Rightarrow> folder \<Rightarrow> bool" where
  "root_ok e v dest src = (case src of Unreadable _ \<Rightarrow> False | Folder es \<Rightarrow> list_all (entry_ok e v dest) es)"

definition put_files :: "(string \<times> string) list \<Rightarrow> (string, string) gomap \<Rightarrow> (string, string) gomap" where
  "put_files = fold (\<lambda>(p, t). gm_put p t)"

abbreviation paths :: "string \<Rightarrow> (string list \<times> string) list \<Rightarrow> (string \<times> string) list" where
  "paths base \<equiv> List.map (\<lambda>(cs, t). (below base cs, t))"

definition dir_at :: "string \<Rightarrow> string list \<Rightarrow> string" where
  "dir_at base cs = (if cs = [] then base else below base cs)"

lemma dir_at_join:
  assumes "list_all plain_comp cs" "plain_comp n"
  shows "filepath_join [dir_at base cs, n] = below base (cs @ [n])"
  using filepath_join_nests [OF _ assms, of base] by (simp add: dir_at_def below_def)

lemma put_files_append: "put_files (xs @ ys) m = put_files ys (put_files xs m)"
  by (simp add: put_files_def)

lemma copy_file_result:
  assumes "copy_file e v n path c s = Done (err, s')"
  shows "file_result e v path n c = ((case file_result e v path n c of (w, _) \<Rightarrow> w), err = None)
    \<and> ts_files s' = put_files (case file_result e v path n c of (None, _) \<Rightarrow> [] | (Some out, _) \<Rightarrow> [(path, out)]) (ts_files s)
    \<and> ts_dirs s' = ts_dirs s"
  using assms
  by (auto simp: copy_file_def file_result_def put_files_def put_file_def split: sum.splits option.splits prod.splits)

text \<open>What a run of the code has written and returned, in terms of the specification.\<close>

lemma tree_files:
  "makeConfigTree e v src dest s = Done (err, s') \<Longrightarrow> dest = dir_at base cs \<Longrightarrow> plain_folder src \<Longrightarrow> list_all plain_comp cs \<Longrightarrow>
    ts_files s' = put_files (paths base (folder_out e v base cs src)) (ts_files s) \<and> (err = None \<longleftrightarrow> root_ok e v dest src)"
  "copy_entries e v es dest s = Done (err, s') \<Longrightarrow> dest = dir_at base cs \<Longrightarrow> list_all plain_entry es \<Longrightarrow> list_all plain_comp cs \<Longrightarrow>
    ts_files s' = put_files (paths base (entries_out e v base cs es)) (ts_files s) \<and> (err = None \<longleftrightarrow> list_all (entry_ok e v dest) es)"
proof (induction e v src dest s and e v es dest s arbitrary: err s' cs and err s' cs
    rule: makeConfigTree_copy_entries.induct)
  case (1 e v x dest s)
  then show ?case by (auto simp: put_files_def root_ok_def)
next
  case (2 e v entries dest s)
  then show ?case by (auto simp: mkdir_def root_ok_def)
next
  case (3 e v dest s)
  then show ?case by (simp add: put_files_def)
next
  case (4 e v name sub es dest s)
  from 4(3) obtain err1 s1 where d: "makeConfigTree e v sub (filepath_join [dest, name]) s = Done (err1, s1)"
    and r: "copy_entries e v es dest s1 = Done (err, s')"
    by (auto simp: go_bind_Done_iff)
  have n: "plain_comp name" "plain_folder sub" "list_all plain_entry es" using 4(5) by simp_all
  have dest: "filepath_join [dest, name] = dir_at base (cs @ [name])"
    using dir_at_join [OF 4(6) n(1), of base] 4(4) by (simp add: dir_at_def)
  have cs: "list_all plain_comp (cs @ [name])" using 4(6) n(1) by simp
  show ?case
    using 4(1) [OF d dest n(2) cs] 4(2) [OF r 4(4) n(3) 4(6)]
    by (simp add: put_files_append entry_ok_def)
next
  case (5 e v name content es dest s)
  from 5(2) obtain err1 s1 where f: "copy_file e v name (filepath_join [dest, name]) content s = Done (err1, s1)"
    and r: "(case err1 of Some x \<Rightarrow> Done (err1, s1) | None \<Rightarrow> copy_entries e v es dest s1) = Done (err, s')"
    by (auto simp: go_bind_Done_iff)
  have n: "plain_comp name" "list_all plain_entry es" using 5(4) by simp_all
  have path: "filepath_join [dest, name] = below base (cs @ [name])"
    using dir_at_join [OF 5(5) n(1), of base] 5(3) by simp
  obtain w ok where w: "file_result e v (below base (cs @ [name])) name content = (w, ok)" by fastforce
  have one: "ok \<longleftrightarrow> err1 = None"
    "ts_files s1 = put_files (case w of None \<Rightarrow> [] | Some out \<Rightarrow> [(below base (cs @ [name]), out)]) (ts_files s)"
    using copy_file_result [OF f] w by (auto simp: path split: option.splits)
  show ?case
  proof (cases err1)
    case None
    with r have "copy_entries e v es dest s1 = Done (err, s')" by simp
    from 5(1) [OF None this 5(3) n(2) 5(5)] show ?thesis
      using one w None by (auto simp: put_files_append entry_ok_def path split: option.splits)
  next
    case (Some x)
    then show ?thesis using r one w by (auto simp: entry_ok_def path split: option.splits)
  qed
qed

text \<open>Directories are never taken away, and the destination is there afterwards if it could be made.\<close>

lemma copy_file_dirs: "copy_file e v n path c s = Done (err, s') \<Longrightarrow> ts_dirs s' = ts_dirs s"
  using copy_file_result by blast

lemma tree_dirs:
  "makeConfigTree e v src dest s = Done (err, s') \<Longrightarrow> set (ts_dirs s) \<subseteq> set (ts_dirs s')"
  "copy_entries e v es dest s = Done (err, s') \<Longrightarrow> set (ts_dirs s) \<subseteq> set (ts_dirs s')"
proof (induction e v src dest s and e v es dest s arbitrary: err s' and err s' rule: makeConfigTree_copy_entries.induct)
  case (2 e v entries dest s)
  then show ?case by (auto simp: mkdir_def split: if_splits)
next
  case (4 e v name sub es dest s)
  from 4(3) obtain err1 s1 where "makeConfigTree e v sub (filepath_join [dest, name]) s = Done (err1, s1)"
    "copy_entries e v es dest s1 = Done (err, s')"
    by (auto simp: go_bind_Done_iff)
  with 4(1,2) show ?case by blast
next
  case (5 e v name content es dest s)
  from 5(2) obtain err1 s1 where f: "copy_file e v name (filepath_join [dest, name]) content s = Done (err1, s1)"
    and r: "(case err1 of Some x \<Rightarrow> Done (err1, s1) | None \<Rightarrow> copy_entries e v es dest s1) = Done (err, s')"
    by (auto simp: go_bind_Done_iff)
  have "ts_dirs s1 = ts_dirs s" using f by (rule copy_file_dirs)
  moreover have "set (ts_dirs s1) \<subseteq> set (ts_dirs s')"
  proof (cases err1)
    case None
    with r have "copy_entries e v es dest s1 = Done (err, s')" by simp
    from 5(1) [OF None this] show ?thesis .
  qed (use r in simp)
  ultimately show ?case by simp
qed simp_all

section \<open>Properties\<close>


definition wit_conf_env :: "string conf_env" where
  "wit_conf_env = \<lparr>cf_parse = (\<lambda>_ text. Some text), cf_execute = (\<lambda>t v. (t @ v, None)), cf_mkdir = (\<lambda>_. True),
     cf_create = (\<lambda>_. None), cf_denied = (\<lambda>_. False)\<rparr>"

definition wit_tree :: folder where
  "wit_tree = Folder [Dir ''tyk'' (Folder [File ''a'' (Inl ''EIO''), File ''b'' (Inr ''x='')]), File ''c'' (Inr ''y='')]"

definition no_files :: tree_state where "no_files = \<lparr>ts_files = [], ts_dirs = []\<rparr>"

text \<open>A file that cannot be read, one level down: no error, its sibling is missing, and a second run leaves it so.\<close>

lemma wit_must_run:
  "Must wit_conf_env wit_tree ''conf'' ''dev'' no_files
    = Done (None, \<lparr>ts_files = [(''conf/dev/c'', ''y=dev'')], ts_dirs = [''conf/dev/tyk'', ''conf/dev'']\<rparr>)"
  by code_simp


end
