(* ===== verification/Statsd.thy ===== *)
theory Statsd
  imports GoStrings "HOL-Library.Multiset" "HOL-Library.Sublist"
begin

text \<open>
  \<open>util/statsd.go\<close>: metrics are formatted and put on a channel of capacity 100, from which one goroutine takes
  them and sends each over UDP.  The callers, the channel and the sender are a step relation.
\<close>

section \<open>Messages\<close>

text \<open>\<open>int64(d) / 1e6\<close>, which rounds towards zero.\<close>

definition milliseconds :: "int \<Rightarrow> int" where
  "milliseconds ns = (if ns < 0 then - (- ns div 10 ^ 6) else ns div 10 ^ 6)"

definition StatCount :: "(string \<Rightarrow> string) \<Rightarrow> string \<Rightarrow> int \<Rightarrow> string" where
  "StatCount getenv metric val = getenv ''STATS_API_KEY'' @ ''.'' @ metric @ '':'' @ show_int val @ ''|c''"

definition StatTime :: "(string \<Rightarrow> string) \<Rightarrow> string \<Rightarrow> int \<Rightarrow> string" where
  "StatTime getenv metric took = getenv ''STATS_API_KEY'' @ ''.'' @ metric @ '':'' @ show_int (milliseconds took) @ ''|ms''"

definition StatGauge :: "(string \<Rightarrow> string) \<Rightarrow> string \<Rightarrow> int \<Rightarrow> string" where
  "StatGauge getenv metric val = getenv ''STATS_API_KEY'' @ ''.'' @ metric @ '':'' @ show_int val @ ''|g''"

section \<open>The queue\<close>

definition queue_cap :: nat where "queue_cap = 100"

text \<open>
  The callers blocked on the channel, each with its message; the channel; the message the sender holds; the
  messages sent.  The last three fields are history: the messages of all callers, those that
  entered the channel, and those the sender is done with, each with whether the dial succeeded.
\<close>

record stats =
  st_waiting :: "string list"
  st_queue :: "string list"
  st_busy :: "string option"
  st_wire :: "string list"
  st_called :: "string list"
  st_entered :: "string list"
  st_handled :: "(string \<times> bool) list"

definition no_stats :: stats where
  "no_stats = \<lparr>st_waiting = [], st_queue = [], st_busy = None, st_wire = [], st_called = [], st_entered = [], st_handled = []\<rparr>"

inductive call :: "stats \<Rightarrow> stats \<Rightarrow> bool" where
  call: "call s (s\<lparr>st_waiting := st_waiting s @ [m], st_called := st_called s @ [m]\<rparr>)"

text \<open>
  The steps of \<open>queue <- m\<close> and of \<open>statsdSender\<close>: a message enters the channel when there is room, is taken from
  it, and is written to a new connection or, when the dial fails, dropped.
\<close>

inductive send_step :: "stats \<Rightarrow> stats \<Rightarrow> bool" where
  enter: "i < length (st_waiting s) \<Longrightarrow> length (st_queue s) < queue_cap \<Longrightarrow>
    send_step s (s\<lparr>st_waiting := take i (st_waiting s) @ drop (Suc i) (st_waiting s),
      st_queue := st_queue s @ [st_waiting s ! i], st_entered := st_entered s @ [st_waiting s ! i]\<rparr>)"
| take_next: "st_busy s = None \<Longrightarrow> st_queue s = m # ms \<Longrightarrow> send_step s (s\<lparr>st_queue := ms, st_busy := Some m\<rparr>)"
| written: "st_busy s = Some m \<Longrightarrow>
    send_step s (s\<lparr>st_busy := None, st_wire := st_wire s @ [m], st_handled := st_handled s @ [(m, True)]\<rparr>)"
| no_connection: "st_busy s = Some m \<Longrightarrow> send_step s (s\<lparr>st_busy := None, st_handled := st_handled s @ [(m, False)]\<rparr>)"

inductive stats_reach :: "stats \<Rightarrow> bool" where
  start: "stats_reach no_stats"
| called: "stats_reach s \<Longrightarrow> call s t \<Longrightarrow> stats_reach t"
| sent: "stats_reach s \<Longrightarrow> send_step s t \<Longrightarrow> stats_reach t"

section \<open>The invariant\<close>

definition busy_list :: "string option \<Rightarrow> string list" where
  "busy_list b = (case b of None \<Rightarrow> [] | Some m \<Rightarrow> [m])"

lemma busy_list_simps [simp]: "busy_list None = []" "busy_list (Some m) = [m]"
  by (simp_all add: busy_list_def)

definition stats_inv :: "stats \<Rightarrow> bool" where
  "stats_inv s \<longleftrightarrow> length (st_queue s) \<le> queue_cap \<and>
     st_entered s = List.map fst (st_handled s) @ busy_list (st_busy s) @ st_queue s \<and>
     st_wire s = List.map fst (List.filter snd (st_handled s)) \<and>
     mset (st_called s) = mset (st_entered s) + mset (st_waiting s)"

lemma mset_without: "i < length xs \<Longrightarrow> mset xs = add_mset (xs ! i) (mset (take i xs @ drop (Suc i) xs))"
  by (metis append_take_drop_id Cons_nth_drop_Suc mset.simps(2) mset_append union_mset_add_mset_right)

lemma call_inv: "call s t \<Longrightarrow> stats_inv s \<Longrightarrow> stats_inv t"
  by (auto simp: stats_inv_def elim!: call.cases)

lemma send_inv:
  assumes "send_step s t" "stats_inv s"
  shows "stats_inv t"
  using assms(1)
proof cases
  case (enter i)
  then show ?thesis using assms(2) mset_without [OF enter(2)] by (simp add: stats_inv_def)
qed (use assms(2) in \<open>auto simp: stats_inv_def\<close>)

text \<open>The work left for the sender; every one of its steps, and every entry into the channel, reduces it.\<close>

definition stats_left :: "stats \<Rightarrow> nat" where
  "stats_left s = 3 * length (st_waiting s) + 2 * length (st_queue s) + length (busy_list (st_busy s))"

lemma send_left: "send_step s t \<Longrightarrow> stats_left t < stats_left s"
  by (auto simp: stats_left_def elim!: send_step.cases)

lemma sender_can_step:
  assumes "st_waiting s \<noteq> [] \<or> st_queue s \<noteq> [] \<or> st_busy s \<noteq> None"
  shows "\<exists>t. send_step s t"
proof (cases "st_busy s")
  case None
  show ?thesis
  proof (cases "st_queue s")
    case Nil
    then have "0 < length (st_waiting s)" "length (st_queue s) < queue_cap"
      using assms None by (auto simp: queue_cap_def)
    then show ?thesis using send_step.enter by blast
  qed (use None send_step.take_next in blast)
qed (use send_step.written in blast)

text \<open>The sender's side drains the component; a call is the only other step.\<close>

interpretation sending: draining no_stats "\<lambda>s t. call s t \<or> send_step s t" stats_reach send_step stats_left
    "\<lambda>s. st_waiting s = [] \<and> st_queue s = [] \<and> st_busy s = None"
proof
  show "I s" if "stats_reach s" "I no_stats" "\<And>x y. I x \<Longrightarrow> call x y \<or> send_step x y \<Longrightarrow> I y" for I s
    using that(1) by induction (use that(2,3) in blast)+
qed (auto intro: stats_reach.intros send_left simp: sender_can_step)

lemma stats_reach_inv: "stats_reach s \<Longrightarrow> stats_inv s"
  by (erule sending.invariant) (simp add: stats_inv_def no_stats_def, blast intro: call_inv send_inv)

section \<open>Properties\<close>


definition wit_stats :: stats where
  "wit_stats = no_stats\<lparr>st_waiting := [''k.up:1|c''], st_called := [''k.up:1|c'']\<rparr>"


end
