(* ===== verification/Support.thy ===== *)
theory Support
  imports GpgAgent PolicyConfig
begin

text \<open>
  What all commands start from (\<open>config/config.go\<close>, \<open>cmd/root.go\<close>) and the small helpers: secrets, digests, content
  lengths, TLS clients, versions, password hashes.  Viper, zerolog, AWS, HTTP, the digests and the certificate
  parser are arguments.
\<close>

section \<open>Configuration\<close>

text \<open>What \<open>LoadConfig\<close> tells viper about the environment: the prefix and the replaced characters.\<close>

record viper_settings =
  vs_prefix :: string
  vs_replace :: "char \<times> char"

text \<open>Reading the file that was named, reading the embedded configuration, and the lookup of a key.\<close>

record 'c viper =
  vi_file :: "string \<Rightarrow> 'c option"
  vi_embedded :: "'c option"
  vi_get :: "viper_settings \<Rightarrow> 'c \<Rightarrow> string \<Rightarrow> string"
  vi_bool :: "viper_settings \<Rightarrow> 'c \<Rightarrow> string \<Rightarrow> bool"

text \<open>zerolog's levels are small integers, and messages below the global level are dropped.\<close>

datatype level = Level (level_no: int)

instantiation level :: linorder
begin

definition less_eq_level :: "level \<Rightarrow> level \<Rightarrow> bool" where "l \<le> m \<longleftrightarrow> level_no l \<le> level_no m"
definition less_level :: "level \<Rightarrow> level \<Rightarrow> bool" where "l < m \<longleftrightarrow> level_no l < level_no m"

instance
  by standard (auto simp: less_eq_level_def less_level_def intro: level.expand)

end

definition DebugLevel :: level where "DebugLevel = Level 0"
definition InfoLevel :: level where "InfoLevel = Level 1"

record globals =
  gb_Repos :: "string list"
  gb_RegistryID :: string
  gb_TableName :: string
  gb_ZoneID :: string
  gb_Domain :: string
  gb_level :: level
  gb_text :: bool

definition settings :: viper_settings where
  "settings = \<lparr>vs_prefix = to_upper ''gromit'', vs_replace = (CHR ''.'', CHR ''_'')\<rparr>"

text \<open>A level by name; a name that does not parse means debug.\<close>

definition set_level :: "(string \<Rightarrow> level option) \<Rightarrow> string \<Rightarrow> globals \<Rightarrow> globals" where
  "set_level parse_level name g = g\<lparr>gb_level := (case parse_level name of None \<Rightarrow> DebugLevel | Some l \<Rightarrow> l)\<rparr>"

text \<open>\<open>func LoadConfig(cfgFile string)\<close>: the configuration it keeps in viper and the global variables.\<close>

definition LoadConfig :: "'c viper \<Rightarrow> (string \<Rightarrow> level option) \<Rightarrow> string \<Rightarrow> globals \<Rightarrow> ('c \<times> globals) go" where
  "LoadConfig vi parse_level cfgFile g =
     (case (case vi_file vi cfgFile of Some c \<Rightarrow> Some c | None \<Rightarrow> vi_embedded vi) of
        None \<Rightarrow> Fatal ''could not read embedded config''
      | Some c \<Rightarrow>
          let get = vi_get vi settings c;
              g = g\<lparr>gb_Repos := split_on (CHR '','') (get ''repos''), gb_RegistryID := get ''registryid'',
                gb_TableName := get ''tablename''\<rparr>;
              g = (if get ''loglevel'' \<noteq> [] then set_level parse_level (get ''loglevel'') g else g);
              g = (if vi_bool vi settings c ''textlogs'' then g\<lparr>gb_text := True\<rparr> else g)
          in Done (c, g))"

definition LoadClusterConfig :: "'c viper \<Rightarrow> 'c \<Rightarrow> globals \<Rightarrow> globals" where
  "LoadClusterConfig vi c g = g\<lparr>gb_ZoneID := vi_get vi settings c ''cluster.zoneid'', gb_Domain := vi_get vi settings c ''cluster.domain''\<rparr>"

text \<open>\<open>initConfig\<close>: the flags first, then the configuration.\<close>

definition initConfig ::
  "'c viper \<Rightarrow> (string \<Rightarrow> level option) \<Rightarrow> string \<Rightarrow> bool \<Rightarrow> string \<Rightarrow> globals \<Rightarrow> ('c \<times> globals) go" where
  "initConfig vi parse_level logLevel textLogs cfgFile g =
     (let g = set_level parse_level logLevel g;
          g = (if textLogs then g\<lparr>gb_text := True\<rparr> else g)
      in LoadConfig vi parse_level cfgFile g)"

text \<open>\<open>func LoadRepoPolicies(policies *Policies) error\<close>\<close>

definition LoadRepoPolicies :: "(string \<Rightarrow> string + Policies) \<Rightarrow> string + Policies" where
  "LoadRepoPolicies unmarshal_key = unmarshal_key ''policy''"

text \<open>\<open>Execute\<close>: the exit code.\<close>

definition Execute :: "string option \<Rightarrow> int" where
  "Execute err = (if err \<noteq> None then 1 else 0)"

section \<open>Secrets\<close>

datatype aws_error = ResourceNotFound string | InternalServiceError string | AwsError string

text \<open>Loading the AWS configuration, and the two requests; each may change the store.\<close>

record 's secrets =
  sm_config :: "string option"
  sm_create :: "string \<Rightarrow> string \<Rightarrow> 's \<Rightarrow> aws_error option \<times> 's"
  sm_update :: "string \<Rightarrow> string \<Rightarrow> 's \<Rightarrow> aws_error option \<times> 's"

definition CreateSecret :: "'s secrets \<Rightarrow> string \<Rightarrow> string \<Rightarrow> 's \<Rightarrow> (aws_error option \<times> 's) go" where
  "CreateSecret sm sid plaintext st =
     (case sm_config sm of Some _ \<Rightarrow> Fatal ''could not load AWS config'' | None \<Rightarrow> Done (sm_create sm sid plaintext st))"

definition UpdateSecret :: "'s secrets \<Rightarrow> string \<Rightarrow> string \<Rightarrow> 's \<Rightarrow> (aws_error option \<times> 's) go" where
  "UpdateSecret sm sid plaintext st =
     (case sm_config sm of
        Some _ \<Rightarrow> Fatal ''could not load AWS config''
      | None \<Rightarrow>
          (case sm_update sm sid plaintext st of
             (Some (ResourceNotFound _), st) \<Rightarrow> CreateSecret sm sid plaintext st
           | r \<Rightarrow> Done r))"

text \<open>
  A store that behaves as documented: an update of a secret that is not there fails and changes nothing,
  other updates and creations set it or fail and change nothing.
\<close>

definition ref_secrets :: "string option \<Rightarrow> (string, string) gomap secrets" where
  "ref_secrets down = \<lparr>sm_config = None,
     sm_create = (\<lambda>sid t m. if gm_get m sid \<noteq> None then (Some (AwsError ''exists''), m)
       else case down of Some e \<Rightarrow> (Some (InternalServiceError e), m) | None \<Rightarrow> (None, gm_put sid t m)),
     sm_update = (\<lambda>sid t m. if gm_get m sid = None then (Some (ResourceNotFound sid), m)
       else case down of Some e \<Rightarrow> (Some (InternalServiceError e), m) | None \<Rightarrow> (None, gm_put sid t m))\<rparr>"

lemma update_secret_sets:
  "UpdateSecret (ref_secrets down) sid t m
    = Done (map_option InternalServiceError down, if down = None then gm_put sid t m else m)"
  by (cases down; cases "gm_get m sid") (simp_all add: UpdateSecret_def CreateSecret_def ref_secrets_def)

section \<open>Digests, sizes and passwords\<close>

text \<open>\<open>Md5Sum\<close> and \<open>Sha256Sum\<close> of a file that reads as an error or as bytes, for the digest given.\<close>

definition Md5Sum :: "(string \<Rightarrow> string) \<Rightarrow> string + string \<Rightarrow> string" where
  "Md5Sum md5 f = (case f of Inl _ \<Rightarrow> [] | Inr bytes \<Rightarrow> hex_encode (md5 bytes))"

definition Sha256Sum :: "(string \<Rightarrow> string) \<Rightarrow> string + string \<Rightarrow> string" where
  "Sha256Sum sha256 f = (case f of Inl _ \<Rightarrow> [] | Inr bytes \<Rightarrow> hex_encode (sha256 bytes))"

lemma hex_encode_length: "length (hex_encode s) = 2 * length s"
  by (induction s) (simp_all add: hex_encode_def)

lemma hex_encode_inj: "hex_encode s = hex_encode t \<longleftrightarrow> s = t"
  by (metis hex_decode_encode option.inject)

text \<open>Files that read have the same sum exactly when the digests agree, and never that of a file that does not.\<close>

lemma sha256_distinguishes:
  assumes "\<And>b. length (sha256 b) = 32"
  shows "Sha256Sum sha256 (Inr a) = Sha256Sum sha256 f \<longleftrightarrow> (\<exists>b. f = Inr b \<and> sha256 a = sha256 b)"
  using assms hex_encode_length [of "sha256 a"] by (cases f) (auto simp: Sha256Sum_def hex_encode_inj)

text \<open>A HEAD request fails, or is answered with a status, its text and a content length, negative if there is none.\<close>

definition GetContentLength :: "string + (nat \<times> string \<times> int) \<Rightarrow> string + int" where
  "GetContentLength reply =
     (case reply of
        Inl e \<Rightarrow> Inl (''failed to send HEAD request: '' @ e)
      | Inr (code, status, len) \<Rightarrow>
          if code \<noteq> 200 then Inl (''bad status for HEAD: '' @ status)
          else if len < 0 then Inl ''content length not found'' else Inr len)"

lemma content_length_ok: "GetContentLength r = Inr n \<longleftrightarrow> (\<exists>status. r = Inr (200, status, n)) \<and> 0 \<le> n"
  by (auto simp: GetContentLength_def split: sum.splits)

text \<open>\<open>gromit passwd\<close>: what it prints, or the exit code; the command does not ask for an argument.\<close>

definition passwd_cmd :: "(string \<Rightarrow> string + string) \<Rightarrow> string list \<Rightarrow> (int + string) go" where
  "passwd_cmd bcrypt args =
     (case args of
        [] \<Rightarrow> Panic ''index out of range''
      | a # _ \<Rightarrow> (case bcrypt a of Inl _ \<Rightarrow> Done (Inl 1) | Inr h \<Rightarrow> Done (Inr h)))"

section \<open>Versions and shells\<close>

record build_info =
  bi_version :: string
  bi_commit :: string
  bi_buildDate :: string

definition Version :: "build_info \<Rightarrow> string" where "Version b = bi_version b"
definition Commit_build :: "build_info \<Rightarrow> string" where "Commit_build b = bi_commit b @ '' built on '' @ bi_buildDate b"

definition version_cmd :: "build_info \<Rightarrow> bool \<Rightarrow> string list" where
  "version_cmd b full = Version b # (if full then [Commit_build b] else [])"

section \<open>TLS clients\<close>

record TLSAuthClient =
  ta_CA :: string
  ta_Cert :: string
  ta_Key :: string

record tls_config =
  tc_RootCAs :: "string list"
  tc_Certificates :: "string list"
  tc_NextProtos :: "string list"

record http_client =
  hc_TLS :: tls_config
  hc_Timeout :: int

text \<open>The certificates in a PEM text, none if it is malformed; and the key pair of a certificate and its key.\<close>

record certs =
  ct_pem :: "string \<Rightarrow> string list"
  ct_pair :: "string \<Rightarrow> string \<Rightarrow> string + string"

definition TLS_String :: "TLSAuthClient \<Rightarrow> string" where
  "TLS_String a = ''(cert: [ '' @ ta_Cert a @ '' ], key: [ '' @ ta_Key a @ '' ], ca: [ '' @ ta_CA a @ '' ])''"

definition pair_error :: "TLSAuthClient \<Rightarrow> string \<Rightarrow> string" where
  "pair_error a e = ''(cert: [ '' @ ta_Cert a @ '' ], key: [ '' @ ta_Key a @ '' ]): '' @ e"

definition GetTLSConfig :: "certs \<Rightarrow> TLSAuthClient \<Rightarrow> string + tls_config" where
  "GetTLSConfig ct a =
     (case ct_pair ct (ta_Cert a) (ta_Key a) of
        Inl e \<Rightarrow> Inl (pair_error a e)
      | Inr cert \<Rightarrow> Inr \<lparr>tc_RootCAs = ct_pem ct (ta_CA a), tc_Certificates = [cert], tc_NextProtos = [''http/1.1'']\<rparr>)"

definition GetHTTPSClient :: "certs \<Rightarrow> TLSAuthClient \<Rightarrow> string + http_client" where
  "GetHTTPSClient ct a =
     (case ct_pair ct (ta_Cert a) (ta_Key a) of
        Inl e \<Rightarrow> Inl (pair_error a e)
      | Inr cert \<Rightarrow> Inr \<lparr>hc_TLS = \<lparr>tc_RootCAs = ct_pem ct (ta_CA a), tc_Certificates = [cert], tc_NextProtos = [''http/1.1'']\<rparr>,
          hc_Timeout = 10 * 10 ^ 9\<rparr>)"

text \<open>Both go through the same configuration, and an error of either shows the private key.\<close>

lemma https_client_config:
  "GetHTTPSClient ct a = (case GetTLSConfig ct a of Inl e \<Rightarrow> Inl e | Inr c \<Rightarrow> Inr \<lparr>hc_TLS = c, hc_Timeout = 10 ^ 10\<rparr>)"
  by (simp add: GetHTTPSClient_def GetTLSConfig_def split: sum.splits)

lemma tls_error_shows_key: "GetTLSConfig ct a = Inl e \<Longrightarrow> sublist (ta_Key a) e"
proof -
  have "pair_error a x = (''(cert: [ '' @ ta_Cert a @ '' ], key: [ '') @ ta_Key a @ ('' ]): '' @ x)" for x
    unfolding pair_error_def by (simp only: append_assoc)
  then have "sublist (ta_Key a) (pair_error a x)" for x unfolding sublist_def by blast
  then show "GetTLSConfig ct a = Inl e \<Longrightarrow> sublist (ta_Key a) e"
    by (auto simp: GetTLSConfig_def split: sum.splits)
qed

section \<open>Properties\<close>

definition the_done :: "'a go \<Rightarrow> 'a" where
  "the_done r = (case r of Done a \<Rightarrow> a | _ \<Rightarrow> undefined)"

text \<open>
  The configuration every command starts from: it is the file named, if that can be read, and otherwise the
  embedded one, and only without either does the process end; the level in force is that of the
  configuration if it sets one, else that of the flag, and debug if the name does not parse, so a configured level
  silently overrides the command line; text logs can be switched on but not off.
\<close>

theorem config_in_force:
  "(\<exists>m. initConfig vi parse lvl txt file g = Fatal m) = (vi_file vi file = None \<and> vi_embedded vi = None) \<and>
   (initConfig vi parse lvl txt file g = Done (c, g') \<longrightarrow>
      Some c = (if vi_file vi file = None then vi_embedded vi else vi_file vi file) \<and>
      gb_level g' = (let name = (if vi_get vi settings c ''loglevel'' = [] then lvl else vi_get vi settings c ''loglevel'')
        in case parse name of None \<Rightarrow> DebugLevel | Some l \<Rightarrow> l) \<and>
      gb_text g' = (gb_text g \<or> txt \<or> vi_bool vi settings c ''textlogs'') \<and>
      join_with '','' (gb_Repos g') = vi_get vi settings c ''repos'')"
proof -
  define found where "found = (if vi_file vi file = None then vi_embedded vi else vi_file vi file)"
  have found: "(case vi_file vi file of Some c \<Rightarrow> Some c | None \<Rightarrow> vi_embedded vi) = found"
    by (cases "vi_file vi file") (simp_all add: found_def)
  have fatal: "found = None \<longleftrightarrow> vi_file vi file = None \<and> vi_embedded vi = None" by (auto simp: found_def)
  show ?thesis
  proof (cases found)
    case None
    with fatal show ?thesis by (simp add: initConfig_def LoadConfig_def found)
  next
    case (Some c')
    define ll where "ll = vi_get vi settings c' ''loglevel''"
    define rs where "rs = vi_get vi settings c' ''repos''"
    define tx where "tx = vi_bool vi settings c' ''textlogs''"
    have run: "initConfig vi parse lvl txt file g = Done (c', h)"
      "gb_level h = (case parse (if ll = [] then lvl else ll) of None \<Rightarrow> DebugLevel | Some l \<Rightarrow> l)"
      "gb_text h \<longleftrightarrow> gb_text g \<or> txt \<or> tx" "gb_Repos h = split_on (CHR '','') rs"
      if "h = snd (the_done (initConfig vi parse lvl txt file g))" for h
      using that unfolding initConfig_def LoadConfig_def found Some Let_def option.case
      by (simp_all add: set_level_def ll_def [symmetric] rs_def [symmetric] tx_def [symmetric] the_done_def)
    have "join_with '','' (split_on (CHR '','') rs) = rs" by (rule join_split)
    with run [OF refl] Some fatal show ?thesis by (auto simp: found_def ll_def rs_def tx_def Let_def)
  qed
qed

end
