(* ===== verification/BuildStore.thy ===== *)
theory BuildStore
  imports PolicyConfig
begin

text \<open>
  \<open>mergeBuilds\<close> (\<open>policy/policy.go\<close>) once more, with the backing arrays of its slices.  \<open>cp := *v\<close> copies the struct
  of a build but not its lists, so the builds of all branches of a repository share the arrays of the
  configuration, and what keeps the branches apart is what \<open>append\<close> does.  Structs are values here, as the only
  ones written are the fresh copies; lists are slices of arrays in a store.
\<close>

section \<open>Slices\<close>

text \<open>Arrays by address; a slice is nil, or an address and a length, and its capacity is the array's length.\<close>

type_synonym 'a memory = "'a list list"

type_synonym slice = "(nat \<times> nat) option"

definition read :: "'a memory \<Rightarrow> slice \<Rightarrow> 'a list" where
  "read mem s = (case s of None \<Rightarrow> [] | Some (a, n) \<Rightarrow> take n (mem ! a))"

text \<open>\<open>append(s, xs...)\<close>: in place if the capacity suffices, else into a new array with some spare cells of value \<open>z\<close>.\<close>

definition slice_append :: "(nat \<Rightarrow> nat) \<Rightarrow> 'a \<Rightarrow> 'a list \<Rightarrow> slice \<Rightarrow> 'a memory \<Rightarrow> slice \<times> 'a memory" where
  "slice_append grow z xs s mem =
     (if xs = [] then (s, mem)
      else let n = length (read mem s); m = n + length xs in
        case s of
          Some (a, _) \<Rightarrow>
            if m \<le> length (mem ! a) then (Some (a, m), mem[a := take n (mem ! a) @ xs @ drop m (mem ! a)])
            else (Some (length mem, m), mem @ [read mem s @ xs @ replicate (grow m) z])
        | None \<Rightarrow> (Some (length mem, m), mem @ [xs @ replicate (grow m) z]))"

text \<open>A slice that lies in its array, and one that fills it.\<close>

definition in_memory :: "'a memory \<Rightarrow> slice \<Rightarrow> bool" where
  "in_memory mem s = (case s of None \<Rightarrow> True | Some (a, n) \<Rightarrow> a < length mem \<and> n \<le> length (mem ! a))"

definition filled :: "'a memory \<Rightarrow> slice \<Rightarrow> bool" where
  "filled mem s = (case s of None \<Rightarrow> True | Some (a, n) \<Rightarrow> a < length mem \<and> n = length (mem ! a))"

named_theorems memory_rules "slices in a memory that grows"

lemma filled_in [memory_rules]: "filled mem s \<Longrightarrow> in_memory mem s"
  by (auto simp: filled_def in_memory_def split: option.splits)

lemma read_grown [memory_rules]: "prefix mem mem' \<Longrightarrow> in_memory mem s \<Longrightarrow> read mem' s = read mem s"
  and in_grown [memory_rules]: "prefix mem mem' \<Longrightarrow> in_memory mem s \<Longrightarrow> in_memory mem' s"
  and filled_grown [memory_rules]: "prefix mem mem' \<Longrightarrow> filled mem s \<Longrightarrow> filled mem' s"
  by (auto simp: read_def in_memory_def filled_def prefix_def nth_append split: option.splits)

text \<open>Appending to a slice without spare capacity leaves every array as it is.\<close>

lemma append_filled:
  assumes "filled mem s" "slice_append grow z xs s mem = (s', mem')"
  shows "prefix mem mem'" "in_memory mem' s'" "read mem' s' = read mem s @ xs"
  using assms
  by (auto simp: slice_append_def Let_def filled_def in_memory_def read_def nth_append split: if_splits option.splits)

section \<open>Builds\<close>

text \<open>The lists of \<open>hb_fields\<close> are not used; the three slices stand for them.\<close>

record hbuild =
  hb_fields :: build
  hb_Flags :: slice
  hb_Env :: slice
  hb_Archs :: slice

record store =
  st_strings :: "string memory"
  st_archs :: "arch memory"

type_synonym hbuildMap = "(string, hbuild option) gomap"

definition deref :: "store \<Rightarrow> hbuild \<Rightarrow> build" where
  "deref st h = (hb_fields h)\<lparr>b_Flags := read (st_strings st) (hb_Flags h), b_Env := read (st_strings st) (hb_Env h),
     b_Archs := read (st_archs st) (hb_Archs h)\<rparr>"

definition builds_in :: "store \<Rightarrow> hbuildMap \<Rightarrow> buildMap" where
  "builds_in st m = List.map (\<lambda>(k, h). (k, map_option (deref st) h)) m"

definition grown_store :: "store \<Rightarrow> store \<Rightarrow> bool" where
  "grown_store st st' \<longleftrightarrow> prefix (st_strings st) (st_strings st') \<and> prefix (st_archs st) (st_archs st')"

definition stored :: "store \<Rightarrow> hbuild \<Rightarrow> bool" where
  "stored st h \<longleftrightarrow> in_memory (st_strings st) (hb_Flags h) \<and> in_memory (st_strings st) (hb_Env h) \<and> in_memory (st_archs st) (hb_Archs h)"

definition loaded :: "store \<Rightarrow> hbuild \<Rightarrow> bool" where
  "loaded st h \<longleftrightarrow> filled (st_strings st) (hb_Flags h) \<and> filled (st_strings st) (hb_Env h) \<and> filled (st_archs st) (hb_Archs h)"

definition map_all :: "(hbuild \<Rightarrow> bool) \<Rightarrow> hbuildMap \<Rightarrow> bool" where
  "map_all P m \<longleftrightarrow> list_all (\<lambda>(k, h). case h of None \<Rightarrow> True | Some h \<Rightarrow> P h) m"

lemma map_all_iff: "map_all P m \<longleftrightarrow> (\<forall>k h. (k, Some h) \<in> set m \<longrightarrow> P h)"
  by (auto simp: map_all_def list_all_iff split: option.splits)

section \<open>The operations\<close>

fun copy_structs :: "hbuildMap \<Rightarrow> hbuildMap \<Rightarrow> hbuildMap go" where
  "copy_structs [] merged = Done merged"
| "copy_structs ((k, v) # r) merged =
     (case v of None \<Rightarrow> Panic ''nil pointer dereference''
      | Some cp \<Rightarrow> copy_structs r (gm_put k (Some cp) merged))"

definition slice_len :: "slice \<Rightarrow> nat" where
  "slice_len s = (case s of None \<Rightarrow> 0 | Some (a, n) \<Rightarrow> n)"

definition clear_slices :: "hbuild \<Rightarrow> hbuild \<Rightarrow> hbuild" where
  "clear_slices bv m =
     (let m = (if slice_len (hb_Archs bv) > 0 then m\<lparr>hb_Archs := None\<rparr> else m)
      in if slice_len (hb_Flags bv) > 0 then m\<lparr>hb_Flags := None\<rparr> else m)"

definition clear_one :: "string \<times> hbuild option \<Rightarrow> hbuildMap \<Rightarrow> hbuildMap" where
  "clear_one = (\<lambda>(k, bv) merged. case bv of None \<Rightarrow> merged | Some bv \<Rightarrow>
     (case gm_get merged k of Some (Some m) \<Rightarrow> gm_put k (Some (clear_slices bv m)) merged | _ \<Rightarrow> merged))"

definition zero_arch :: arch where
  "zero_arch = \<lparr>ar_Docker = [], ar_Deb = [], ar_Go = [], ar_SkipDocker = False\<rparr>"

text \<open>Merging one build into another: scalars are overridden, slices appended to.\<close>

definition append_build :: "(nat \<Rightarrow> nat) \<Rightarrow> hbuild \<Rightarrow> hbuild \<Rightarrow> store \<Rightarrow> hbuild \<times> store" where
  "append_build grow s d st =
     (let (fl, m1) = slice_append grow [] (read (st_strings st) (hb_Flags s)) (hb_Flags d) (st_strings st);
          (en, m2) = slice_append grow [] (read m1 (hb_Env s)) (hb_Env d) m1;
          (ar, m3) = slice_append grow zero_arch (read (st_archs st) (hb_Archs s)) (hb_Archs d) (st_archs st)
      in (\<lparr>hb_fields = over_build (hb_fields s) (hb_fields d), hb_Flags = fl, hb_Env = en, hb_Archs = ar\<rparr>,
          st\<lparr>st_strings := m2, st_archs := m3\<rparr>))"

definition merge_entry :: "(nat \<Rightarrow> nat) \<Rightarrow> string \<times> hbuild option \<Rightarrow> store \<times> hbuildMap \<Rightarrow> store \<times> hbuildMap" where
  "merge_entry grow = (\<lambda>(k, s) (st, m). case (s, gm_get m k) of
      (Some s, Some (Some d)) \<Rightarrow> (case append_build grow s d st of (d', st') \<Rightarrow> (st', gm_put k (Some d') m))
    | (None, Some d) \<Rightarrow> (st, m)
    | (s, _) \<Rightarrow> (st, gm_put k s m))"

text \<open>mergo on the store, and its documented behaviour: the entries of the source, one after the other.\<close>

type_synonym mergo_store = "store \<Rightarrow> hbuildMap \<Rightarrow> hbuildMap \<Rightarrow> string + store \<times> hbuildMap"

definition mergo_store_laws :: "(nat \<Rightarrow> nat) \<Rightarrow> mergo_store \<Rightarrow> bool" where
  "mergo_store_laws grow hm \<longleftrightarrow> (\<forall>st dst src r. hm st dst src = Inr r \<longrightarrow> r = fold (merge_entry grow) src (st, dst))"

text \<open>\<open>func mergeBuilds(r, b buildMap) buildMap\<close>\<close>

definition mergeBuilds_store :: "mergo_store \<Rightarrow> hbuildMap \<Rightarrow> hbuildMap \<Rightarrow> store \<Rightarrow> (store \<times> hbuildMap) go" where
  "mergeBuilds_store hm r b st =
     go_bind (copy_structs r []) (\<lambda>merged.
       case hm st (fold clear_one b merged) b of
         Inl e \<Rightarrow> Fatal ''could not merge branch-level build definitions''
       | Inr res \<Rightarrow> Done res)"

text \<open>The loop of \<open>GetRepoPolicy\<close> over the branches, as far as their builds are concerned.\<close>

fun merge_branches :: "mergo_store \<Rightarrow> hbuildMap \<Rightarrow> hbuildMap list \<Rightarrow> store \<Rightarrow> (store \<times> hbuildMap list) go" where
  "merge_branches hm r [] st = Done (st, [])"
| "merge_branches hm r (b # bs) st =
     go_bind (mergeBuilds_store hm r b st) (\<lambda>(st, m).
     go_bind (merge_branches hm r bs st) (\<lambda>(st, ms). Done (st, m # ms)))"

section \<open>The store grows\<close>

lemma grown_refl [memory_rules]: "grown_store st st"
  and grown_trans: "grown_store st st' \<Longrightarrow> grown_store st' st'' \<Longrightarrow> grown_store st st''"
  by (auto simp: grown_store_def intro: prefix_order.trans)

lemma loaded_stored [memory_rules]: "loaded st h \<Longrightarrow> stored st h"
  and stored_grown [memory_rules]: "grown_store st st' \<Longrightarrow> stored st h \<Longrightarrow> stored st' h"
  and loaded_grown [memory_rules]: "grown_store st st' \<Longrightarrow> loaded st h \<Longrightarrow> loaded st' h"
  by (auto simp: loaded_def stored_def grown_store_def intro: filled_in in_grown filled_grown)

lemma deref_grown [memory_rules]: "grown_store st st' \<Longrightarrow> stored st h \<Longrightarrow> deref st' h = deref st h"
  by (simp add: stored_def grown_store_def deref_def read_grown)

lemma builds_in_grown:
  assumes "grown_store st st'" "map_all (stored st) m"
  shows "builds_in st' m = builds_in st m"
  using assms by (fastforce simp: builds_in_def map_all_iff deref_grown intro!: option.map_cong)

lemma append_build_loaded:
  assumes "loaded st d" "stored st s" "append_build grow s d st = (d', st')"
  shows "grown_store st st'" "stored st' d'" "deref st' d' = over_build (deref st s) (deref st d)"
proof -
  obtain fl m1 where f: "slice_append grow [] (read (st_strings st) (hb_Flags s)) (hb_Flags d) (st_strings st) = (fl, m1)"
    by force
  obtain en m2 where e: "slice_append grow [] (read m1 (hb_Env s)) (hb_Env d) m1 = (en, m2)" by force
  obtain ar m3 where a: "slice_append grow zero_arch (read (st_archs st) (hb_Archs s)) (hb_Archs d) (st_archs st) = (ar, m3)"
    by force
  have d: "d' = \<lparr>hb_fields = over_build (hb_fields s) (hb_fields d), hb_Flags = fl, hb_Env = en, hb_Archs = ar\<rparr>"
    "st' = st\<lparr>st_strings := m2, st_archs := m3\<rparr>"
    using assms(3) by (simp_all add: append_build_def f e a)
  have "filled (st_strings st) (hb_Flags d)" "filled (st_strings st) (hb_Env d)" "filled (st_archs st) (hb_Archs d)"
    using assms(1) by (simp_all add: loaded_def)
  note af = append_filled [OF this(1) f] and ar = append_filled [OF this(3) a]
    and ef = append_filled [OF filled_grown [OF append_filled(1) [OF this(1) f] this(2)] e]
  show g: "grown_store st st'"
    using af(1) ef(1) ar(1) by (auto simp: d grown_store_def intro: prefix_order.trans)
  show "stored st' d'"
    using af(2) ef(1,2) ar(2) by (simp add: d stored_def in_grown)
  have s: "in_memory (st_strings st) (hb_Env s)" "in_memory (st_strings st) (hb_Env d)"
    using assms(1,2) by (simp_all add: loaded_def stored_def filled_in)
  have "read m2 fl = read (st_strings st) (hb_Flags d) @ read (st_strings st) (hb_Flags s)"
    using read_grown [OF ef(1) af(2)] af(3) by simp
  moreover have "read m2 en = read (st_strings st) (hb_Env d) @ read (st_strings st) (hb_Env s)"
    using ef(3) read_grown [OF af(1)] s by simp
  ultimately show "deref st' d' = over_build (deref st s) (deref st d)"
    using ar(3) by (simp add: d deref_def over_build_def)
qed

section \<open>Simulation\<close>

lemma builds_in_simps [simp]: "builds_in st [] = []" "builds_in st ((k, h) # m) = (k, map_option (deref st) h) # builds_in st m"
  and map_all_simps [simp]: "map_all P []" "map_all P ((k, h) # m) \<longleftrightarrow> (case h of None \<Rightarrow> True | Some h \<Rightarrow> P h) \<and> map_all P m"
  and read_nil [simp]: "read mem None = []"
  by (simp_all add: builds_in_def map_all_def read_def)

lemma builds_in_get: "gm_get (builds_in st m) k = map_option (map_option (deref st)) (gm_get m k)"
  by (induction m) (auto simp: builds_in_def)

lemma builds_in_put: "builds_in st (gm_put k h m) = gm_put k (map_option (deref st) h) (builds_in st m)"
  by (induction m) (auto simp: builds_in_def)

lemma map_all_get: "map_all P m \<Longrightarrow> gm_get m k = Some (Some h) \<Longrightarrow> P h"
  unfolding map_all_iff by (auto dest: map_of_SomeD)

lemma map_all_put: "map_all P m \<Longrightarrow> (\<And>x. h = Some x \<Longrightarrow> P x) \<Longrightarrow> map_all P (gm_put k h m)"
  by (induction m) (auto simp: map_all_def split: option.splits)

lemma map_all_mono: "map_all P m \<Longrightarrow> (\<And>h. P h \<Longrightarrow> Q h) \<Longrightarrow> map_all Q m"
  by (auto simp: map_all_iff)

lemma copy_structs_sim:
  "copy_structs r m = Done m' \<Longrightarrow> copy_builds (builds_in st r) (builds_in st m) = Done (builds_in st m') \<and>
     (map_all P r \<longrightarrow> map_all P m \<longrightarrow> map_all P m')"
proof (induction r m rule: copy_structs.induct)
  case (2 k v r m)
  then obtain cp where v: "v = Some cp" by (cases v) auto
  with 2 map_all_put [of P m "Some cp" k] show ?case by (auto simp: builds_in_put)
qed simp

lemma read_length: "in_memory mem s \<Longrightarrow> length (read mem s) = slice_len s"
  by (auto simp: in_memory_def read_def slice_len_def split: option.splits)

lemma clear_slices_sim:
  assumes "stored st bv"
  shows "deref st (clear_slices bv m) = clear_lists (deref st bv) (deref st m)"
    and "loaded st m \<Longrightarrow> loaded st (clear_slices bv m)"
proof -
  have "length (b_Archs (deref st bv)) = slice_len (hb_Archs bv)" "length (b_Flags (deref st bv)) = slice_len (hb_Flags bv)"
    using assms by (simp_all add: deref_def stored_def read_length)
  then show "deref st (clear_slices bv m) = clear_lists (deref st bv) (deref st m)"
    by (simp add: clear_slices_def clear_lists_def Let_def deref_def)
qed (simp add: clear_slices_def loaded_def filled_def Let_def)

lemma clear_sim:
  assumes "map_all (stored st) b" "map_all (loaded st) m"
  shows "builds_in st (fold clear_one b m) = clear_overridden (builds_in st b) (builds_in st m)"
    and "map_all (loaded st) (fold clear_one b m)"
proof -
  have "builds_in st (fold clear_one b m) = clear_overridden (builds_in st b) (builds_in st m) \<and> map_all (loaded st) (fold clear_one b m)"
    using assms
  proof (induction b arbitrary: m)
    case (Cons a b)
    obtain k h where a: "a = (k, h)" by force
    show ?case
    proof (cases "\<exists>bv x. h = Some bv \<and> gm_get m k = Some (Some x)")
      case True
      then obtain bv x where h: "h = Some bv" "gm_get m k = Some (Some x)" by blast
      have "map_all (loaded st) (gm_put k (Some (clear_slices bv x)) m)"
        using map_all_get [OF Cons.prems(2) h(2)] Cons.prems by (intro map_all_put) (auto simp: a h clear_slices_sim)
      with Cons.IH [OF _ this] Cons.prems(1) show ?thesis
        by (simp add: a h clear_one_def clear_overridden_def builds_in_get builds_in_put clear_slices_sim)
    next
      case False
      then have "clear_one a m = m" by (auto simp: a clear_one_def split: option.splits)
      moreover have "clear_overridden (builds_in st (a # b)) (builds_in st m) = clear_overridden (builds_in st b) (builds_in st m)"
        using False by (auto simp: a clear_overridden_def builds_in_get split: option.splits)
      ultimately show ?thesis using Cons by (simp add: a)
    qed
  qed (simp add: clear_overridden_def)
  then show "builds_in st (fold clear_one b m) = clear_overridden (builds_in st b) (builds_in st m)"
    "map_all (loaded st) (fold clear_one b m)" by blast+
qed

lemma merge_sim:
  assumes "gm_ok b" "map_all (stored st) b" "map_all (stored st) m"
    and "\<And>k h. k \<in> set (gm_keys b) \<Longrightarrow> gm_get m k = Some (Some h) \<Longrightarrow> loaded st h"
    and "fold (merge_entry grow) b (st, m) = (st', m')"
  shows "grown_store st st' \<and> map_all (stored st') m' \<and>
    builds_in st' m' = fold ref_merge_one (builds_in st b) (builds_in st m)"
  using assms
proof (induction b arbitrary: st m)
  case (Cons a b)
  obtain k s where a: "a = (k, s)" by force
  have ok: "gm_ok b" "k \<notin> set (gm_keys b)" using Cons.prems(1) by (auto simp: a gm_ok_def)
  obtain st1 m1 where one: "merge_entry grow a (st, m) = (st1, m1)" by force
  have step: "grown_store st st1 \<and> map_all (stored st1) m1 \<and> builds_in st1 m1 = ref_merge_one (k, map_option (deref st) s) (builds_in st m) \<and>
      (\<forall>j. j \<noteq> k \<longrightarrow> gm_get m1 j = gm_get m j)"
  proof (cases "\<exists>x d. s = Some x \<and> gm_get m k = Some (Some d)")
    case True
    then obtain x d where h: "s = Some x" "gm_get m k = Some (Some d)" by blast
    obtain d' where ap: "append_build grow x d st = (d', st1)" "m1 = gm_put k (Some d') m"
      using one by (auto simp: a h merge_entry_def split: prod.splits)
    have "loaded st d" "stored st x" using Cons.prems(2,4) h by (auto simp: a)
    note g = append_build_loaded [OF this ap(1)]
    have "map_all (stored st1) m" using Cons.prems(3) by (rule map_all_mono) (rule stored_grown [OF g(1)])
    then have "map_all (stored st1) m1" using g(2) by (auto simp: ap(2) intro: map_all_put)
    moreover have "builds_in st1 m1 = gm_put k (Some (over_build (deref st x) (deref st d))) (builds_in st m)"
      by (simp add: ap(2) builds_in_put g(3) builds_in_grown [OF g(1) Cons.prems(3)])
    ultimately show ?thesis using g(1) by (simp add: h ref_merge_one_def builds_in_get ap(2) update_conv)
  next
    case False
    then have "st1 = st" "m1 = (if s = None \<and> gm_get m k \<noteq> None then m else gm_put k s m)"
      using one by (auto simp: a merge_entry_def split: option.splits)
    moreover have "builds_in st (if s = None \<and> gm_get m k \<noteq> None then m else gm_put k s m)
        = ref_merge_one (k, map_option (deref st) s) (builds_in st m)"
      using False by (auto simp: ref_merge_one_def builds_in_get builds_in_put split: option.splits)
    moreover have "map_all (stored st) (gm_put k s m)"
      using Cons.prems(2,3) by (intro map_all_put) (auto simp: a)
    ultimately show ?thesis using Cons.prems(3) by (auto simp: grown_refl update_conv)
  qed
  have "map_all (stored st) b" using Cons.prems(2) by (simp add: a)
  then have b: "map_all (stored st1) b" "builds_in st1 b = builds_in st b"
    using step by (auto intro: map_all_mono stored_grown builds_in_grown)
  have "loaded st1 h" if "j \<in> set (gm_keys b)" "gm_get m1 j = Some (Some h)" for j h
  proof -
    have "j \<noteq> k" using that(1) ok(2) by blast
    then have "gm_get m j = Some (Some h)" "j \<in> set (gm_keys (a # b))" using that step by auto
    then have "loaded st h" using Cons.prems(4) by blast
    then show ?thesis using step by (blast intro: loaded_grown)
  qed
  moreover have "fold (merge_entry grow) b (st1, m1) = (st', m')" using Cons.prems(5) one by simp
  ultimately have "grown_store st1 st' \<and> map_all (stored st') m' \<and>
    builds_in st' m' = fold ref_merge_one (builds_in st1 b) (builds_in st1 m1)"
    using step b(1) ok(1) by (intro Cons.IH) auto
  with step b(2) show ?case by (auto simp: a intro: grown_trans)
qed (simp add: grown_refl)

text \<open>One call, when the configuration was loaded without spare capacity.\<close>

lemma mergeBuilds_sim:
  assumes "mergo_store_laws grow hm" "gm_ok b" "map_all (loaded st) r" "map_all (loaded st) b"
    and "mergeBuilds_store hm r b st = Done (st', m)"
  shows "grown_store st st'" "map_all (stored st') m"
    "mergeBuilds ref_mergo (builds_in st r) (builds_in st b) = Done (builds_in st' m)"
proof -
  obtain c where c: "copy_structs r [] = Done c"
    and h: "(case hm st (fold clear_one b c) b of Inl e \<Rightarrow> Fatal ''could not merge branch-level build definitions''
       | Inr res \<Rightarrow> Done res) = Done (st', m)"
    using assms(5) unfolding mergeBuilds_store_def go_bind_Done_iff by blast
  from h have m: "hm st (fold clear_one b c) b = Inr (st', m)"
    by (cases "hm st (fold clear_one b c) b") simp_all
  have l: "map_all (loaded st) c" "copy_builds (builds_in st r) [] = Done (builds_in st c)"
    using copy_structs_sim [OF c, of st "loaded st"] assms(3) by simp_all
  have b: "map_all (stored st) b" using assms(4) by (rule map_all_mono) (rule loaded_stored)
  note cl = clear_sim [OF b l(1)]
  have "fold (merge_entry grow) b (st, fold clear_one b c) = (st', m)"
    using assms(1) m unfolding mergo_store_laws_def by metis
  moreover have "map_all (stored st) (fold clear_one b c)" using cl(2) by (rule map_all_mono) (rule loaded_stored)
  ultimately have sim: "grown_store st st' \<and> map_all (stored st') m \<and>
    builds_in st' m = fold ref_merge_one (builds_in st b) (builds_in st (fold clear_one b c))"
    using map_all_get [OF cl(2)] by (intro merge_sim [OF assms(2) b])
  then show "grown_store st st'" "map_all (stored st') m" by blast+
  from sim show "mergeBuilds ref_mergo (builds_in st r) (builds_in st b) = Done (builds_in st' m)"
    by (simp add: mergeBuilds_def l(2) ref_mergo_def cl(1))
qed

text \<open>All calls of the loop, in one store.\<close>

lemma merge_branches_sim:
  assumes "mergo_store_laws grow hm" "map_all (loaded st) r" "\<forall>b \<in> set bs. gm_ok b \<and> map_all (loaded st) b"
    and "merge_branches hm r bs st = Done (st', ms)"
  shows "grown_store st st' \<and> length ms = length bs \<and>
    (\<forall>i < length bs. map_all (stored st') (ms ! i) \<and>
      mergeBuilds ref_mergo (builds_in st r) (builds_in st (bs ! i)) = Done (builds_in st' (ms ! i)))"
  using assms(2-4)
proof (induction bs arbitrary: st ms)
  case (Cons b bs)
  obtain st1 m ms' where one: "mergeBuilds_store hm r b st = Done (st1, m)"
    and rest: "merge_branches hm r bs st1 = Done (st', ms')" and ms: "ms = m # ms'"
    using Cons.prems(3) by (auto simp: go_bind_Done_iff)
  note s = mergeBuilds_sim [OF assms(1) _ Cons.prems(1) _ one]
  have b: "gm_ok b" "map_all (loaded st) b" using Cons.prems(2) by auto
  note g = s(1) [OF b]
  have keep: "map_all (loaded st1) x" "builds_in st1 x = builds_in st x" if "map_all (loaded st) x" for x
    using that by (auto intro: map_all_mono loaded_grown [OF g] builds_in_grown [OF g] loaded_stored)
  have "grown_store st1 st' \<and> length ms' = length bs \<and>
    (\<forall>i < length bs. map_all (stored st') (ms' ! i) \<and>
      mergeBuilds ref_mergo (builds_in st1 r) (builds_in st1 (bs ! i)) = Done (builds_in st' (ms' ! i)))"
    using Cons.prems(1,2) keep(1) rest by (intro Cons.IH) auto
  moreover have "builds_in st1 r = builds_in st r" "i < length bs \<Longrightarrow> builds_in st1 (bs ! i) = builds_in st (bs ! i)" for i
    using keep(2) Cons.prems(1,2) by auto
  ultimately have rest': "grown_store st1 st'" "length ms' = length bs"
    "\<And>i. i < length bs \<Longrightarrow> map_all (stored st') (ms' ! i) \<and>
      mergeBuilds ref_mergo (builds_in st r) (builds_in st (bs ! i)) = Done (builds_in st' (ms' ! i))" by auto
  have "map_all (stored st') m \<and> mergeBuilds ref_mergo (builds_in st r) (builds_in st b) = Done (builds_in st' m)"
    using s(2,3) [OF b] map_all_mono [OF s(2) [OF b] stored_grown [OF rest'(1)]] builds_in_grown [OF rest'(1) s(2) [OF b]] by simp
  with rest' g show ?case by (auto simp: ms nth_Cons' intro: grown_trans)
qed (simp add: grown_refl)

text \<open>The loop returns unless a build of the repository is nil or mergo reports an error.\<close>

lemma merge_branches_returns:
  assumes "None \<notin> snd ` set r" "\<And>st dst src. \<exists>x. hm st dst src = Inr x"
  shows "\<exists>st' ms. merge_branches hm r bs st = Done (st', ms)"
proof -
  have "\<exists>c. copy_structs r m = Done c" for m
    using assms(1) by (induction r m rule: copy_structs.induct) (auto split: option.splits)
  then have "\<exists>x. mergeBuilds_store hm r b st = Done x" for b st
    using assms(2) by (metis (no_types, lifting) go_bind.simps(1) mergeBuilds_store_def sum.case(2))
  then show ?thesis
    by (induction bs arbitrary: st) (auto simp: go_bind_Done_iff, metis surj_pair)
qed

section \<open>Properties\<close>

text \<open>
  (C15) The branches of a repository do not disturb each other.  If the lists of the configuration were loaded without
  spare capacity, then after the builds of all branches were merged in one store, in whatever order, the
  builds of each branch still read as \<open>mergeBuilds\<close> on values computes them, whatever arrays they
  share and however much spare room \<open>append\<close> makes, and so does the configuration.
\<close>

theorem branches_share_nothing:
  assumes "mergo_store_laws grow hm" "map_all (loaded st) r" "\<forall>b \<in> set bs. gm_ok b \<and> map_all (loaded st) b"
    and "merge_branches hm r bs st = Done (st', ms)"
  shows "length ms = length bs \<and>
    (\<forall>i < length bs. mergeBuilds ref_mergo (builds_in st r) (builds_in st (bs ! i)) = Done (builds_in st' (ms ! i))) \<and>
    builds_in st' r = builds_in st r \<and> (\<forall>b \<in> set bs. builds_in st' b = builds_in st b)"
proof -
  from merge_branches_sim [OF assms] have g: "grown_store st st'" by blast
  have "builds_in st' x = builds_in st x" if "map_all (loaded st) x" for x
    using that by (intro builds_in_grown [OF g]) (erule map_all_mono, rule loaded_stored)
  with merge_branches_sim [OF assms] assms(2,3) show ?thesis by blast
qed

text \<open>Two branches that each add a variable to the one of the repository; \<open>spare\<close> cells follow the repository's.\<close>

definition wit_hbuild :: "slice \<Rightarrow> hbuild" where
  "wit_hbuild env = \<lparr>hb_fields = wit_build [] [] [], hb_Flags = None, hb_Env = env, hb_Archs = None\<rparr>"

definition wit_store :: "nat \<Rightarrow> store" where
  "wit_store spare = \<lparr>st_strings = [''E'' # replicate spare [], [''A''], [''B'']], st_archs = []\<rparr>"

definition wit_repo_builds :: hbuildMap where "wit_repo_builds = [(''std'', Some (wit_hbuild (Some (0, 1))))]"

definition wit_branch_builds :: "hbuildMap list" where
  "wit_branch_builds = [[(''std'', Some (wit_hbuild (Some (1, 1))))], [(''std'', Some (wit_hbuild (Some (2, 1))))]]"

definition ref_mergo_store :: mergo_store where
  "ref_mergo_store st dst src = Inr (fold (merge_entry (\<lambda>n. n)) src (st, dst))"

lemma ref_mergo_store_laws: "mergo_store_laws (\<lambda>n. n) ref_mergo_store"
  by (simp add: mergo_store_laws_def ref_mergo_store_def)

definition envs :: "store \<Rightarrow> hbuildMap list \<Rightarrow> string list list" where
  "envs st ms = List.map (\<lambda>m. case gm_get (builds_in st m) ''std'' of Some (Some b) \<Rightarrow> b_Env b | _ \<Rightarrow> []) ms"

lemma wit_merged:
  "case merge_branches ref_mergo_store wit_repo_builds wit_branch_builds (wit_store 0) of
     Done (st, ms) \<Rightarrow> envs st ms = [[''E'', ''A''], [''E'', ''B'']] | _ \<Rightarrow> False"
  by code_simp

theorem branches_share_nothing_witness:
  "\<exists>st ms. merge_branches ref_mergo_store wit_repo_builds wit_branch_builds (wit_store 0) = Done (st, ms) \<and>
     envs st ms = [[''E'', ''A''], [''E'', ''B'']] \<and> builds_in st wit_repo_builds = builds_in (wit_store 0) wit_repo_builds"
proof -
  obtain st ms where r: "merge_branches ref_mergo_store wit_repo_builds wit_branch_builds (wit_store 0) = Done (st, ms)"
    "envs st ms = [[''E'', ''A''], [''E'', ''B'']]"
    using wit_merged by (auto split: go.splits prod.splits)
  have l: "map_all (loaded (wit_store 0)) wit_repo_builds"
    "\<forall>b \<in> set wit_branch_builds. gm_ok b \<and> map_all (loaded (wit_store 0)) b" by code_simp+
  from branches_share_nothing [OF ref_mergo_store_laws l r(1)] r show ?thesis by blast
qed

text \<open>
  With a spare cell behind the repository's list the second branch overwrites what the first one appended: the copy
  \<open>mergeBuilds\<close> makes is not deep.
\<close>

theorem spare_capacity_clobbers:
  "case merge_branches ref_mergo_store wit_repo_builds wit_branch_builds (wit_store 1) of
     Done (st, ms) \<Rightarrow> envs st ms = [[''E'', ''B''], [''E'', ''B'']] | _ \<Rightarrow> False"
  by code_simp

end
