(* ===== verification/Commands.thy ===== *)
theory Commands
  imports Complex_Main PkgsCmd Sync Support
begin

text \<open>
  The commands of \<open>gromit\<close> as the files of \<open>cmd\<close> register them with cobra: names, argument checks and
  flags, what each command reads of its arguments and flags, and the clients that are made from them.
  Cobra and pflag are not under \<open>src\<close>: what parsing a command line yields, and which arguments a check accepts, are
  arguments of the definitions, with their documentation as hypotheses (\<open>parsed\<close>, \<open>check_laws\<close>).
  Long help texts are left out.
\<close>

section \<open>Commands\<close>

text \<open>The variables that hold the commands.\<close>

datatype cmd =
    CRoot | CCompletion | CEnv | CExpose | CLicenser | COrgs | CDump | CPasswd | CPkgs | CClean | CPlan
  | CPolicy | CGen | CController | CSync | CDiff | CMatch | CTui | CPrs | CCreate | CDelete | CUpdate | COpen | CVersion

datatype args_check = NoCheck | MinimumNArgs nat | ExactArgs nat | ExactValidArgs nat

text \<open>The function of a command: none, one that returns nothing, or one that returns an error.\<close>

datatype run_kind = NoRun | Run | RunE

record command =
  cm_Use :: string
  cm_Short :: string
  cm_Aliases :: "string list"
  cm_Args :: args_check
  cm_ValidArgs :: "string list"
  cm_Run :: run_kind

definition command_line :: "string \<Rightarrow> string \<Rightarrow> args_check \<Rightarrow> run_kind \<Rightarrow> command" where
  "command_line use short check run = \<lparr>cm_Use = use, cm_Short = short, cm_Aliases = [], cm_Args = check,
     cm_ValidArgs = [], cm_Run = run\<rparr>"

definition rootCmd :: command where
  "rootCmd = command_line ''gromit'' ''The glue that binds AWS and Github'' NoCheck NoRun"

definition completionCmd :: command where
  "completionCmd = (command_line ''completion [bash|zsh|fish|powershell]'' ''Generate completion script'' (ExactValidArgs 1) Run)
     \<lparr>cm_ValidArgs := [''bash'', ''zsh'', ''fish'', ''powershell'']\<rparr>"

definition envCmd :: command where
  "envCmd = command_line ''env'' ''Manage cluster of tyk components'' NoCheck NoRun"

definition exposeCmd :: command where
  "exposeCmd = command_line ''expose'' ''Upsert a record in Route53 for the given ECS cluster'' NoCheck RunE"

definition licenserCmd :: command where
  "licenserCmd = command_line ''licenser [flags] <mdcb-trial|dashboard-trial> <path>''
     ''Get a trial license and (over)writes it to SSM path'' (MinimumNArgs 2) RunE"

definition orgsCmd :: command where
  "orgsCmd = command_line ''orgs <subcommand>'' ''Dump/restore org keys and mongodb'' (MinimumNArgs 1) Run"

definition orgsDumpCmd :: command where
  "orgsDumpCmd = command_line ''dump org0 org1 ...'' ''Concurrently dump mongo and redis'' (MinimumNArgs 1) Run"

definition passwdCmd :: command where
  "passwdCmd = command_line ''passwd'' ''Returns the password hash of the given plaintext'' NoCheck Run"

definition pkgsCmd :: command where
  "pkgsCmd = command_line ''pkgs <subcmd>'' ''Interact with package repositories'' NoCheck NoRun"

definition cleanSubCmd :: command where
  "cleanSubCmd = command_line ''clean <repo>'' ''Cleanup packages from the repository'' (MinimumNArgs 1) Run"

definition planSubCmd :: command where
  "planSubCmd = command_line ''plan <repo>...'' ''Dry-run report of what the retention policy would prune'' (MinimumNArgs 1) RunE"

definition policyCmd :: command where
  "policyCmd = command_line ''policy'' ''Templatised policies that are driven by the config file'' NoCheck Run"

definition genSubCmd :: command where
  "genSubCmd = (command_line ''gen <dir>''
     ''Render <bundle> into <dir> using parameters from policy.<repo>. If <dir> is -, render to stdout.'' (ExactArgs 1) RunE)
     \<lparr>cm_Aliases := [''generate'', ''render'']\<rparr>"

definition controllerSubCmd :: command where
  "controllerSubCmd = command_line ''controller'' ''Decide the test environment'' NoCheck RunE"

definition syncSubCmd :: command where
  "syncSubCmd = command_line ''sync <repo>'' ''(re-)generate the templates for all known branches for <repo>''
     (MinimumNArgs 1) RunE"

definition diffSubCmd :: command where
  "diffSubCmd = command_line ''diff <dir>'' ''Compute if there are differences worth pushing (requires git)''
     (MinimumNArgs 1) RunE"

definition matchSubCmd :: command where
  "matchSubCmd = command_line ''match <current_tag> <target_tag>''
     ''Given the current build tag and the target tag, find the matching tags in the repos'' (MinimumNArgs 2) RunE"

definition generateTuiCmd :: command where
  "generateTuiCmd = command_line ''generate-tui'' ''Generate static TUI files'' NoCheck RunE"

definition prsCmd :: command where
  "prsCmd = command_line ''prs <action> <repos>...'' ''Operate upon PRs for the named repos'' NoCheck NoRun"

definition cprSubCmd :: command where
  "cprSubCmd = (command_line ''createprs repos...'' ''Create PRs for the named repos'' (MinimumNArgs 1) RunE)
     \<lparr>cm_Aliases := [''cpr'']\<rparr>"

definition dprSubCmd :: command where
  "dprSubCmd = (command_line ''deleteprs repos...'' ''Close PRs for the named repos'' (MinimumNArgs 1) Run)
     \<lparr>cm_Aliases := [''dpr'']\<rparr>"

definition uprSubCmd :: command where
  "uprSubCmd = (command_line ''updateprs repos...'' ''Update the releng PR branch for the named repos'' (MinimumNArgs 1) Run)
     \<lparr>cm_Aliases := [''upr'']\<rparr>"

definition oprSubCmd :: command where
  "oprSubCmd = (command_line ''openprs repos...'' ''Open the releng PR in the default browser'' (MinimumNArgs 1) Run)
     \<lparr>cm_Aliases := [''opr'']\<rparr>"

definition versionCmd :: command where
  "versionCmd = command_line ''version'' ''Print version'' NoCheck Run"

fun command_of :: "cmd \<Rightarrow> command" where
  "command_of CRoot = rootCmd"
| "command_of CCompletion = completionCmd"
| "command_of CEnv = envCmd"
| "command_of CExpose = exposeCmd"
| "command_of CLicenser = licenserCmd"
| "command_of COrgs = orgsCmd"
| "command_of CDump = orgsDumpCmd"
| "command_of CPasswd = passwdCmd"
| "command_of CPkgs = pkgsCmd"
| "command_of CClean = cleanSubCmd"
| "command_of CPlan = planSubCmd"
| "command_of CPolicy = policyCmd"
| "command_of CGen = genSubCmd"
| "command_of CController = controllerSubCmd"
| "command_of CSync = syncSubCmd"
| "command_of CDiff = diffSubCmd"
| "command_of CMatch = matchSubCmd"
| "command_of CTui = generateTuiCmd"
| "command_of CPrs = prsCmd"
| "command_of CCreate = cprSubCmd"
| "command_of CDelete = dprSubCmd"
| "command_of CUpdate = uprSubCmd"
| "command_of COpen = oprSubCmd"
| "command_of CVersion = versionCmd"

section \<open>Registration\<close>

datatype flag_value =
    BoolVal bool
  | IntVal int
  | Int64Val int
  | FloatVal rat
  | StringVal string
  | SliceVal "string list"
  | DurationVal int

text \<open>A flag: its name, its shorthand if any, its default, and the variable it is stored in if any.\<close>

record flag =
  fl_Name :: string
  fl_Short :: string
  fl_Default :: flag_value
  fl_Var :: "string option"

definition flag :: "string \<Rightarrow> flag_value \<Rightarrow> flag" where
  "flag n d = \<lparr>fl_Name = n, fl_Short = [], fl_Default = d, fl_Var = None\<rparr>"

definition flag_var :: "string \<Rightarrow> string \<Rightarrow> flag_value \<Rightarrow> flag" where
  "flag_var x n d = (flag n d)\<lparr>fl_Var := Some x\<rparr>"

text \<open>What the \<open>init\<close> functions call.\<close>

datatype scope = Local | Persistent

datatype registration =
    OnInitialize
  | AddCommand cmd cmd
  | AddFlag cmd scope flag
  | MarkFlagRequired cmd string
  | MarkFlagsRequiredTogether cmd "string list"

definition init_completion :: "registration list" where
  "init_completion = [AddCommand CRoot CCompletion]"

definition init_env :: "(string \<Rightarrow> string) \<Rightarrow> registration list" where
  "init_env getenv =
    [AddFlag CLicenser Local (flag ''baseurl'' (StringVal ''https://bots.cluster.internal.tyk.technology/license-bot/'')),
     AddFlag CLicenser Local (flag ''token'' (StringVal (getenv ''GROMIT_LICENSER_TOKEN''))),
     AddFlag CLicenser Local (flag ''key'' (StringVal ''215a7274-5652-4521-8a88-b18e02b8f13e'')),
     AddFlag CExpose Local (flag ''zone'' (StringVal ''dev.tyk.technology'')),
     AddCommand CEnv CExpose,
     AddCommand CEnv CLicenser,
     AddFlag CEnv Persistent (flag_var ''envName'' ''env'' (StringVal '''')),
     AddCommand CRoot CEnv]"

definition minute :: int where "minute = 60 * 1000000000"

definition init_orgs :: "(string \<Rightarrow> string) \<Rightarrow> registration list" where
  "init_orgs getenv =
    [AddCommand CRoot COrgs,
     AddCommand COrgs CDump,
     AddFlag COrgs Persistent ((flag_var ''redisHosts'' ''redis'' (StringVal (getenv ''REDIS_HOSTS'')))\<lparr>fl_Short := ''r''\<rparr>),
     AddFlag COrgs Persistent ((flag_var ''redisMasterName'' ''name'' (StringVal (getenv ''REDIS_MASTER'')))\<lparr>fl_Short := ''n''\<rparr>),
     AddFlag COrgs Persistent (flag_var ''redisMaxRetries'' ''redis-max-retries'' (IntVal 50)),
     AddFlag COrgs Persistent ((flag_var ''timeout'' ''timeout'' (DurationVal (15 * minute)))\<lparr>fl_Short := ''t''\<rparr>),
     AddFlag COrgs Persistent ((flag_var ''dir'' ''dir'' (StringVal ''.''))\<lparr>fl_Short := ''d''\<rparr>),
     MarkFlagRequired COrgs ''redis'',
     AddFlag CDump Local ((flag ''patterns'' (StringVal ''apikey-*,tyk-admin-api-*''))\<lparr>fl_Short := ''p''\<rparr>),
     AddFlag CDump Persistent ((flag ''count'' (Int64Val 1000))\<lparr>fl_Short := ''c''\<rparr>)]"

definition init_passwd :: "registration list" where
  "init_passwd = [AddCommand CRoot CPasswd]"

definition init_pkgs :: "registration list" where
  "init_pkgs =
    [AddCommand CPkgs CClean,
     AddCommand CPkgs CPlan,
     AddCommand CRoot CPkgs,
     AddFlag CPkgs Persistent (flag ''owner'' (StringVal ''tyk'')),
     AddFlag CPkgs Persistent (flag ''rps'' (FloatVal 10)),
     AddFlag CPkgs Persistent (flag ''burst'' (IntVal 20)),
     AddFlag CClean Local (flag ''concurrency'' (IntVal 3)),
     AddFlag CClean Local (flag ''savedir'' (StringVal ''./backup'')),
     AddFlag CClean Local (flag ''delete'' (BoolVal False)),
     AddFlag CPlan Local (flag ''json'' (BoolVal False))]"

definition init_policy :: "registration list" where
  "init_policy =
    [AddFlag CSync Local (flag ''pr'' (BoolVal False)),
     AddFlag CSync Local (flag ''title'' (StringVal '''')),
     AddFlag CSync Local (flag ''jira'' (StringVal ''releng'')),
     AddFlag CSync Local (flag ''msg'' (StringVal ''Auto generated from templates by gromit'')),
     MarkFlagsRequiredTogether CSync [''pr'', ''title''],
     AddFlag CSync Local (flag_var ''owner'' ''owner'' (StringVal ''TykTechnologies'')),
     AddFlag CSync Local (flag_var ''Prefix'' ''prefix'' (StringVal ''releng/'')),
     AddFlag CDiff Local (flag ''colours'' (BoolVal True)),
     AddFlag CGen Local (flag ''repo'' (StringVal '''')),
     AddFlag CTui Local (flag ''config-dir'' (StringVal ''config/tui'')),
     AddFlag CTui Local (flag ''out-dir'' (StringVal ''public'')),
     AddFlag CMatch Local (flag ''config'' (StringVal ''$HOME/.docker/config.json'')),
     AddFlag CMatch Local (flag ''repos'' (StringVal ''tyk-ee,tyk-analytics,tyk-pump,tyk-sink'')),
     AddCommand CPolicy CMatch,
     AddCommand CPolicy CSync,
     AddCommand CPolicy CController,
     AddCommand CPolicy CDiff,
     AddCommand CPolicy CGen,
     AddCommand CPolicy CTui,
     AddFlag CPolicy Persistent (flag_var ''polBranch'' ''branch'' (StringVal '''')),
     AddFlag CPolicy Persistent (flag ''auto'' (BoolVal True)),
     AddCommand CRoot CPolicy]"

definition init_prs :: "registration list" where
  "init_prs =
    [AddFlag CPrs Persistent (flag_var ''PrBranch'' ''branch'' (StringVal '''')),
     AddFlag CPrs Persistent (flag_var ''Prefix'' ''prefix'' (StringVal ''releng/'')),
     AddFlag CCreate Local (flag ''reviewers'' (SliceVal [])),
     AddFlag CCreate Local (flag ''auto'' (BoolVal True)),
     AddFlag CCreate Local (flag ''jira'' (StringVal '''')),
     MarkFlagRequired CCreate ''jira'',
     AddCommand CPrs CCreate,
     AddCommand CPrs CDelete,
     AddCommand CPrs CUpdate,
     AddCommand CPrs COpen,
     AddCommand CRoot CPrs]"

definition init_root :: "registration list" where
  "init_root =
    [OnInitialize,
     AddFlag CRoot Persistent ((flag_var ''cfgFile'' ''conf'' (StringVal ''''))\<lparr>fl_Short := ''f''\<rparr>),
     AddFlag CRoot Persistent (flag ''loglevel'' (StringVal ''info'')),
     AddFlag CRoot Persistent (flag ''textlogs'' (BoolVal True))]"

definition init_version :: "registration list" where
  "init_version = [AddCommand CRoot CVersion, AddFlag CVersion Local (flag ''full'' (BoolVal False))]"

text \<open>The package is initialised file by file, in the order of their names.\<close>

definition registrations :: "(string \<Rightarrow> string) \<Rightarrow> registration list" where
  "registrations getenv = init_completion @ init_env getenv @ init_orgs getenv @ init_passwd @ init_pkgs @ init_policy
     @ init_prs @ init_root @ init_version"

section \<open>What cobra promises\<close>

definition parent_of :: "registration list \<Rightarrow> cmd \<Rightarrow> cmd option" where
  "parent_of regs = map_of (concat (List.map (\<lambda>r. case r of AddCommand p c \<Rightarrow> [(c, p)] | _ \<Rightarrow> []) regs))"

text \<open>A command and those above it; the tree is not deeper than the fuel.\<close>

fun lineage :: "registration list \<Rightarrow> nat \<Rightarrow> cmd \<Rightarrow> cmd list" where
  "lineage regs 0 c = [c]"
| "lineage regs (Suc n) c = c # (case parent_of regs c of None \<Rightarrow> [] | Some p \<Rightarrow> lineage regs n p)"

definition flags_on :: "registration list \<Rightarrow> cmd \<Rightarrow> scope \<Rightarrow> flag list" where
  "flags_on regs c sc = concat (List.map (\<lambda>r. case r of AddFlag d s f \<Rightarrow> if d = c \<and> s = sc then [f] else [] | _ \<Rightarrow> []) regs)"

text \<open>Documented of \<open>Flags()\<close>: the flags of the command, and the persistent ones declared there or above.\<close>

definition flags_for :: "registration list \<Rightarrow> cmd \<Rightarrow> flag list" where
  "flags_for regs c = flags_on regs c Local @ concat (List.map (\<lambda>d. flags_on regs d Persistent) (lineage regs (length regs) c))"

text \<open>Reading a flag by name and type, with an error if there is no such flag; and the variables flags are stored in.\<close>

record flag_set =
  GetBool :: "string \<Rightarrow> bool \<times> string option"
  GetInt :: "string \<Rightarrow> int \<times> string option"
  GetInt64 :: "string \<Rightarrow> int \<times> string option"
  GetFloat64 :: "string \<Rightarrow> rat \<times> string option"
  GetString :: "string \<Rightarrow> string \<times> string option"
  GetStringSlice :: "string \<Rightarrow> string list \<times> string option"
  variable :: "string \<Rightarrow> flag_value"

fun reads :: "flag_set \<Rightarrow> string \<Rightarrow> flag_value \<Rightarrow> bool" where
  "reads fs n (BoolVal b) \<longleftrightarrow> GetBool fs n = (b, None)"
| "reads fs n (IntVal i) \<longleftrightarrow> GetInt fs n = (i, None)"
| "reads fs n (Int64Val i) \<longleftrightarrow> GetInt64 fs n = (i, None)"
| "reads fs n (FloatVal x) \<longleftrightarrow> GetFloat64 fs n = (x, None)"
| "reads fs n (StringVal s) \<longleftrightarrow> GetString fs n = (s, None)"
| "reads fs n (SliceVal xs) \<longleftrightarrow> GetStringSlice fs n = (xs, None)"
| "reads fs n (DurationVal d) \<longleftrightarrow> True"

fun same_type :: "flag_value \<Rightarrow> flag_value \<Rightarrow> bool" where
  "same_type (BoolVal _) (BoolVal _) = True"
| "same_type (IntVal _) (IntVal _) = True"
| "same_type (Int64Val _) (Int64Val _) = True"
| "same_type (FloatVal _) (FloatVal _) = True"
| "same_type (StringVal _) (StringVal _) = True"
| "same_type (SliceVal _) (SliceVal _) = True"
| "same_type (DurationVal _) (DurationVal _) = True"
| "same_type _ _ = False"

definition in_force :: "(string, flag_value) gomap \<Rightarrow> flag \<Rightarrow> flag_value" where
  "in_force given f = (case gm_get given (fl_Name f) of None \<Rightarrow> fl_Default f | Some v \<Rightarrow> v)"

text \<open>
  The flags \<open>given\<close> on a command line of \<open>c\<close>, once it was accepted: each flag of the command reads as what was given,
  of its type, or else as its default, and so does the variable it is stored in.
\<close>

definition parsed :: "registration list \<Rightarrow> cmd \<Rightarrow> (string, flag_value) gomap \<Rightarrow> flag_set \<Rightarrow> bool" where
  "parsed regs c given fs \<longleftrightarrow> list_all (\<lambda>f. same_type (in_force given f) (fl_Default f) \<and> reads fs (fl_Name f) (in_force given f) \<and>
     (case fl_Var f of None \<Rightarrow> True | Some x \<Rightarrow> variable fs x = in_force given f)) (flags_for regs c)"

text \<open>Which arguments the checks accept.\<close>

definition check_laws :: "(command \<Rightarrow> string list \<Rightarrow> string option) \<Rightarrow> bool" where
  "check_laws check \<longleftrightarrow> (\<forall>c args. check c args = None \<longrightarrow>
     (case cm_Args c of
        NoCheck \<Rightarrow> True
      | MinimumNArgs n \<Rightarrow> n \<le> length args
      | ExactArgs n \<Rightarrow> length args = n
      | ExactValidArgs n \<Rightarrow> length args = n \<and> set args \<subseteq> set (cm_ValidArgs c)))"

section \<open>What the commands read\<close>

text \<open>\<open>args[i]\<close>\<close>

definition index :: "string list \<Rightarrow> nat \<Rightarrow> string go" where
  "index args i = (if i < length args then Done (args ! i) else Panic ''index out of range'')"

text \<open>\<open>completionCmd\<close>: the script that is generated; a shell that is none of the four prints nothing.\<close>

datatype shell = Bash | Zsh | Fish | PowerShell

definition shell_of :: "string \<Rightarrow> shell option" where
  "shell_of s = (if s = ''bash'' then Some Bash else if s = ''zsh'' then Some Zsh
     else if s = ''fish'' then Some Fish else if s = ''powershell'' then Some PowerShell else None)"

definition completion_cmd :: "string list \<Rightarrow> shell option go" where
  "completion_cmd args = go_bind (index args 0) (\<lambda>a. Done (shell_of a))"

text \<open>The arguments the bodies index; the loops of the other commands take them as they are.\<close>

definition two_args :: "string list \<Rightarrow> string list go" where
  "two_args args = go_bind (index args 0) (\<lambda>a. go_bind (index args 1) (\<lambda>b. Done [a, b]))"

definition one_arg :: "string list \<Rightarrow> string list go" where
  "one_arg args = go_bind (index args 0) (\<lambda>a. Done [a])"

definition args_read :: "cmd \<Rightarrow> string list \<Rightarrow> string list go" where
  "args_read c args =
     (if c \<in> {CCompletion, CGen, CSync, CDiff, CPasswd} then one_arg args
      else if c \<in> {CLicenser, CMatch} then two_args args
      else Done args)"

text \<open>What runs before the commands of a group: the policies, and for \<open>prs\<close> the token; without them the process ends.\<close>

definition policy_prerun :: "(string \<Rightarrow> string + Policies) \<Rightarrow> Policies go" where
  "policy_prerun unmarshal_key =
     (case LoadRepoPolicies unmarshal_key of Inl e \<Rightarrow> Fatal ''could not parse repo policies'' | Inr p \<Rightarrow> Done p)"

definition prs_prerun :: "(string \<Rightarrow> string) \<Rightarrow> (string \<Rightarrow> string + Policies) \<Rightarrow> (Policies \<times> string) go" where
  "prs_prerun getenv unmarshal_key =
     go_bind (policy_prerun unmarshal_key) (\<lambda>p.
       let ghToken = getenv ''GITHUB_TOKEN''
       in if ghToken = [] then Fatal ''Working with PRs requires GITHUB_TOKEN'' else Done (p, ghToken))"

definition policy_cmd :: "string list" where
  "policy_cmd = [''You need to use a sub-command.'']"

text \<open>The bodies' flags, in the form the models of the bodies take them.\<close>

definition string_var :: "flag_set \<Rightarrow> string \<Rightarrow> string" where
  "string_var fs x = (case variable fs x of StringVal s \<Rightarrow> s | _ \<Rightarrow> [])"

definition int_var :: "flag_set \<Rightarrow> string \<Rightarrow> int" where
  "int_var fs x = (case variable fs x of IntVal i \<Rightarrow> i | DurationVal i \<Rightarrow> i | _ \<Rightarrow> 0)"

definition clean_flags :: "flag_set \<Rightarrow> level \<Rightarrow> clean_args go" where
  "clean_flags fs ll =
     (let (concurrency, _) = GetInt fs ''concurrency''; (savedir, _) = GetString fs ''savedir'';
          (delete, err) = GetBool fs ''delete''
      in if err \<noteq> None then Fatal ''parsing -delete flag''
         else Done \<lparr>ca_concurrency = concurrency, ca_savedir = savedir, ca_delete = delete,
           ca_progress = \<not> ll < InfoLevel\<rparr>)"

text \<open>\<open>type Client struct\<close> and \<open>func NewClient(authToken, owner string, rps float64, burst int) *Client\<close> (\<open>pkgs/client.go\<close>)\<close>

record Client =
  cl_token :: string
  cl_owner :: string
  cl_rps :: rat
  cl_burst :: int

definition NewClient :: "string \<Rightarrow> string \<Rightarrow> rat \<Rightarrow> int \<Rightarrow> Client" where
  "NewClient authToken owner rps burst = \<lparr>cl_token = authToken, cl_owner = owner, cl_rps = rps, cl_burst = burst\<rparr>"

text \<open>\<open>func LoadConfig() (*Repos, error)\<close> (\<open>pkgs/client.go\<close>)\<close>

definition LoadConfig_pkgs :: "(string \<Rightarrow> string + Repos) \<Rightarrow> string + Repos" where
  "LoadConfig_pkgs unmarshal_key = unmarshal_key ''pkgs''"

definition pkgs_setup :: "(string \<Rightarrow> string) \<Rightarrow> (string \<Rightarrow> string + Repos) \<Rightarrow> flag_set \<Rightarrow> (Client \<times> Repos) go" where
  "pkgs_setup getenv unmarshal_key fs =
     go_bind (pkgs_prerun (getenv ''PACKAGECLOUD_TOKEN'') (LoadConfig_pkgs unmarshal_key)) (\<lambda>repos.
       Done (NewClient (getenv ''PACKAGECLOUD_TOKEN'') (fst (GetString fs ''owner'')) (fst (GetFloat64 fs ''rps''))
         (fst (GetInt fs ''burst'')), repos))"

definition sync_flags :: "(string \<Rightarrow> string) \<Rightarrow> flag_set \<Rightarrow> sync_opts" where
  "sync_flags getenv fs = \<lparr>so_pr = fst (GetBool fs ''pr''), so_token = getenv ''GITHUB_TOKEN'',
     so_branch = string_var fs ''polBranch'', so_prefix = string_var fs ''Prefix'', so_owner = string_var fs ''owner'',
     so_msg = fst (GetString fs ''msg''), so_auto = fst (GetBool fs ''auto''), so_title = fst (GetString fs ''title''),
     so_jira = fst (GetString fs ''jira'')\<rparr>"

text \<open>\<open>createprs\<close>: the issue, whether to merge, the reviewers, the prefix and the branch.\<close>

definition create_flags :: "flag_set \<Rightarrow> (string \<times> bool \<times> string list \<times> string \<times> string) go" where
  "create_flags fs =
     (case GetString fs ''jira'' of
        (issue, Some e) \<Rightarrow> Fatal ''could not get Jira issue''
      | (issue, None) \<Rightarrow> Done (issue, fst (GetBool fs ''auto''), fst (GetStringSlice fs ''reviewers''),
          string_var fs ''Prefix'', string_var fs ''PrBranch''))"

text \<open>\<open>type RedisOptions struct\<close> (\<open>orgs/keys.go\<close>), and what \<open>orgs dump\<close> passes on.\<close>

record RedisOptions =
  ro_Addrs :: "string list"
  ro_MasterName :: string
  ro_MaxRetries :: int
  ro_BatchSize :: int

definition dump_flags :: "flag_set \<Rightarrow> RedisOptions \<times> string \<times> string list \<times> int" where
  "dump_flags fs =
     (let (patterns, _) = GetString fs ''patterns''; (count, _) = GetInt64 fs ''count''
      in (\<lparr>ro_Addrs = split_on (CHR '','') (string_var fs ''redisHosts''), ro_MasterName = string_var fs ''redisMasterName'',
            ro_MaxRetries = int_var fs ''redisMaxRetries'', ro_BatchSize = count\<rparr>,
          string_var fs ''dir'', split_on (CHR '','') patterns, count))"

definition gen_flags :: "flag_set \<Rightarrow> string \<times> string" where
  "gen_flags fs = (fst (GetString fs ''repo''), string_var fs ''polBranch'')"

definition diff_flags :: "flag_set \<Rightarrow> bool" where
  "diff_flags fs = fst (GetBool fs ''colours'')"

definition match_flags :: "flag_set \<Rightarrow> string \<times> string" where
  "match_flags fs = (fst (GetString fs ''config''), fst (GetString fs ''repos''))"

definition tui_flags :: "flag_set \<Rightarrow> string \<times> string" where
  "tui_flags fs = (fst (GetString fs ''config-dir''), fst (GetString fs ''out-dir''))"

text \<open>The environment's name, and the zone or why it cannot be read.\<close>

definition expose_flags :: "flag_set \<Rightarrow> string \<times> (string + string)" where
  "expose_flags fs = (string_var fs ''envName'', case GetString fs ''zone'' of (zone, None) \<Rightarrow> Inr zone | (zone, Some e) \<Rightarrow> Inl e)"

definition licenser_flags :: "flag_set \<Rightarrow> string \<times> string" where
  "licenser_flags fs = (fst (GetString fs ''baseurl''), fst (GetString fs ''key''))"

definition plan_flags :: "flag_set \<Rightarrow> bool" where
  "plan_flags fs = fst (GetBool fs ''json'')"

definition version_flags :: "flag_set \<Rightarrow> bool" where
  "version_flags fs = fst (GetBool fs ''full'')"

section \<open>Reading what was registered\<close>

text \<open>What was given for a flag, or the default.\<close>

definition bool_given :: "(string, flag_value) gomap \<Rightarrow> string \<Rightarrow> bool \<Rightarrow> bool" where
  "bool_given given n d = (case gm_get given n of Some (BoolVal b) \<Rightarrow> b | _ \<Rightarrow> d)"

definition int_given :: "(string, flag_value) gomap \<Rightarrow> string \<Rightarrow> int \<Rightarrow> int" where
  "int_given given n d = (case gm_get given n of Some (IntVal i) \<Rightarrow> i | Some (Int64Val i) \<Rightarrow> i | _ \<Rightarrow> d)"

definition rat_given :: "(string, flag_value) gomap \<Rightarrow> string \<Rightarrow> rat \<Rightarrow> rat" where
  "rat_given given n d = (case gm_get given n of Some (FloatVal x) \<Rightarrow> x | _ \<Rightarrow> d)"

definition string_given :: "(string, flag_value) gomap \<Rightarrow> string \<Rightarrow> string \<Rightarrow> string" where
  "string_given given n d = (case gm_get given n of Some (StringVal s) \<Rightarrow> s | _ \<Rightarrow> d)"

definition slice_given :: "(string, flag_value) gomap \<Rightarrow> string \<Rightarrow> string list \<Rightarrow> string list" where
  "slice_given given n d = (case gm_get given n of Some (SliceVal xs) \<Rightarrow> xs | _ \<Rightarrow> d)"

lemmas given_defs = bool_given_def int_given_def rat_given_def string_given_def slice_given_def

lemma parsed_flag:
  assumes "parsed regs c given fs" "f \<in> set (flags_for regs c)"
  shows "same_type (in_force given f) (fl_Default f)" "reads fs (fl_Name f) (in_force given f)"
    "fl_Var f = Some x \<Longrightarrow> variable fs x = in_force given f"
  using assms by (auto simp: parsed_def list_all_iff)

lemma same_type_elims:
  "same_type v (BoolVal b) \<Longrightarrow> \<exists>x. v = BoolVal x"
  "same_type v (IntVal i) \<Longrightarrow> \<exists>x. v = IntVal x"
  "same_type v (Int64Val i) \<Longrightarrow> \<exists>x. v = Int64Val x"
  "same_type v (FloatVal q) \<Longrightarrow> \<exists>x. v = FloatVal x"
  "same_type v (StringVal s) \<Longrightarrow> \<exists>x. v = StringVal x"
  "same_type v (SliceVal xs) \<Longrightarrow> \<exists>x. v = SliceVal x"
  "same_type v (DurationVal i) \<Longrightarrow> \<exists>x. v = DurationVal x"
  by (cases v; simp)+

text \<open>A flag, and the variable it is stored in, as a body sees them.\<close>

fun reads_given :: "flag_set \<Rightarrow> (string, flag_value) gomap \<Rightarrow> string \<Rightarrow> flag_value \<Rightarrow> bool" where
  "reads_given fs given n (BoolVal d) \<longleftrightarrow> GetBool fs n = (bool_given given n d, None)"
| "reads_given fs given n (IntVal d) \<longleftrightarrow> GetInt fs n = (int_given given n d, None)"
| "reads_given fs given n (Int64Val d) \<longleftrightarrow> GetInt64 fs n = (int_given given n d, None)"
| "reads_given fs given n (FloatVal d) \<longleftrightarrow> GetFloat64 fs n = (rat_given given n d, None)"
| "reads_given fs given n (StringVal d) \<longleftrightarrow> GetString fs n = (string_given given n d, None)"
| "reads_given fs given n (SliceVal d) \<longleftrightarrow> GetStringSlice fs n = (slice_given given n d, None)"
| "reads_given fs given n (DurationVal d) \<longleftrightarrow> True"

fun holds_given :: "flag_set \<Rightarrow> (string, flag_value) gomap \<Rightarrow> string \<Rightarrow> string \<Rightarrow> flag_value \<Rightarrow> bool" where
  "holds_given fs given x n (StringVal d) \<longleftrightarrow> string_var fs x = string_given given n d"
| "holds_given fs given x n (IntVal d) \<longleftrightarrow> int_var fs x = int_given given n d"
| "holds_given fs given x n _ \<longleftrightarrow> True"

definition flag_reads :: "flag_set \<Rightarrow> (string, flag_value) gomap \<Rightarrow> flag \<Rightarrow> bool" where
  "flag_reads fs given f \<longleftrightarrow> reads_given fs given (fl_Name f) (fl_Default f) \<and>
     (case fl_Var f of None \<Rightarrow> True | Some x \<Rightarrow> holds_given fs given x (fl_Name f) (fl_Default f))"

lemma given_flag:
  assumes "same_type (in_force given f) d" "fl_Default f = d"
  shows "reads fs (fl_Name f) (in_force given f) \<Longrightarrow> reads_given fs given (fl_Name f) d"
    and "variable fs x = in_force given f \<Longrightarrow> holds_given fs given x (fl_Name f) d"
  using assms
  by (cases d; cases "gm_get given (fl_Name f)";
      force simp: in_force_def given_defs string_var_def int_var_def dest!: same_type_elims)+

lemma parsed_flag_reads:
  assumes "parsed regs c given fs" "f \<in> set (flags_for regs c)"
  shows "flag_reads fs given f"
  using parsed_flag [OF assms] given_flag [of given f, OF _ refl]
  by (auto simp: flag_reads_def split: option.splits)

text \<open>The flags that the bodies read are among those of their commands.\<close>

definition declared :: "(string \<Rightarrow> string) \<Rightarrow> cmd \<Rightarrow> flag list \<Rightarrow> bool" where
  "declared getenv c fs \<longleftrightarrow> list_all (\<lambda>f. f \<in> set (flags_for (registrations getenv) c)) fs"

lemma declared_clean: "declared getenv CClean [flag ''owner'' (StringVal ''tyk''), flag ''rps'' (FloatVal 10),
    flag ''burst'' (IntVal 20), flag ''concurrency'' (IntVal 3), flag ''savedir'' (StringVal ''./backup''),
    flag ''delete'' (BoolVal False)]"
  by code_simp

lemma declared_plan: "declared getenv CPlan [flag ''owner'' (StringVal ''tyk''), flag ''rps'' (FloatVal 10),
    flag ''burst'' (IntVal 20), flag ''json'' (BoolVal False)]"
  by code_simp

lemma declared_sync: "declared getenv CSync [flag ''pr'' (BoolVal False), flag ''title'' (StringVal ''''),
    flag ''jira'' (StringVal ''releng''), flag ''msg'' (StringVal ''Auto generated from templates by gromit''),
    flag ''auto'' (BoolVal True), flag_var ''owner'' ''owner'' (StringVal ''TykTechnologies''),
    flag_var ''Prefix'' ''prefix'' (StringVal ''releng/''), flag_var ''polBranch'' ''branch'' (StringVal '''')]"
  by code_simp

lemma declared_create: "declared getenv CCreate [flag ''jira'' (StringVal ''''), flag ''auto'' (BoolVal True),
    flag ''reviewers'' (SliceVal []), flag_var ''Prefix'' ''prefix'' (StringVal ''releng/''),
    flag_var ''PrBranch'' ''branch'' (StringVal '''')]"
  by code_simp

lemma declared_dump: "declared getenv CDump [(flag ''patterns'' (StringVal ''apikey-*,tyk-admin-api-*''))\<lparr>fl_Short := ''p''\<rparr>,
    (flag ''count'' (Int64Val 1000))\<lparr>fl_Short := ''c''\<rparr>,
    (flag_var ''redisHosts'' ''redis'' (StringVal (getenv ''REDIS_HOSTS'')))\<lparr>fl_Short := ''r''\<rparr>,
    (flag_var ''redisMasterName'' ''name'' (StringVal (getenv ''REDIS_MASTER'')))\<lparr>fl_Short := ''n''\<rparr>,
    flag_var ''redisMaxRetries'' ''redis-max-retries'' (IntVal 50), (flag_var ''dir'' ''dir'' (StringVal ''.''))\<lparr>fl_Short := ''d''\<rparr>]"
  by code_simp

lemma declared_policy:
  "declared getenv CGen [flag ''repo'' (StringVal ''''), flag_var ''polBranch'' ''branch'' (StringVal '''')]"
  "declared getenv CDiff [flag ''colours'' (BoolVal True)]"
  "declared getenv CMatch [flag ''config'' (StringVal ''$HOME/.docker/config.json''),
    flag ''repos'' (StringVal ''tyk-ee,tyk-analytics,tyk-pump,tyk-sink'')]"
  "declared getenv CTui [flag ''config-dir'' (StringVal ''config/tui''), flag ''out-dir'' (StringVal ''public'')]"
  by code_simp+

lemma declared_env:
  "declared getenv CExpose [flag ''zone'' (StringVal ''dev.tyk.technology''), flag_var ''envName'' ''env'' (StringVal '''')]"
  "declared getenv CLicenser [flag ''baseurl'' (StringVal ''https://bots.cluster.internal.tyk.technology/license-bot/''),
    flag ''key'' (StringVal ''215a7274-5652-4521-8a88-b18e02b8f13e'')]"
  by code_simp+

lemma declared_version: "declared getenv CVersion [flag ''full'' (BoolVal False)]"
  by code_simp

lemma declared_reads:
  assumes "parsed (registrations getenv) c given fs" "declared getenv c fl"
  shows "list_all (flag_reads fs given) fl"
  using assms parsed_flag_reads by (auto simp: declared_def list_all_iff)

lemmas body_simps = flag_reads_def flag_def flag_var_def

text \<open>The bodies, one by one.\<close>

lemma clean_flags_parsed:
  assumes "parsed (registrations getenv) CClean given fs"
  shows "clean_flags fs ll = Done \<lparr>ca_concurrency = int_given given ''concurrency'' 3,
    ca_savedir = string_given given ''savedir'' ''./backup'', ca_delete = bool_given given ''delete'' False,
    ca_progress = (InfoLevel \<le> ll)\<rparr>"
  using declared_reads [OF assms declared_clean] by (simp add: clean_flags_def body_simps not_less)

lemma sync_flags_parsed:
  assumes "parsed (registrations getenv) CSync given fs"
  shows "sync_flags getenv fs = \<lparr>so_pr = bool_given given ''pr'' False, so_token = getenv ''GITHUB_TOKEN'',
     so_branch = string_given given ''branch'' '''', so_prefix = string_given given ''prefix'' ''releng/'',
     so_owner = string_given given ''owner'' ''TykTechnologies'',
     so_msg = string_given given ''msg'' ''Auto generated from templates by gromit'',
     so_auto = bool_given given ''auto'' True, so_title = string_given given ''title'' '''',
     so_jira = string_given given ''jira'' ''releng''\<rparr>"
  using declared_reads [OF assms declared_sync] by (simp add: sync_flags_def body_simps)

lemma create_flags_parsed:
  assumes "parsed (registrations getenv) CCreate given fs"
  shows "create_flags fs = Done (string_given given ''jira'' '''', bool_given given ''auto'' True,
    slice_given given ''reviewers'' [], string_given given ''prefix'' ''releng/'', string_given given ''branch'' '''')"
  using declared_reads [OF assms declared_create] by (simp add: create_flags_def body_simps)

lemma dump_flags_parsed:
  assumes "parsed (registrations getenv) CDump given fs"
  shows "dump_flags fs = (\<lparr>ro_Addrs = split_on (CHR '','') (string_given given ''redis'' (getenv ''REDIS_HOSTS'')),
      ro_MasterName = string_given given ''name'' (getenv ''REDIS_MASTER''),
      ro_MaxRetries = int_given given ''redis-max-retries'' 50, ro_BatchSize = int_given given ''count'' 1000\<rparr>,
    string_given given ''dir'' ''.'', split_on (CHR '','') (string_given given ''patterns'' ''apikey-*,tyk-admin-api-*''),
    int_given given ''count'' 1000)"
  using declared_reads [OF assms declared_dump] by (simp add: dump_flags_def body_simps)

lemma pkgs_setup_parsed:
  assumes "parsed (registrations getenv) c given fs" "c = CClean \<or> c = CPlan"
  shows "pkgs_setup getenv unmarshal_key fs =
     (if getenv ''PACKAGECLOUD_TOKEN'' = [] then Fatal ''Working with packagecloud.io requires PACKAGECLOUD_TOKEN''
      else case unmarshal_key ''pkgs'' of Inl e \<Rightarrow> Fatal ''Could not load repo config''
        | Inr repos \<Rightarrow> Done (\<lparr>cl_token = getenv ''PACKAGECLOUD_TOKEN'', cl_owner = string_given given ''owner'' ''tyk'',
            cl_rps = rat_given given ''rps'' 10, cl_burst = int_given given ''burst'' 20\<rparr>, repos))"
proof -
  have "list_all (flag_reads fs given) [flag ''owner'' (StringVal ''tyk''), flag ''rps'' (FloatVal 10), flag ''burst'' (IntVal 20)]"
    using assms declared_reads [OF _ declared_clean] declared_reads [OF _ declared_plan] by auto
  then have "fst (GetString fs ''owner'') = string_given given ''owner'' ''tyk''"
    "fst (GetFloat64 fs ''rps'') = rat_given given ''rps'' 10" "fst (GetInt fs ''burst'') = int_given given ''burst'' 20"
    by (simp_all add: body_simps)
  then show ?thesis
    by (simp add: pkgs_setup_def pkgs_prerun_def LoadConfig_pkgs_def NewClient_def split: sum.split)
qed

lemma policy_flags_parsed:
  "parsed (registrations getenv) CGen given fs \<Longrightarrow> gen_flags fs = (string_given given ''repo'' '''', string_given given ''branch'' '''')"
  "parsed (registrations getenv) CDiff given fs \<Longrightarrow> diff_flags fs = bool_given given ''colours'' True"
  "parsed (registrations getenv) CMatch given fs \<Longrightarrow> match_flags fs = (string_given given ''config'' ''$HOME/.docker/config.json'',
     string_given given ''repos'' ''tyk-ee,tyk-analytics,tyk-pump,tyk-sink'')"
  "parsed (registrations getenv) CTui given fs \<Longrightarrow> tui_flags fs = (string_given given ''config-dir'' ''config/tui'', string_given given ''out-dir'' ''public'')"
  using declared_policy [THEN declared_reads [rotated], of getenv given fs]
  by (simp_all add: gen_flags_def diff_flags_def match_flags_def tui_flags_def body_simps)

lemma other_flags_parsed:
  "parsed (registrations getenv) CExpose given fs \<Longrightarrow> expose_flags fs = (string_given given ''env'' '''', Inr (string_given given ''zone'' ''dev.tyk.technology''))"
  "parsed (registrations getenv) CLicenser given fs \<Longrightarrow> licenser_flags fs =
     (string_given given ''baseurl'' ''https://bots.cluster.internal.tyk.technology/license-bot/'',
      string_given given ''key'' ''215a7274-5652-4521-8a88-b18e02b8f13e'')"
  "parsed (registrations getenv) CPlan given fs \<Longrightarrow> plan_flags fs = bool_given given ''json'' False"
  "parsed (registrations getenv) CVersion given fs \<Longrightarrow> version_flags fs = bool_given given ''full'' False"
  using declared_env [THEN declared_reads [rotated], of getenv given fs]
    declared_reads [OF _ declared_plan, of getenv given fs] declared_reads [OF _ declared_version, of getenv given fs]
  by (simp_all add: expose_flags_def licenser_flags_def plan_flags_def version_flags_def body_simps)

section \<open>No flag, no deletion\<close>

definition nothing_removed :: "clean_state \<Rightarrow> bool" where
  "nothing_removed s \<longleftrightarrow> list_all (\<lambda>e. case e of Deleted i \<Rightarrow> False | DeleteFailed i x \<Rightarrow> False | _ \<Rightarrow> True) (cs_log s)"

lemma nothing_removed_step:
  assumes "\<not> cc_Delete cc" "nothing_removed s" "clean_step sv sha cc s t"
  shows "nothing_removed t"
  using assms(3,2)
proof cases
  case (fetch url r)
  then show ?thesis using assms(2) fetch_page_cases [of r s] by (auto simp: nothing_removed_def)
next
  case (look item items nxt now)
  then show ?thesis using assms(2) by (auto simp: nothing_removed_def look_at_def Let_def emit_def)
next
  case (hand item items nxt w)
  then show ?thesis using assms(2) by (auto simp: nothing_removed_def hand_over_def emit_def set_worker_def)
next
  case (backup w item env)
  then show ?thesis using assms(2) backup_item_cases [of cc sha env item w s]
    by (auto simp: nothing_removed_def emit_def set_worker_def)
qed (use assms(1,2) in \<open>auto simp: nothing_removed_def delete_item_def emit_def set_worker_def\<close>)

lemma nothing_removed_reach:
  assumes "clean_reach sv sha cc (clean_init url f cc fs) s" "\<not> cc_Delete cc"
  shows "nothing_removed s"
  using assms(1) by (rule cleaning.invariant) (simp add: clean_init_def nothing_removed_def, rule nothing_removed_step [OF assms(2)])

lemma nothing_removed_runs:
  assumes "clean_repos sv sha a repos owner ns fs runs fs'" "\<not> ca_delete a"
  shows "\<forall>(n, s) \<in> set runs. nothing_removed s"
proof -
  have "\<not> cc_Delete (clean_config a repos n)" for n using assms(2) by (simp add: clean_config_def)
  note run = nothing_removed_reach [OF _ this]
  from assms(1) show ?thesis
    by induction (auto dest: run)
qed

section \<open>Properties\<close>


text \<open>A parsed command line, from what was registered.\<close>

definition ref_flag :: "(string \<Rightarrow> string) \<Rightarrow> cmd \<Rightarrow> (string, flag_value) gomap \<Rightarrow> (flag \<Rightarrow> bool) \<Rightarrow> flag_value option" where
  "ref_flag getenv c given P = map_option (in_force given) (List.find P (flags_for (registrations getenv) c))"

definition ref_flags :: "(string \<Rightarrow> string) \<Rightarrow> cmd \<Rightarrow> (string, flag_value) gomap \<Rightarrow> flag_set" where
  "ref_flags getenv c given =
     (let look = (\<lambda>n. ref_flag getenv c given (\<lambda>f. fl_Name f = n))
      in \<lparr>GetBool = (\<lambda>n. case look n of Some (BoolVal b) \<Rightarrow> (b, None) | _ \<Rightarrow> (False, Some ''flag'')),
          GetInt = (\<lambda>n. case look n of Some (IntVal i) \<Rightarrow> (i, None) | _ \<Rightarrow> (0, Some ''flag'')),
          GetInt64 = (\<lambda>n. case look n of Some (Int64Val i) \<Rightarrow> (i, None) | _ \<Rightarrow> (0, Some ''flag'')),
          GetFloat64 = (\<lambda>n. case look n of Some (FloatVal x) \<Rightarrow> (x, None) | _ \<Rightarrow> (0, Some ''flag'')),
          GetString = (\<lambda>n. case look n of Some (StringVal s) \<Rightarrow> (s, None) | _ \<Rightarrow> ([], Some ''flag'')),
          GetStringSlice = (\<lambda>n. case look n of Some (SliceVal xs) \<Rightarrow> (xs, None) | _ \<Rightarrow> ([], Some ''flag'')),
          variable = (\<lambda>x. case ref_flag getenv c given (\<lambda>f. fl_Var f = Some x) of Some v \<Rightarrow> v | None \<Rightarrow> StringVal [])\<rparr>)"

definition wit_getenv :: "string \<Rightarrow> string" where
  "wit_getenv n = (if n = ''PACKAGECLOUD_TOKEN'' then ''t'' else [])"

lemma wit_parsed: "parsed (registrations wit_getenv) CClean [(''savedir'', StringVal ''s'')]
    (ref_flags wit_getenv CClean [(''savedir'', StringVal ''s'')])"
  by code_simp


text \<open>
  (C9) \<open>gromit pkgs clean\<close> without \<open>--delete\<close>: from the command line down to the requests, no package is removed and no
  removal is tried, in any repository, whatever the filters select, the API answers and the workers' interleaving.
\<close>

theorem no_flag_no_deletion:
  assumes "parsed (registrations getenv) CClean given fs" "gm_get given ''delete'' \<noteq> Some (BoolVal True)"
    and "clean_flags fs ll = Done a" "clean_repos sv sha a repos owner args files runs files'"
  shows "\<forall>(n, s) \<in> set runs. \<forall>i e. Deleted i \<notin> set (cs_log s) \<and> DeleteFailed i e \<notin> set (cs_log s)"
proof -
  have "ca_delete a = bool_given given ''delete'' False"
    using clean_flags_parsed [OF assms(1), of ll] assms(3) by (auto simp del: not_less)
  then have "\<not> ca_delete a" using assms(2) by (auto simp: bool_given_def split: option.splits flag_value.splits)
  from nothing_removed_runs [OF assms(4) this] show ?thesis
    by (fastforce simp: nothing_removed_def list_all_iff)
qed

text \<open>
  A run over one page with one package, with one worker and another directory given: it is downloaded and kept.
\<close>

definition wit_given :: "(string, flag_value) gomap" where
  "wit_given = [(''concurrency'', IntVal 1), (''savedir'', StringVal ''b'')]"

definition wit_kept_args :: clean_args where "wit_kept_args = wit_args\<lparr>ca_delete := False\<rparr>"
definition wit_kept_cc :: CleanConfig where "wit_kept_cc = wit_cc\<lparr>cc_Delete := False\<rparr>"
definition wit_k5 :: clean_state where "wit_k5 = delete_item wit_kept_cc (DelResponse 200) wit_pkg 0 wit_s4"
definition wit_k7 :: clean_state where "wit_k7 = set_worker 0 Exited (wit_k5\<lparr>cs_prod := Closed None\<rparr>)"

lemma wit_kept:
  shows "clean_config wit_kept_args wit_repos ''r'' = wit_kept_cc"
    and "backup_item id wit_kept_cc wit_env wit_pkg 0 wit_s3 = wit_s4"
    and "parsed (registrations wit_getenv) CClean wit_given (ref_flags wit_getenv CClean wit_given)"
    and "clean_flags (ref_flags wit_getenv CClean wit_given) (Level 0) = Done wit_kept_args"
proof -
  show "clean_config wit_kept_args wit_repos ''r'' = wit_kept_cc" by code_simp
  show "backup_item id wit_kept_cc wit_env wit_pkg 0 wit_s3 = wit_s4"
    unfolding wit_s4_def backup_item_def wit_kept_cc_def by (simp cong: if_cong option.case_cong prod.case_cong)
  show "parsed (registrations wit_getenv) CClean wit_given (ref_flags wit_getenv CClean wit_given)" by code_simp
  then show "clean_flags (ref_flags wit_getenv CClean wit_given) (Level 0) = Done wit_kept_args"
    by (simp add: clean_flags_parsed wit_kept_args_def wit_args_def wit_given_def given_defs InfoLevel_def less_eq_level_def)
qed

lemma wit_kept_end:
  "cs_prod wit_k5 = Page [] []" "cs_workers wit_k5 = [Idle]" "Kept wit_pkg \<in> set (cs_log wit_k7)"
  "cs_prod wit_k7 = Closed None" "cs_workers wit_k7 = [Exited]"
  by (simp_all add: wit_k5_def wit_k7_def delete_item_def wit_kept_cc_def emit_def set_worker_def wit_states)

lemma wit_kept_reach:
  "clean_reach ref_semver id wit_kept_cc (clean_init (repo_url ''o'' ''r'') wit_filter wit_kept_cc []) wit_k7"
proof -
  let ?s0 = "clean_init (repo_url ''o'' ''r'') wit_filter wit_kept_cc []"
  note step = clean_reach.step
  have "wit_s1 = fetch_page (Response 200 (Some [wit_pkg]) []) ?s0"
    by (simp add: wit_s1_def wit_s0_def fetch_page_def clean_init_def get_def emit_def wit_kept_cc_def)
  moreover have "clean_step ref_semver id wit_kept_cc ?s0 (fetch_page (Response 200 (Some [wit_pkg]) []) ?s0)"
    by (rule clean_step.fetch [of _ "repo_url ''o'' ''r''"]) (simp add: clean_init_def)
  ultimately have "clean_reach ref_semver id wit_kept_cc ?s0 wit_s1" using step [OF clean_reach.start] by simp
  then have "clean_reach ref_semver id wit_kept_cc ?s0 wit_s2"
    unfolding wit_s2_def by (rule step) (rule clean_step.look [OF wit_states(2)])
  then have "clean_reach ref_semver id wit_kept_cc ?s0 wit_s3"
    unfolding wit_s3_def by (rule step) (rule clean_step.hand [OF wit_states(3)]; simp add: wit_states)
  then have "clean_reach ref_semver id wit_kept_cc ?s0 wit_s4"
    unfolding wit_kept(2) [symmetric] by (rule step) (rule clean_step.backup; simp add: wit_states)
  then have "clean_reach ref_semver id wit_kept_cc ?s0 wit_k5"
    unfolding wit_k5_def by (rule step) (rule clean_step.remove; simp add: wit_states)
  then have "clean_reach ref_semver id wit_kept_cc ?s0 (wit_k5\<lparr>cs_prod := Closed None\<rparr>)"
    using clean_step.page_end [OF wit_kept_end(1), of ref_semver id wit_kept_cc] by (auto intro: step)
  then show ?thesis
    unfolding wit_k7_def by (rule step) (rule clean_step.leave [of _ None]; simp add: wit_kept_end)
qed

lemma wit_kept_run:
  "clean_repos ref_semver id wit_kept_args wit_repos ''o'' [''r''] [] [(''r'', wit_k7)] (cs_files wit_k7)"
  by (rule clean_repos.cleaned [OF wit_clean_setup(2)])
    (use wit_kept_reach in \<open>simp_all add: wit_kept(1) finished_def wit_kept_end clean_repos.no_more\<close>)

theorem no_flag_no_deletion_witness:
  "Kept wit_pkg \<in> set (cs_log wit_k7) \<and> (\<forall>i e. Deleted i \<notin> set (cs_log wit_k7) \<and> DeleteFailed i e \<notin> set (cs_log wit_k7))"
  using no_flag_no_deletion [OF wit_kept(3) _ wit_kept(4) wit_kept_run] wit_kept_end(3)
  by (simp add: wit_given_def)

section \<open>Arguments\<close>

text \<open>
  Arguments that the check of a command accepted are enough for what its body reads: no command indexes past them, but
  \<open>passwd\<close>, which has no check, does so without an argument; and a shell that \<open>completion\<close> accepts is one it knows.
\<close>

theorem accepted_args_suffice:
  assumes "check_laws check" "check (command_of c) args = None"
  shows "(c \<noteq> CPasswd \<longrightarrow> (\<exists>xs. args_read c args = Done xs \<and> set xs \<subseteq> set args)) \<and>
    (c = CCompletion \<longrightarrow> (\<exists>sh. completion_cmd args = Done (Some sh))) \<and>
    args_read CPasswd [] = Panic ''index out of range''"
proof -
  have law: "case cm_Args (command_of c) of NoCheck \<Rightarrow> True | MinimumNArgs n \<Rightarrow> n \<le> length args
      | ExactArgs n \<Rightarrow> length args = n
      | ExactValidArgs n \<Rightarrow> length args = n \<and> set args \<subseteq> set (cm_ValidArgs (command_of c))"
    using assms unfolding check_laws_def by blast
  have one: "\<exists>xs. one_arg args = Done xs \<and> set xs \<subseteq> set args" if "1 \<le> length args"
    using that by (cases args) (simp_all add: one_arg_def index_def)
  have two: "\<exists>xs. two_args args = Done xs \<and> set xs \<subseteq> set args" if "2 \<le> length args"
    using that by (cases args; cases "tl args") (simp_all add: two_args_def index_def)
  have "\<exists>xs. args_read c args = Done xs \<and> set xs \<subseteq> set args" if p: "c \<noteq> CPasswd"
  proof -
    consider "c \<in> {CCompletion, CGen, CSync, CDiff}" | "c \<in> {CLicenser, CMatch}"
      | "c \<notin> {CCompletion, CGen, CSync, CDiff, CPasswd, CLicenser, CMatch}" using p by blast
    then show ?thesis
    proof cases
      case 1
      then have "1 \<le> length args" using law
        by (auto simp: completionCmd_def genSubCmd_def syncSubCmd_def diffSubCmd_def command_line_def)
      with 1 one show ?thesis by (auto simp: args_read_def)
    next
      case 2
      then have "2 \<le> length args" using law by (auto simp: licenserCmd_def matchSubCmd_def command_line_def)
      with 2 two show ?thesis by (auto simp: args_read_def)
    next
      case 3
      then show ?thesis by (auto simp: args_read_def)
    qed
  qed
  moreover have "\<exists>sh. completion_cmd args = Done (Some sh)" if "c = CCompletion"
  proof -
    from law have "length args = 1 \<and> set args \<subseteq> {''bash'', ''zsh'', ''fish'', ''powershell''}"
      unfolding that command_of.simps by (simp add: completionCmd_def command_line_def)
    then obtain a where "args = [a]" "a \<in> {''bash'', ''zsh'', ''fish'', ''powershell''}"
      by (cases args) (auto simp: less_Suc_eq_le)
    then show ?thesis by (auto simp: completion_cmd_def index_def shell_of_def)
  qed
  moreover have "args_read CPasswd [] = Panic ''index out of range''" by code_simp
  ultimately show ?thesis by blast
qed

text \<open>A check as documented, on an accepted shell and on a command line that is too short.\<close>

definition ref_check :: "command \<Rightarrow> string list \<Rightarrow> string option" where
  "ref_check c args =
     (case cm_Args c of
        NoCheck \<Rightarrow> None
      | MinimumNArgs n \<Rightarrow> if n \<le> length args then None else Some ''requires more args''
      | ExactArgs n \<Rightarrow> if length args = n then None else Some ''accepts other args''
      | ExactValidArgs n \<Rightarrow> if length args = n \<and> list_all (\<lambda>a. a \<in> set (cm_ValidArgs c)) args then None else Some ''invalid args'')"

lemma ref_check_laws: "check_laws ref_check"
  by (auto simp: check_laws_def ref_check_def list_all_iff split: args_check.splits if_splits)

theorem accepted_args_suffice_witness:
  "(\<exists>sh. completion_cmd [''fish''] = Done (Some sh)) \<and> ref_check (command_of CMatch) [''a''] \<noteq> None"
proof -
  have "ref_check (command_of CCompletion) [''fish''] = None" by code_simp
  from accepted_args_suffice [OF ref_check_laws this] show ?thesis by (simp add: ref_check_def matchSubCmd_def command_line_def)
qed

section \<open>The tree of commands\<close>

definition all_cmds :: "cmd list" where
  "all_cmds = [CRoot, CCompletion, CEnv, CExpose, CLicenser, COrgs, CDump, CPasswd, CPkgs, CClean, CPlan, CPolicy, CGen,
     CController, CSync, CDiff, CMatch, CTui, CPrs, CCreate, CDelete, CUpdate, COpen, CVersion]"

definition names_of :: "cmd \<Rightarrow> string list" where
  "names_of c = takeWhile (\<lambda>x. x \<noteq> CHR '' '') (cm_Use (command_of c)) # cm_Aliases (command_of c)"

definition added_under :: "registration list \<Rightarrow> cmd \<Rightarrow> cmd list" where
  "added_under regs p = concat (List.map (\<lambda>r. case r of AddCommand q c \<Rightarrow> if q = p then [c] else [] | _ \<Rightarrow> []) regs)"

text \<open>
  Every command but the root is added once and leads up to the root; siblings can be told apart, and so can the flags
  of a command, by name and by shorthand.
\<close>

definition tree_ok :: "registration list \<Rightarrow> bool" where
  "tree_ok regs \<longleftrightarrow>
     distinct (concat (List.map (added_under regs) all_cmds)) \<and>
     list_all (\<lambda>c. last (lineage regs (length regs) c) = CRoot) all_cmds \<and>
     list_all (\<lambda>c. distinct (concat (List.map names_of (added_under regs c)))) all_cmds \<and>
     list_all (\<lambda>c. distinct (List.map fl_Name (flags_for regs c)) \<and>
       distinct (List.filter (\<lambda>s. s \<noteq> []) (List.map fl_Short (flags_for regs c)))) all_cmds"

theorem commands_form_a_tree: "set all_cmds = UNIV \<and> tree_ok (registrations getenv)"
proof
  have "c \<in> set all_cmds" for c by (cases c) (simp_all add: all_cmds_def)
  then show "set all_cmds = UNIV" by blast
  show "tree_ok (registrations getenv)" by code_simp
qed

text \<open>The flags marked as required, and whether the command has them among its own: \<open>redis\<close> is not one of them.\<close>

theorem redis_is_not_an_own_flag:
  "MarkFlagRequired COrgs ''redis'' \<in> set (registrations getenv) \<and>
   ''redis'' \<notin> fl_Name ` set (flags_on (registrations getenv) COrgs Local) \<and>
   ''redis'' \<in> fl_Name ` set (flags_on (registrations getenv) COrgs Persistent)"
  by code_simp

end
