(* ===== verification/Spec2Isabelle.thy ===== *)
theory Spec2Isabelle
  imports PkgsCmd Tfuncs Controller Tui Manifests Diff Sync OrgsDump Env GpgAgent Dhi Confgen Statsd Support BuildStore Commands
begin

text \<open>
  \<^bold>\<open>A model of gromit, the release engineering tool of Tyk.\<close>

  Gromit renders templated release files into many repositories and opens pull requests for them, decides what
  a CI run tests, prunes package repositories, dumps and restores organisations from Redis, and exposes and licenses
  test environments.  Its state is outside the process (git, GitHub, packagecloud, Redis, AWS, the disk); inside there are
  configuration values computed in levels, and three places with goroutines.  The model follows that: values are
  records and datatypes with the source's fields, operations are functions with the source's branches, errors
  are values of a sum or option type, a panic or \<open>log.Fatal\<close> is an outcome of the type \<open>go\<close>, what the
  outside answers is an argument, and what is sent to it is part of the result or an event of a log.

  \<^bold>\<open>The theories.\<close>

  Go itself.  \<open>Prelude\<close>: outcomes, maps (association lists, whose order is the unspecified order of
  iteration), and the interface of programs that run in steps.  \<open>GoStrings\<close>: strings, strconv, filepath, bufio lines.
  \<open>GoRegexp\<close>: the patterns used, with leftmost-first matching.  \<open>GoJson\<close>, \<open>JsonParse\<close>: printing
  and parsing of JSON.  \<open>USet\<close>: \<open>util/set.go\<close>.

  Policies.  \<open>PolicyConfig\<close>: the types of \<open>policy/policy.go\<close>, \<open>GetRepoPolicy\<close>, \<open>mergeBuilds\<close>,
  \<open>filterBuildsByFeature\<close>, \<open>SetBranch\<close>.  \<open>BuildStore\<close>: \<open>mergeBuilds\<close> again, with the arrays that the
  builds of different branches share.  \<open>Tfuncs\<close>: the functions templates call
  (\<open>policy/tfuncs.go\<close>).  \<open>BundleTree\<close> and \<open>BundleRender\<close>: \<open>policy/bundle.go\<close> and
  \<open>policy/validator.go\<close>, from the embedded templates to files on disk.  \<open>World\<close>: the disk, the log and the effects.
  \<open>Git\<close>, \<open>Github\<close>, \<open>Jira\<close>: \<open>policy/git.go\<close>, \<open>github.go\<close>, \<open>jira.go\<close>.  \<open>Sync\<close>:
  \<open>ProcessBranch\<close> and the commands \<open>policy sync\<close>, \<open>policy gen\<close> and \<open>prs\<close> (\<open>cmd/policy.go\<close>,
  \<open>cmd/prs.go\<close>), which compose the theories before.  \<open>Diff\<close>: the gate \<open>policy diff\<close>.

  Tests of releases.  \<open>Controller\<close>: parameters and outputs of a run (\<open>policy/controller.go\<close>).  \<open>Variations\<close>:
  the tree of test variations (\<open>policy/variations.go\<close>).  \<open>Tui\<close>: the static files that answer
  queries on them (\<open>policy/tui.go\<close>).  \<open>Manifests\<close>: matching image tags (\<open>policy/manifests.go\<close>).  \<open>Dhi\<close>:
  comparing image customizations (\<open>dhi\<close>).

  Packages.  \<open>SemVer\<close>: the interface of the version library.  \<open>Tracks\<close>, \<open>PkgFilter\<close>, \<open>PkgPlan\<close>,
  \<open>PkgClient\<close>: the files of \<open>pkgs\<close>; \<open>PkgsCmd\<close>: \<open>pkgs plan\<close> and \<open>pkgs clean\<close>
  (\<open>cmd/pkgs.go\<close>), which compose them.

  Organisations and environments.  \<open>Orgs\<close>, \<open>OrgsDump\<close>: \<open>orgs/keys.go\<close>, \<open>orgs/restore.go\<close>,
  \<open>cmd/orgs.go\<close>.  \<open>Env\<close>: the package \<open>env\<close> and \<open>cmd/env.go\<close>.  \<open>Confgen\<close>: \<open>confgen/templates.go\<close>.
  \<open>GpgAgent\<close>: signing keys (\<open>util/gpgagent\<close>, \<open>util/gpg.go\<close>).  \<open>Statsd\<close>: \<open>util/statsd.go\<close>.
  \<open>Support\<close>: \<open>config/config.go\<close>, \<open>cmd/root.go\<close>, and the rest of \<open>util\<close>.
  \<open>Commands\<close>: the commands of \<open>cmd\<close> with their argument checks and flags, as the \<open>init\<close> functions register
  them, and what the bodies read of both; it is what connects a command line with the models of the bodies.

  \<^bold>\<open>Interfaces.\<close>  Each locale is interpreted on the model's own definitions, in the theory that provides
  them: \<open>map_store\<close> (maps), \<open>ordered_set\<close> (what the policies need of sets), \<open>overlay\<close> (copying
  one configuration level over another), \<open>guarded_log\<close> (which calls may follow which), and
  \<open>transition_system\<close> with its extension \<open>draining\<close> for the components with goroutines: \<open>clean_step\<close>
  (a fetching goroutine and workers on an unbuffered channel), \<open>dump_step\<close> (a worker and a buffered channel per
  organisation, a wait group) and \<open>send_step\<close> (callers and a sender on a channel of capacity 100).

  \<^bold>\<open>Third-party code\<close> is an argument everywhere: a function, or a record of functions whose answers may depend on the
  whole history (\<open>git_lib\<close>, \<open>gh_lib\<close>, \<open>render_env\<close>, \<open>agent\<close>, \<open>certs\<close>).  Where a property relies on its
  documented behaviour this is a named hypothesis: \<open>semver_laws\<close>, \<open>copier_laws\<close>, \<open>mergo_laws\<close>,
  \<open>write_complete\<close>, \<open>mget_ok\<close>, \<open>mergo_store_laws\<close>, \<open>parsed\<close>, \<open>check_laws\<close>.  The witnesses instantiate them with executable functions that satisfy the
  laws (\<open>ref_semver\<close>, \<open>ref_copier\<close>, \<open>ref_mergo\<close> and so on).

  \<^bold>\<open>What the lemmas show.\<close>
  Configuration: which level a value comes from, and that a loaded policy is well formed whatever branch is
  selected.  Bundles: the tree holds the templates of the features in order; rendering equals writing
  its leaves one by one.  Effects: \<open>adds\<close> bounds what an operation can add to the log, and its rules compose
  along the source's calls, so that the orders of events hold for whole commands.  Goroutines: invariants by
  the induction of \<open>transition_system\<close>, progress by case analysis, termination by a measure.  Parsers and
  printers: what is printed reads back.  Plans: the accumulated report is the image of what the
  abstract policy selects.  Commands: every flag a body reads is registered for it, so that properties
  of the bodies become properties of command lines.  The two properties below cross the components: a synced branch from
  its configuration to the push, and removals against plans.

  \<^bold>\<open>Bounds and fuel.\<close>  The JSON parser runs on fuel; a text's length is enough for every value it holds
  (\<open>JsonParse\<close>).  Paging may not end, since the server chooses the next link: \<open>list_loop\<close> is a
  \<open>partial_function\<close> and \<open>None\<close> means that it goes on for ever.  \<open>MaxScanTokenSize\<close> (64 KiB),
  \<open>batchSize\<close> and \<open>queue_cap\<close> are the constants of the source or of the library.  \<open>PrunedBytes\<close> is
  a word of 64 bits and wraps; durations saturate; other counters are too small to overflow and are numbers.

  \<^bold>\<open>Not modelled.\<close>  Cobra's parsing and the completion scripts it generates, the long help texts, the
  logging, the unused loggers of \<open>util/audit.go\<close>, constructors that only wrap a
  client, \<open>getLicense\<close> and \<open>logArray\<close>.  Strings are bytes; case conversion is that of ASCII.  Aliasing of slices is
  modelled where branches share them (\<open>BuildStore\<close>) and elsewhere lists are values; each reading of the clock is
  arbitrary.  Git's own changes of a work tree are in the log, not on the modelled disk.
\<close>

section \<open>From the configuration to the pushed branch\<close>

text \<open>The lists of the branch that \<open>SetBranch\<close> selects in a computed policy.\<close>

lemma selected_branch:
  assumes "copier_laws cp" "gm_ok (rc_Branches r)" "find_group repo (pol_Groups p) = Some (grp, r)"
    and "GetRepoPolicy cp merge p repo = Done (Inr rp)" "gm_get (rc_Branches r) b = Some bbv" "SetBranch b rp = Some rp'"
  shows "rp_Branch rp' = b"
    and "bv_Features (rp_Branchvals rp') = sorted_list_of_set (set (rc_Features grp) \<union> set (rc_Features r) \<union> set (bv_Features bbv))"
    and "set (bv_DeletedFiles (rp_Branchvals rp'))
      = set (pol_DeletedFiles p) \<union> set (rc_DeletedFiles grp) \<union> set (rc_DeletedFiles r) \<union> set (bv_DeletedFiles bbv)"
proof -
  obtain bv where bv: "gm_get (rp_Branches rp) b = Some bv"
    "bv_Features bv = sorted_list_of_set (set (rc_Features grp) \<union> set (rc_Features r) \<union> set (bv_Features bbv))"
    "bv_DeletedFiles bv = sorted_list_of_set
      (set (pol_DeletedFiles p) \<union> set (rc_DeletedFiles grp) \<union> set (rc_DeletedFiles r) \<union> set (bv_DeletedFiles bbv))"
    using branch_values [OF assms(1-5)] by blast
  moreover from bv(1) assms(6) have "rp' = rp\<lparr>rp_Branch := b, rp_Branchvals := bv\<rparr>" by (simp add: SetBranch_def)
  ultimately show "rp_Branch rp' = b"
    "bv_Features (rp_Branchvals rp') = sorted_list_of_set (set (rc_Features grp) \<union> set (rc_Features r) \<union> set (bv_Features bbv))"
    "set (bv_DeletedFiles (rp_Branchvals rp'))
      = set (pol_DeletedFiles p) \<union> set (rc_DeletedFiles grp) \<union> set (rc_DeletedFiles r) \<union> set (bv_DeletedFiles bbv)"
    by simp_all
qed


text \<open>The branch \<open>master\<close> of the sample configuration has the features \<open>a\<close>, \<open>e\<close> and \<open>f\<close>.\<close>

lemma wit_branch_adds:
  "bundle_adds wit_parse wit_fs [''templates/subtemplates/s''] [''a'', ''e'', ''f'']
     = [([''d'', ''y''], ''d/y'', [''templates/a/d/y'', ''templates/subtemplates/s'']),
        ([''x.sh''], ''x.sh'', [''templates/a/x.sh'', ''templates/subtemplates/s'', ''templates/a/x.sh.d/z''])]"
proof -
  have p: "drop 2 (split_on (CHR ''/'') ''templates/a/d/y'') = [''d'', ''y'']"
    "drop 2 (split_on (CHR ''/'') ''templates/a/x.sh'') = [''x.sh'']"
    "filepath_join [''d'', ''y''] = ''d/y''" "filepath_join [''x.sh''] = ''x.sh''"
    by code_simp+
  have e: "feature_files wit_fs [''templates/subtemplates/s''] ''e'' = []" "feature_files wit_fs [''templates/subtemplates/s''] ''f'' = []"
    by code_simp+
  show ?thesis
    by (simp only: bundle_adds_def wit_bundle_evals e p List.concat.simps list.map append_Nil append_Nil2 append_Cons
        prod.case wit_parse_def option.sel)
qed

definition wit_options :: PushOptions where
  "wit_options = \<lparr>po_OpDir = ''o'', po_Branch = ''master'', po_RemoteBranch = ''auto'', po_CommitMsg = ''m'', po_Repo = sample_repo\<rparr>"

lemma wit_synced:
  assumes "GetRepoPolicy ref_copier ref_mergo wit_policies ''tyk'' = Done (Inr rp)"
  shows "\<exists>rp' w'. ProcessBranch sample_gl (NewBundle wit_parse wit_fs) (\<lambda>_. wit_render) rp wit_options empty_world
    = (Done (None, rp'), w')"
proof -
  have "case GetRepoPolicy ref_copier ref_mergo wit_policies ''tyk'' of
      Done (Inr rp) \<Rightarrow> (case fst (ProcessBranch sample_gl (NewBundle wit_parse wit_fs) (\<lambda>_. wit_render) rp wit_options empty_world) of
         Done (None, rp') \<Rightarrow> True | _ \<Rightarrow> False)
    | _ \<Rightarrow> False" by code_simp
  with assms show ?thesis
    by (cases "ProcessBranch sample_gl (NewBundle wit_parse wit_fs) (\<lambda>_. wit_render) rp wit_options empty_world")
      (auto split: go.splits prod.splits option.splits)
qed


section \<open>From the plan to the removal\<close>

text \<open>
  (C5) What \<open>pkgs clean\<close> removes, \<open>pkgs plan\<close> lists.  In every state a cleaning run of a repository with a static
  cutoff can reach, whatever the interleaving of its goroutines and the answers of the API, a removed package
  whose version is a version was on a page fetched in this run, and the plan of the pages fetched, made at the time the
  filter looked at the package, lists it.  (A package whose version is none is the exception
  \<open>PkgPlan.plan_spares_what_clean_removes\<close> is about.)
\<close>

theorem removed_was_planned:
  assumes "semver_laws sv" "gm_get repos repo = Some cfg" "cfg_Track cfg = []" "MakeFilter sv repos repo = Inr f"
    and "clean_reach sv sha (clean_config a repos repo) (clean_init url f (clean_config a repos repo) fs) s"
    and "Deleted item \<in> set (cs_log s)" "sv_valid sv (item_version item)"
  shows "item \<in> set (listed_of (cs_log s)) \<and>
    (\<exists>now p. BuildPlan sv repo cfg tracks (listed_of (cs_log s)) now = Done (p, None) \<and> plan_package item \<in> set (pl_Packages p))"
proof -
  have f: "f = \<lparr>ft_Exceptions = NewSetFromSlices [cfg_Exceptions cfg],
      ft_Version = sv_canonical sv (cfg_VersionCutoff cfg), ft_Age = cfg_AgeCutoff cfg,
      ft_DownloadAge = 0, ft_total = 0, ft_filtered = 0\<rparr>"
    using MakeFilter_known [OF assms(1,2)] assms(4) by simp
  have listed: "item \<in> set (listed_of (cs_log s))"
    using handed_was_listed [OF assms(5) _ _ deleted_was_handed [OF assms(5,6)]] by (simp add: f)
  obtain newer older where "cs_log s = newer @ Deleted item # older" using assms(6) by (auto dest: split_list)
  then obtain now where now: "Satisfies sv f item now" using deleted_after_saved [OF assms(5)] by blast
  obtain p where p: "BuildPlan sv repo cfg tracks (listed_of (cs_log s)) now = Done (p, None)"
    "plan_of sv cfg False now (listed_of (cs_log s)) p" "pl_Cutoff p = sv_canonical sv (cfg_VersionCutoff cfg)"
    using BuildPlan_static [OF assms(3)] by metis
  have "prunes sv cfg (pl_Cutoff p) False now item"
    using now assms(7) by (auto simp: prunes_def Satisfies_iff f p(3))
  with p(2) listed have "plan_package item \<in> set (pl_Packages p)" by (simp add: plan_of_def Let_def)
  with listed p(1) show ?thesis by blast
qed

theorem removed_was_planned_witness:
  "wit_pkg \<in> set (listed_of (cs_log wit_s7)) \<and>
    (\<exists>now p cfg. BuildPlan ref_semver ''r'' cfg [] (listed_of (cs_log wit_s7)) now = Done (p, None) \<and>
       plan_package wit_pkg \<in> set (pl_Packages p))"
proof -
  obtain cfg where cfg: "gm_get PkgsCmd.wit_repos ''r'' = Some cfg" "cfg_Track cfg = []"
    by (simp add: PkgsCmd.wit_repos_def)
  have "Deleted wit_pkg \<in> set (cs_log wit_s7)" by (simp add: wit_states)
  moreover have "sv_valid ref_semver (item_version wit_pkg)" by code_simp
  ultimately show ?thesis
    using removed_was_planned [OF ref_semver_laws cfg wit_clean_setup(2) wit_clean_reach [folded wit_clean_setup(1)]]
    by blast
qed

end
